(* ===== verification/Go_Prelude.thy ===== *)
theory Go_Prelude
  imports Main "HOL-Library.Word" "HOL-Library.Sublist" "HOL-Library.Multiset"
begin

text \<open>
  What every component shares: the Go types the model uses, the collections of
  lemmas the proofs draw on, and the part of the Go string library the sources call.

  Strings are byte strings (\<open>char list\<close>, one \<open>char\<close> per byte), as Go's are. A Go
  \<open>int\<close> or \<open>int64\<close> is an \<open>int\<close>; where the code can leave the 64-bit range the result
  goes through \<open>wrap64\<close>. A \<open>uint64\<close> is a \<open>64 word\<close>. A \<open>time.Duration\<close> and an
  instant (since 1970) are \<open>int\<close>s of nanoseconds.
\<close>

section \<open>Types and collections\<close>

type_synonym u64 = "64 word"
type_synonym bytes = "8 word list"
type_synonym duration = int
type_synonym instant = int

named_theorems frame \<open>which parts of a state an operation leaves alone\<close>
named_theorems unhealthy_guard \<open>what an operation does on an unhealthy backend\<close>
named_theorems keeps \<open>invariants an operation keeps\<close>

section \<open>64-bit integers\<close>

definition wrap64 :: "int \<Rightarrow> int" where
  "wrap64 x = signed_take_bit 63 x"

definition in_int64 :: "int \<Rightarrow> bool" where
  "in_int64 x \<longleftrightarrow> - (2 ^ 63) \<le> x \<and> x < 2 ^ 63"

text \<open>\<open>uint64(x)\<close> and \<open>int(u)\<close>.\<close>

definition uint64_of_int :: "int \<Rightarrow> u64" where
  "uint64_of_int x = word_of_int x"

definition int_of_uint64 :: "u64 \<Rightarrow> int" where
  "int_of_uint64 u = sint u"

lemma wrap64_id: "in_int64 x \<Longrightarrow> wrap64 x = x"
  by (simp add: wrap64_def in_int64_def signed_take_bit_int_eq_self)

lemma in_int64_wrap64: "in_int64 (wrap64 x)"
  unfolding wrap64_def in_int64_def
  using signed_take_bit_int_greater_eq_minus_exp [of 63 x] signed_take_bit_int_less_exp [of 63 x]
  by auto

lemma wrap64_eq_iff_in_range: "wrap64 x = x \<longleftrightarrow> in_int64 x"
  using wrap64_id in_int64_wrap64 by metis

lemma wrap64_cong_mod: "wrap64 x mod 2 ^ 64 = x mod 2 ^ 64"
proof -
  have "take_bit 64 (signed_take_bit 63 x) = take_bit 64 x"
    by (rule take_bit_signed_take_bit) simp
  then show ?thesis by (simp add: wrap64_def take_bit_eq_mod)
qed

lemma int_of_uint64_small: "unat u < 2 ^ 63 \<Longrightarrow> nat (int_of_uint64 u) = unat u"
proof -
  assume u: "unat u < 2 ^ 63"
  then have "int (unat u) < int (2 ^ 63)" by (simp only: of_nat_less_iff)
  then have "uint u < 2 ^ 63" by simp
  moreover have "- (2 ^ 63) \<le> uint u" by (rule order_trans [of _ 0]) simp_all
  ultimately have "signed_take_bit 63 (uint u) = uint u" by (intro signed_take_bit_int_eq_self)
  then have "sint u = uint u" by (simp add: sint_uint)
  then show ?thesis by (simp add: int_of_uint64_def)
qed

lemma mod_uint64_bounds:
  assumes "0 < m" "m < 2 ^ 63"
  shows "0 \<le> int_of_uint64 (u mod uint64_of_int m) \<and> int_of_uint64 (u mod uint64_of_int m) < m"
proof -
  let ?x = "uint (u mod uint64_of_int m)"
  have "uint (uint64_of_int m) = m"
    using assms by (simp add: uint64_of_int_def uint_word_of_int)
  then have x: "?x = uint u mod m" by (simp add: uint_mod_distrib)
  with assms have "?x < m" by simp
  moreover have "0 \<le> ?x" by simp
  moreover have "signed_take_bit 63 ?x = ?x"
    using \<open>?x < m\<close> assms(2) \<open>0 \<le> ?x\<close> by (intro signed_take_bit_int_eq_self) linarith+
  ultimately show ?thesis by (simp add: int_of_uint64_def sint_uint)
qed

section \<open>Strings\<close>

definition HasPrefix :: "string \<Rightarrow> string \<Rightarrow> bool" where
  "HasPrefix s p \<longleftrightarrow> take (length p) s = p"

definition HasSuffix :: "string \<Rightarrow> string \<Rightarrow> bool" where
  "HasSuffix s x \<longleftrightarrow> length x \<le> length s \<and> drop (length s - length x) s = x"

definition TrimSuffix :: "string \<Rightarrow> string \<Rightarrow> string" where
  "TrimSuffix s x = (if HasSuffix s x then take (length s - length x) s else s)"

fun strings_Contains :: "string \<Rightarrow> string \<Rightarrow> bool" where
  "strings_Contains [] sub \<longleftrightarrow> sub = []"
| "strings_Contains (c # cs) sub \<longleftrightarrow> HasPrefix (c # cs) sub \<or> strings_Contains cs sub"

text \<open>
  \<open>strings.Split(s, sep)\<close> for a separator that is not empty: the pieces between the
  occurrences of \<open>sep\<close> found from left to right.
\<close>

fun str_cut :: "string \<Rightarrow> string \<Rightarrow> (string \<times> string) option" where
  "str_cut sep [] = None"
| "str_cut sep (c # cs) =
     (if HasPrefix (c # cs) sep then Some ([], drop (length sep) (c # cs))
      else map_option (\<lambda>(a, b). (c # a, b)) (str_cut sep cs))"

lemma str_cut_length: "sep \<noteq> [] \<Longrightarrow> str_cut sep s = Some (a, b) \<Longrightarrow> length b < length s"
proof (induction s arbitrary: a b)
  case Nil
  then show ?case by simp
next
  case (Cons c cs)
  show ?case
  proof (cases "HasPrefix (c # cs) sep")
    case True
    with Cons.prems show ?thesis by (cases sep) auto
  next
    case False
    with Cons.prems obtain a' where "str_cut sep cs = Some (a', b)" by auto
    with Cons show ?thesis by (simp add: less_Suc_eq)
  qed
qed

function strings_Split :: "string \<Rightarrow> string \<Rightarrow> string list" where
  "strings_Split s sep =
     (if sep = [] then map (\<lambda>c. [c]) s
      else case str_cut sep s of None \<Rightarrow> [s] | Some (a, b) \<Rightarrow> a # strings_Split b sep)"
  by pat_completeness auto
termination
  by (relation "measure (\<lambda>(s, sep). length s)") (auto simp: str_cut_length)

declare strings_Split.simps [simp del]

fun lower_char :: "char \<Rightarrow> char" where
  "lower_char c =
     (if 65 \<le> (of_char c :: nat) \<and> (of_char c :: nat) \<le> 90 then char_of ((of_char c :: nat) + 32) else c)"

text \<open>\<open>[]byte(s)\<close> and \<open>string(bs)\<close>.\<close>

definition bytes_of_string :: "string \<Rightarrow> bytes" where
  "bytes_of_string s = map of_char s"

definition string_of_bytes :: "bytes \<Rightarrow> string" where
  "string_of_bytes bs = map (\<lambda>b. char_of (unat b)) bs"

lemma bytes_of_string_of_bytes [simp]: "bytes_of_string (string_of_bytes bs) = bs"
proof -
  have "(of_char (char_of (unat b) :: char) :: 8 word) = b" for b :: "8 word"
  proof -
    have eq: "(of_char (char_of (unat b) :: char) :: nat) = unat b"
      using unsigned_less [of b, where ?'a = nat] by (simp add: take_bit_eq_mod)
    have "(of_char (char_of (unat b) :: char) :: 8 word) = of_nat (of_char (char_of (unat b) :: char))"
      by (simp only: of_nat_of_char)
    also have "\<dots> = b" by (simp only: eq) simp
    finally show ?thesis .
  qed
  then show ?thesis by (simp add: bytes_of_string_def string_of_bytes_def comp_def)
qed

lemma HasPrefix_prefix: "HasPrefix s p \<longleftrightarrow> prefix p s"
  by (auto simp: HasPrefix_def prefix_def) (metis append_take_drop_id)

lemma HasPrefix_append [simp]: "HasPrefix (p @ s) p"
  by (simp add: HasPrefix_def)

lemma HasPrefix_Nil [simp]: "HasPrefix s []"
  by (simp add: HasPrefix_def)

lemma HasSuffix_suffix: "HasSuffix s x \<longleftrightarrow> suffix x s"
proof
  assume "HasSuffix s x"
  then show "suffix x s"
    by (auto simp: HasSuffix_def suffix_def) (metis append_take_drop_id)
next
  assume "suffix x s"
  then show "HasSuffix s x" by (auto simp: HasSuffix_def suffix_def)
qed

lemma TrimSuffix_append [simp]: "TrimSuffix (s @ x) x = s"
  by (simp add: TrimSuffix_def HasSuffix_def)

lemma TrimSuffix_other: "\<not> suffix x s \<Longrightarrow> TrimSuffix s x = s"
  by (simp add: TrimSuffix_def HasSuffix_suffix)

lemma strings_Contains_sublist: "strings_Contains s sub \<longleftrightarrow> sublist sub s"
proof (induction s)
  case Nil
  then show ?case by simp
next
  case (Cons c cs)
  then show ?case by (simp add: HasPrefix_prefix sublist_Cons_right)
qed

lemma strings_Contains_char: "strings_Contains s [c] \<longleftrightarrow> c \<in> set s"
  by (induction s) (auto simp: HasPrefix_def)

section \<open>Lists and maps\<close>

text \<open>The first element with a property, as the \<open>for ... range\<close> loops that return early find it.\<close>

lemma find_Some_set: "find P xs = Some x \<Longrightarrow> x \<in> set xs \<and> P x"
  by (induction xs) (auto split: if_splits)

lemma find_None_set: "find P xs = None \<longleftrightarrow> (\<forall>x \<in> set xs. \<not> P x)"
  by (induction xs) auto

lemma find_filter_hd: "find P xs = (case filter P xs of [] \<Rightarrow> None | x # _ \<Rightarrow> Some x)"
  by (induction xs) auto

text \<open>A Go map is iterated in an order of its own: any list with each key once.\<close>

definition key_order :: "'k list \<Rightarrow> ('k \<rightharpoonup> 'v) \<Rightarrow> bool" where
  "key_order ks m \<longleftrightarrow> distinct ks \<and> set ks = dom m"

lemma key_orderD: "key_order ks m \<Longrightarrow> k \<in> set ks \<longleftrightarrow> m k \<noteq> None"
  by (auto simp: key_order_def)

end
