(* ===== verification/Storage.thy ===== *)
theory Storage
  imports Go_Prelude
begin

text \<open>
  Package \<open>internal/storage\<close>: the entry, the errors, the health status and the interface
  \<open>Backend\<close> that the memory, Redis, HTTP and gRPC backends implement. The interface is the
  locale \<open>kv_backend\<close>: its operations are the methods, its assumptions the contract the
  cache service, the router and the health checker rely on.

  An operation takes the object and the outside world and returns its result, the object
  and the world after it. A Go \<open>error\<close> alone is \<open>go_error option\<close> (\<open>None\<close> is \<open>nil\<close>); a
  value with an error is \<open>go_error + 'a\<close>.
\<close>

section \<open>Errors\<close>

text \<open>
  The sentinels of \<open>storage\<close>, that of \<open>circuit\<close> (a different object with a different
  text), the \<open>Nil\<close> of the Redis client, \<open>*net.OpError\<close>, and what \<open>fmt.Errorf\<close> builds:
  a text, or with \<open>%w\<close> a text and the error it wraps.
\<close>

datatype go_error =
    ErrKeyNotFound
  | ErrVersionMismatch
  | ErrBackendUnhealthy
  | ErrCircuitOpen
  | ErrValueTooLarge
  | CircuitErrCircuitOpen
  | RedisNil
  | NetOpError string
  | ErrorText string
  | ErrorWrap string go_error

fun error_string :: "go_error \<Rightarrow> string" where
  "error_string ErrKeyNotFound = ''key not found''"
| "error_string ErrVersionMismatch = ''version mismatch''"
| "error_string ErrBackendUnhealthy = ''backend unhealthy''"
| "error_string ErrCircuitOpen = ''circuit breaker open''"
| "error_string ErrValueTooLarge = ''value too large''"
| "error_string CircuitErrCircuitOpen = ''circuit breaker is open''"
| "error_string RedisNil = ''redis: nil''"
| "error_string (NetOpError m) = m"
| "error_string (ErrorText m) = m"
| "error_string (ErrorWrap m e) = m @ error_string e"

text \<open>\<open>errors.Is\<close>: the error itself or one it wraps.\<close>

fun errors_Is :: "go_error \<Rightarrow> go_error \<Rightarrow> bool" where
  "errors_Is (ErrorWrap m e) t \<longleftrightarrow> ErrorWrap m e = t \<or> errors_Is e t"
| "errors_Is e t \<longleftrightarrow> e = t"

lemma errors_Is_refl [simp]: "errors_Is e e"
  by (cases e) simp_all

section \<open>Entries and health\<close>

record entry =
  entry_Key :: string
  entry_Value :: bytes
  entry_Version :: u64
  entry_TTL :: duration

record health_status =
  hs_BackendID :: string
  hs_Healthy :: bool
  hs_LastCheck :: instant
  hs_SuccessCount :: int
  hs_FailureCount :: int
  hs_ConsecutiveSuccess :: int
  hs_ConsecutiveFailure :: int

definition value_size :: "entry \<Rightarrow> int" where
  "value_size e = int (length (entry_Value e))"

lemma value_size_nonneg [simp]: "0 \<le> value_size e"
  by (simp add: value_size_def)

section \<open>The interface Backend\<close>

text \<open>What never changes of a backend: \<open>ID\<close>, \<open>Type\<close>, \<open>Name\<close> and \<open>Weight\<close>.\<close>

record identity =
  id_ID :: string
  id_Type :: string
  id_Name :: string
  id_Weight :: int

locale kv_backend =
  fixes bget :: "'b \<Rightarrow> string \<Rightarrow> 'w \<Rightarrow> (go_error + entry) \<times> 'b \<times> 'w"
    and bset :: "'b \<Rightarrow> entry \<Rightarrow> 'w \<Rightarrow> go_error option \<times> 'b \<times> 'w"
    and bdel :: "'b \<Rightarrow> string \<Rightarrow> 'w \<Rightarrow> go_error option \<times> 'b \<times> 'w"
    and bexists :: "'b \<Rightarrow> string \<Rightarrow> 'w \<Rightarrow> (go_error + bool) \<times> 'b \<times> 'w"
    and bping :: "'b \<Rightarrow> 'w \<Rightarrow> go_error option \<times> 'b \<times> 'w"
    and bhealthy :: "'b \<Rightarrow> bool"
    and bset_healthy :: "'b \<Rightarrow> bool \<Rightarrow> 'b"
    and bident :: "'b \<Rightarrow> identity"
  assumes get_down: "\<not> bhealthy b \<Longrightarrow> bget b k w = (Inl ErrBackendUnhealthy, b, w)"
    and set_down: "\<not> bhealthy b \<Longrightarrow> bset b e w = (Some ErrBackendUnhealthy, b, w)"
    and del_down: "\<not> bhealthy b \<Longrightarrow> bdel b k w = (Some ErrBackendUnhealthy, b, w)"
    and exists_down: "\<not> bhealthy b \<Longrightarrow> bexists b k w = (Inl ErrBackendUnhealthy, b, w)"
    and get_frame: "bget b k w = (r, b', w') \<Longrightarrow> bhealthy b' = bhealthy b \<and> bident b' = bident b"
    and set_frame: "bset b e w = (err, b', w') \<Longrightarrow> bhealthy b' = bhealthy b \<and> bident b' = bident b"
    and del_frame: "bdel b k w = (err, b', w') \<Longrightarrow> bhealthy b' = bhealthy b \<and> bident b' = bident b"
    and exists_frame: "bexists b k w = (x, b', w') \<Longrightarrow> bhealthy b' = bhealthy b \<and> bident b' = bident b"
    and get_entry: "bget b k w = (Inr e, b', w') \<Longrightarrow> entry_Key e = k \<and> entry_TTL e = 0"
    and ping_frame: "bping b w = (err, b', w') \<Longrightarrow> bident b' = bident b"
    and ping_health: "bping b w = (err, b', w') \<Longrightarrow> bhealthy b' \<longleftrightarrow> err = None"
    and set_healthy_health: "bhealthy (bset_healthy b h) = h"
    and set_healthy_ident: "bident (bset_healthy b h) = bident b"
begin

lemma found_on_healthy: "bget b k w = (Inr e, b', w') \<Longrightarrow> bhealthy b"
  using get_down by (cases "bhealthy b") auto

lemma stored_on_healthy: "bset b e w = (None, b', w') \<Longrightarrow> bhealthy b"
  using set_down by (cases "bhealthy b") auto

lemma deleted_on_healthy: "bdel b k w = (None, b', w') \<Longrightarrow> bhealthy b"
  using del_down by (cases "bhealthy b") auto

text \<open>A backend taken out answers without touching the world, until it is put back.\<close>

lemma quarantine:
  "bget (bset_healthy b False) k w = (Inl ErrBackendUnhealthy, bset_healthy b False, w)"
  "bset (bset_healthy b False) e w = (Some ErrBackendUnhealthy, bset_healthy b False, w)"
  "bdel (bset_healthy b False) k w = (Some ErrBackendUnhealthy, bset_healthy b False, w)"
  "bexists (bset_healthy b False) k w = (Inl ErrBackendUnhealthy, bset_healthy b False, w)"
  by (simp_all add: get_down set_down del_down exists_down set_healthy_health)

text \<open>The ping is the other way the flag changes: it alone decides the flag.\<close>

lemma ping_overrides_quarantine:
  "bping (bset_healthy b False) w = (None, b', w') \<Longrightarrow> bhealthy b'"
  using ping_health by blast

lemma ping_failure_quarantines:
  assumes "bping b w = (Some err, b', w')"
  shows "bget b' k w'' = (Inl ErrBackendUnhealthy, b', w'')"
  using ping_health [OF assms] by (simp add: get_down)

end

end
