(* ===== verification/Go_Time.thy ===== *)
theory Go_Time
  imports Go_Prelude
begin

text \<open>
  Numbers and durations of the Go standard library that the configuration and the HTTP
  interface read and print: \<open>strconv.Itoa\<close>, \<open>strconv.ParseUint\<close>, \<open>time.ParseDuration\<close> and
  \<open>Duration.Seconds\<close>. The two places where Go computes in \<open>float64\<close> (the fraction of a
  duration, the seconds of one) use rationals rounded to 53 bits, half to even.
  The main lemmas: a printed number parses to itself, and a number of seconds printed with
  its unit parses to that duration.
\<close>

section \<open>Decimal numbers\<close>

definition digit_char :: "nat \<Rightarrow> char" where
  "digit_char d = char_of (48 + d)"

definition is_digit :: "char \<Rightarrow> bool" where
  "is_digit c \<longleftrightarrow> 48 \<le> (of_char c :: nat) \<and> (of_char c :: nat) \<le> 57"

definition digit_val :: "char \<Rightarrow> nat" where
  "digit_val c = of_char c - 48"

fun itoa_nat :: "nat \<Rightarrow> string" where
  "itoa_nat n = (if n < 10 then [digit_char n] else itoa_nat (n div 10) @ [digit_char (n mod 10)])"

declare itoa_nat.simps [simp del]

definition strconv_Itoa :: "int \<Rightarrow> string" where
  "strconv_Itoa i = (if i < 0 then CHR ''-'' # itoa_nat (nat (- i)) else itoa_nat (nat i))"

text \<open>
  \<open>strconv.ParseUint(s, 10, 64)\<close>: the value and whether there is no error. A number out of
  range gives the largest value with its error, a malformed one 0.
\<close>

fun parse_uint_loop :: "string \<Rightarrow> nat \<Rightarrow> u64 \<times> bool" where
  "parse_uint_loop [] n = (of_nat n, True)"
| "parse_uint_loop (c # cs) n =
     (if \<not> is_digit c then (0, False)
      else
        let n1 = n * 10 + digit_val c in
        if 2 ^ 64 \<le> n1 then (of_nat (2 ^ 64 - 1), False) else parse_uint_loop cs n1)"

definition ParseUint :: "string \<Rightarrow> u64 \<times> bool" where
  "ParseUint s = (if s = [] then (0, False) else parse_uint_loop s 0)"

lemma is_digit_char [simp]: "d < 10 \<Longrightarrow> is_digit (digit_char d)"
  by (simp add: is_digit_def digit_char_def)

lemma digit_val_char [simp]: "d < 10 \<Longrightarrow> digit_val (digit_char d) = d"
  by (simp add: digit_val_def digit_char_def)

lemma itoa_nat_digits: "list_all is_digit (itoa_nat n)"
proof (induction n rule: itoa_nat.induct)
  case (1 n)
  then show ?case by (cases "n < 10") (simp_all add: itoa_nat.simps [of n])
qed

lemma itoa_nat_nonempty: "itoa_nat n \<noteq> []"
  by (subst itoa_nat.simps) simp

lemma parse_uint_loop_itoa:
  "n < 2 ^ 64 \<Longrightarrow> parse_uint_loop (itoa_nat n @ r) 0 = parse_uint_loop r n"
proof (induction n arbitrary: r rule: itoa_nat.induct)
  case (1 n)
  show ?case
  proof (cases "n < 10")
    case True
    then show ?thesis by (simp add: itoa_nat.simps [of n])
  next
    case False
    have "n div 10 < 2 ^ 64" using "1.prems" by auto
    with False "1.IH" have "parse_uint_loop (itoa_nat (n div 10) @ digit_char (n mod 10) # r) 0
        = parse_uint_loop (digit_char (n mod 10) # r) (n div 10)" by simp
    also have "\<dots> = parse_uint_loop r n" using "1.prems" by (simp add: Let_def)
    finally show ?thesis using False by (simp add: itoa_nat.simps [of n])
  qed
qed

lemma ParseUint_itoa: "n < 2 ^ 64 \<Longrightarrow> ParseUint (itoa_nat n) = (of_nat n, True)"
  using parse_uint_loop_itoa [of n "[]"] by (simp add: ParseUint_def itoa_nat_nonempty)

section \<open>float64\<close>

text \<open>A non-negative \<open>float64\<close> as a fraction: the value nearest to \<open>a / b\<close> with 53 bits.\<close>

fun ilog2 :: "nat \<Rightarrow> nat" where
  "ilog2 n = (if n \<le> 1 then 0 else Suc (ilog2 (n div 2)))"

declare ilog2.simps [simp del]

definition round_half_even :: "nat \<Rightarrow> nat \<Rightarrow> nat" where
  "round_half_even a b =
     (let q = a div b; r = a mod b
      in if 2 * r < b \<or> (2 * r = b \<and> even q) then q else q + 1)"

definition fl_ratio :: "nat \<Rightarrow> nat \<Rightarrow> nat \<times> nat" where
  "fl_ratio a b =
     (if a = 0 then (0, 1)
      else
        let e0 = int (ilog2 a) - int (ilog2 b);
            e = (if b * 2 ^ nat e0 \<le> a * 2 ^ nat (- e0) then e0 else e0 - 1);
            s = 52 - e;
            m = round_half_even (a * 2 ^ nat s) (b * 2 ^ nat (- s))
        in (m * 2 ^ nat (- s), 2 ^ nat s))"

definition fl_mul :: "nat \<times> nat \<Rightarrow> nat \<times> nat \<Rightarrow> nat \<times> nat" where
  "fl_mul x y = fl_ratio (fst x * fst y) (snd x * snd y)"

definition fl_div :: "nat \<times> nat \<Rightarrow> nat \<times> nat \<Rightarrow> nat \<times> nat" where
  "fl_div x y = fl_ratio (fst x * snd y) (snd x * fst y)"

definition fl_add :: "nat \<times> nat \<Rightarrow> nat \<times> nat \<Rightarrow> nat \<times> nat" where
  "fl_add x y = fl_ratio (fst x * snd y + fst y * snd x) (snd x * snd y)"

definition fl_trunc :: "nat \<times> nat \<Rightarrow> nat" where
  "fl_trunc x = fst x div snd x"

lemma ilog2_le: "0 < n \<Longrightarrow> 2 ^ ilog2 n \<le> n"
proof (induction n rule: ilog2.induct)
  case (1 n)
  show ?case
  proof (cases "n \<le> 1")
    case True
    with "1.prems" show ?thesis by (simp add: ilog2.simps [of n])
  next
    case False
    then have "2 ^ ilog2 (n div 2) \<le> n div 2" using "1.IH" by simp
    then show ?thesis using False by (simp add: ilog2.simps [of n])
  qed
qed

lemma fl_ratio_exact: "a < 2 ^ 53 \<Longrightarrow> fst (fl_ratio a 1) = a * snd (fl_ratio a 1) \<and> 0 < snd (fl_ratio a 1)"
proof (cases "a = 0")
  case True
  then show ?thesis by (simp add: fl_ratio_def)
next
  case False
  assume a: "a < 2 ^ 53"
  let ?e = "ilog2 a"
  have le: "2 ^ ?e \<le> a" using ilog2_le False by simp
  then have "(2 :: nat) ^ ?e < 2 ^ 53" using a by linarith
  then have "?e < 53" using power_less_imp_less_exp [of 2 ?e 53] by simp
  then have e: "?e \<le> 52" by simp
  have "ilog2 1 = 0" by (simp add: ilog2.simps)
  with False le e show ?thesis
    by (simp add: fl_ratio_def Let_def round_half_even_def)
qed

section \<open>Durations\<close>

abbreviation (input) Nanosecond :: duration where "Nanosecond \<equiv> 1"
abbreviation (input) Millisecond :: duration where "Millisecond \<equiv> 1000000"
abbreviation (input) Second :: duration where "Second \<equiv> 1000000000"
abbreviation (input) Minute :: duration where "Minute \<equiv> 60000000000"

text \<open>The unit names; the micro sign is U+00B5 or U+03BC, two bytes of UTF-8 each.\<close>

definition unitMap :: "string \<Rightarrow> nat option" where
  "unitMap u =
     (if u = ''ns'' then Some 1
      else if u = ''us'' then Some 1000
      else if u = [CHR 0xC2, CHR 0xB5, CHR ''s''] then Some 1000
      else if u = [CHR 0xCE, CHR 0xBC, CHR ''s''] then Some 1000
      else if u = ''ms'' then Some 1000000
      else if u = ''s'' then Some 1000000000
      else if u = ''m'' then Some 60000000000
      else if u = ''h'' then Some 3600000000000
      else None)"

fun leadingInt :: "nat \<Rightarrow> string \<Rightarrow> (nat \<times> string) option" where
  "leadingInt x [] = Some (x, [])"
| "leadingInt x (c # cs) =
     (if \<not> is_digit c then Some (x, c # cs)
      else if 2 ^ 63 div 10 < x then None
      else
        let x1 = x * 10 + digit_val c in
        if 2 ^ 63 < x1 then None else leadingInt x1 cs)"

fun leadingFraction :: "bool \<Rightarrow> nat \<Rightarrow> nat \<Rightarrow> string \<Rightarrow> nat \<times> nat \<times> string" where
  "leadingFraction overflow x scale [] = (x, scale, [])"
| "leadingFraction overflow x scale (c # cs) =
     (if \<not> is_digit c then (x, scale, c # cs)
      else if overflow then leadingFraction True x scale cs
      else if (2 ^ 63 - 1) div 10 < x then leadingFraction True x scale cs
      else
        let y = x * 10 + digit_val c in
        if 2 ^ 63 < y then leadingFraction True x scale cs
        else leadingFraction False y (scale * 10) cs)"

lemma leadingInt_length: "leadingInt x s = Some (v, r) \<Longrightarrow> length r \<le> length s"
  by (induction x s rule: leadingInt.induct) (auto simp: Let_def split: if_splits)

lemma leadingFraction_length: "leadingFraction b x sc s = (f, sc', r) \<Longrightarrow> length r \<le> length s"
  by (induction b x sc s rule: leadingFraction.induct) (auto simp: Let_def split: if_splits)

definition unit_end :: "char \<Rightarrow> bool" where
  "unit_end c \<longleftrightarrow> c = CHR ''.'' \<or> is_digit c"

text \<open>One element of a duration, \<open>[0-9]*(\.[0-9]*)?[a-z]+\<close>: its nanoseconds and the rest.\<close>

definition duration_element :: "string \<Rightarrow> (nat \<times> string) option" where
  "duration_element s =
     (if \<not> unit_end (hd s) then None
      else
        (case leadingInt 0 s of
           None \<Rightarrow> None
         | Some (v, s1) \<Rightarrow>
             (let pre = (length s1 \<noteq> length s);
                  (f, scale, s2, post) =
                    (if s1 \<noteq> [] \<and> hd s1 = CHR ''.'' then
                       (let (f, scale, r) = leadingFraction False 0 1 (tl s1)
                        in (f, scale, r, length r \<noteq> length (tl s1)))
                     else (0, 1, s1, False));
                  u = takeWhile (\<lambda>c. \<not> unit_end c) s2;
                  s3 = dropWhile (\<lambda>c. \<not> unit_end c) s2
              in
                if (\<not> pre \<and> \<not> post) \<or> u = [] then None
                else
                  (case unitMap u of
                     None \<Rightarrow> None
                   | Some ns \<Rightarrow>
                       if 2 ^ 63 div ns < v then None
                       else if f = 0 then Some (v * ns, s3)
                       else
                         (let v1 = v * ns + fl_trunc (fl_mul (fl_ratio f 1)
                                                        (fl_div (fl_ratio ns 1) (fl_ratio scale 1)))
                          in if 2 ^ 63 < v1 then None else Some (v1, s3))))))"

lemma duration_element_shorter:
  assumes "duration_element s = Some (v, r)" "s \<noteq> []"
  shows "length r < length s"
proof -
  obtain v1 s1 where s1: "leadingInt 0 s = Some (v1, s1)"
    using assms by (auto simp: duration_element_def split: if_splits option.splits)
  have l1: "length s1 \<le> length s" by (rule leadingInt_length [OF s1])
  have strict: "length (dropWhile (\<lambda>c. \<not> unit_end c) t) < length t"
    if "takeWhile (\<lambda>c. \<not> unit_end c) t \<noteq> []" for t
    using that by (metis length_append length_greater_0_conv less_add_same_cancel2 takeWhile_dropWhile_id)
  show ?thesis
  proof (cases "s1 \<noteq> [] \<and> hd s1 = CHR ''.''")
    case False
    with assms s1 have "takeWhile (\<lambda>c. \<not> unit_end c) s1 \<noteq> []" "r = dropWhile (\<lambda>c. \<not> unit_end c) s1"
      by (auto simp: duration_element_def Let_def split: if_splits option.splits)
    with strict l1 show ?thesis by fastforce
  next
    case True
    obtain f sc s2 where s2: "leadingFraction False 0 1 (tl s1) = (f, sc, s2)" by (metis prod_cases3)
    then have "length s2 \<le> length (tl s1)" by (rule leadingFraction_length)
    also have "\<dots> \<le> length s1" by simp
    finally have l2: "length s2 \<le> length s" using l1 by simp
    from assms s1 s2 True have "takeWhile (\<lambda>c. \<not> unit_end c) s2 \<noteq> []" "r = dropWhile (\<lambda>c. \<not> unit_end c) s2"
      by (auto simp: duration_element_def Let_def split: if_splits option.splits)
    with strict l2 show ?thesis by fastforce
  qed
qed

text \<open>The sum of the elements, a \<open>uint64\<close> that wraps.\<close>

function duration_sum :: "string \<Rightarrow> nat \<Rightarrow> nat option" where
  "duration_sum s d =
     (if s = [] then Some d
      else
        case duration_element s of
          None \<Rightarrow> None
        | Some (v, r) \<Rightarrow>
            let d1 = (d + v) mod 2 ^ 64 in
            if 2 ^ 63 < d1 then None else duration_sum r d1)"
  by pat_completeness auto
termination
  by (relation "measure (\<lambda>(s, d). length s)") (auto dest: duration_element_shorter)

declare duration_sum.simps [simp del]

definition time_ParseDuration :: "string \<Rightarrow> duration option" where
  "time_ParseDuration s0 =
     (let signed = (s0 \<noteq> [] \<and> (hd s0 = CHR ''-'' \<or> hd s0 = CHR ''+''));
          neg = (signed \<and> hd s0 = CHR ''-'');
          s = (if signed then tl s0 else s0)
      in if s = ''0'' then Some 0
         else if s = [] then None
         else
           case duration_sum s 0 of
             None \<Rightarrow> None
           | Some d \<Rightarrow>
               if neg then Some (- int d)
               else if 2 ^ 63 - 1 < d then None
               else Some (int d))"

text \<open>\<open>int64(d.Seconds())\<close>, the same for both signs.\<close>

definition whole_seconds :: "duration \<Rightarrow> int" where
  "whole_seconds d =
     (let n = nat \<bar>d\<bar>;
          secs = fl_add (fl_ratio (n div 1000000000) 1) (fl_div (fl_ratio (n mod 1000000000) 1) (fl_ratio 1000000000 1))
      in sgn d * int (fl_trunc secs))"

text \<open>A number printed in front of other text is read back.\<close>

lemma leadingInt_itoa: "n < 2 ^ 63 \<Longrightarrow> leadingInt 0 (itoa_nat n @ r) = leadingInt n r"
proof (induction n arbitrary: r rule: itoa_nat.induct)
  case (1 n)
  show ?case
  proof (cases "n < 10")
    case True
    then show ?thesis by (simp add: itoa_nat.simps [of n])
  next
    case False
    have "n div 10 < 2 ^ 63" using "1.prems" by auto
    with False "1.IH" have "leadingInt 0 (itoa_nat (n div 10) @ digit_char (n mod 10) # r)
        = leadingInt (n div 10) (digit_char (n mod 10) # r)" by simp
    also have "\<dots> = leadingInt n r"
    proof -
      have "n div 10 \<le> 2 ^ 63 div 10" using "1.prems" by (intro div_le_mono) simp
      with "1.prems" show ?thesis by (simp add: Let_def)
    qed
    finally show ?thesis using False by (simp add: itoa_nat.simps [of n])
  qed
qed

lemma hd_itoa_digit: "is_digit (hd (itoa_nat n @ r))"
  using itoa_nat_digits [of n] itoa_nat_nonempty [of n] by (cases "itoa_nat n") auto

lemma duration_element_seconds:
  assumes "n * 1000000000 < 2 ^ 63"
  shows "duration_element (itoa_nat n @ ''s'') = Some (n * 1000000000, [])"
proof -
  have n: "n < 2 ^ 63" "n \<le> 2 ^ 63 div 1000000000" using assms by auto
  have "leadingInt 0 (itoa_nat n @ ''s'') = Some (n, ''s'')"
    using leadingInt_itoa [OF n(1), of "''s''"] by (simp add: is_digit_def)
  moreover have "unit_end (hd (itoa_nat n @ ''s''))" using hd_itoa_digit by (simp add: unit_end_def)
  ultimately show ?thesis using n itoa_nat_nonempty [of n]
    by (simp add: duration_element_def Let_def unit_end_def is_digit_def unitMap_def)
qed

lemma ParseDuration_seconds:
  assumes "n * 1000000000 < 2 ^ 63"
  shows "time_ParseDuration (itoa_nat n @ ''s'') = Some (int n * Second)"
proof -
  let ?s = "itoa_nat n @ ''s''"
  have d: "is_digit (hd ?s)" by (rule hd_itoa_digit)
  have "duration_sum ?s 0 = Some (n * 1000000000)"
    using assms by (simp add: duration_sum.simps [of ?s] duration_element_seconds duration_sum.simps [of "[]"] Let_def)
  moreover have "hd ?s \<noteq> CHR ''-''" "hd ?s \<noteq> CHR ''+''" using d by (auto simp: is_digit_def)
  moreover have "?s \<noteq> ''0''" using itoa_nat_nonempty [of n] by (cases "itoa_nat n") auto
  ultimately show ?thesis using assms by (simp add: time_ParseDuration_def Let_def)
qed

lemma whole_seconds_exact:
  assumes "0 \<le> n" "n < 2 ^ 53"
  shows "whole_seconds (n * Second) = n"
proof (cases "n = 0")
  case True
  then show ?thesis by (simp add: whole_seconds_def)
next
  case False
  define a where "a = nat n"
  have a: "n = int a" "0 < a" "a < 2 ^ 53" using assms False by (auto simp: a_def)
  let ?x = "fl_ratio a 1"
  have x: "fst ?x = a * snd ?x" "0 < snd ?x" using fl_ratio_exact [OF a(3)] by auto
  note x = this this [unfolded One_nat_def]
  have zero: "fl_div (fl_ratio 0 1) y = (0, 1)" for y
    by (simp add: fl_div_def fl_ratio_def)
  have "fl_add ?x (0, 1) = fl_ratio (a * snd ?x) (snd ?x)" by (simp add: fl_add_def x)
  moreover have "fl_trunc (fl_ratio (a * k) k) = a" if "k = snd ?x" for k
  proof -
    have "\<exists>e. k = 2 ^ e"
      using that a(2) by (auto simp: fl_ratio_def Let_def intro: exI [of _ 0])
    then obtain e where k: "k = 2 ^ e" by blast
    have lm: "ilog2 (m * 2 ^ e) = ilog2 m + e" if "0 < m" for m
    proof (induction e)
      case (Suc e)
      have "(2 :: nat) \<le> m * 2 ^ Suc e" using mult_le_mono [of 1 m 2 "2 ^ Suc e"] that by simp
      then have "\<not> m * 2 ^ Suc e \<le> 1" by linarith
      then have "ilog2 (m * 2 ^ Suc e) = Suc (ilog2 (m * 2 ^ Suc e div 2))"
        by (subst ilog2.simps) (simp only: if_False)
      with Suc show ?case by simp
    qed simp
    have le: "2 ^ ilog2 a \<le> a" using ilog2_le a(2) by simp
    then have "(2 :: nat) ^ ilog2 a < 2 ^ 53" using a(3) by linarith
    then have "ilog2 a < 53" using power_less_imp_less_exp [of 2 "ilog2 a" 53] by simp
    then have bound: "ilog2 a \<le> 52" by simp
    have le': "2 ^ e * 2 ^ ilog2 a \<le> a * (2 ^ e :: nat)" using le by (simp add: mult.commute)
    have ipow: "ilog2 (2 ^ e) = e" using lm [of 1] by (simp add: ilog2.simps)
    have "(a * 2 ^ e * 2 ^ (52 - ilog2 a)) = (a * 2 ^ (52 - ilog2 a)) * 2 ^ e" by simp
    then show ?thesis using a(2) bound le' lm [OF a(2)]
      by (simp add: k fl_ratio_def ipow Let_def round_half_even_def fl_trunc_def)
  qed
  ultimately show ?thesis using a zero
    by (simp add: whole_seconds_def Let_def nat_mult_distrib sgn_mult)
qed

end
