(* ===== verification/Metrics.thy ===== *)
theory Metrics
  imports Complex_Main Go_Time
begin

text \<open>
  Package \<open>internal/metrics\<close>. A labelled counter or gauge is a function from its labels, 0
  where the Prometheus client has no series yet; a histogram is the list of its
  observations, the latest first. Registration and the help texts are left out: they have
  no effect on what is counted. A counter is a \<open>nat\<close> (a \<open>float64\<close> counts exactly up to
  \<open>2 ^ 53\<close>).
\<close>

section \<open>State\<close>

record metrics =
  m_requests :: "string \<times> string \<times> string \<Rightarrow> nat"
  m_latency :: "string \<times> string \<Rightarrow> duration list"
  m_hits :: "string \<Rightarrow> nat"
  m_misses :: "string \<Rightarrow> nat"
  m_evictions :: "string \<Rightarrow> nat"
  m_errors :: "string \<times> string \<times> string \<Rightarrow> nat"
  m_backend_status :: "string \<Rightarrow> int option"
  m_circuit_state :: "string \<Rightarrow> int option"
  m_eviction_gauge :: "string \<Rightarrow> int"
  m_value_size :: "string \<times> string \<Rightarrow> int list"

definition initMetrics :: metrics where
  "initMetrics =
     \<lparr>m_requests = \<lambda>_. 0, m_latency = \<lambda>_. [], m_hits = \<lambda>_. 0, m_misses = \<lambda>_. 0,
      m_evictions = \<lambda>_. 0, m_errors = \<lambda>_. 0, m_backend_status = \<lambda>_. None,
      m_circuit_state = \<lambda>_. None, m_eviction_gauge = \<lambda>_. 0, m_value_size = \<lambda>_. []\<rparr>"

text \<open>\<open>New\<close> under \<open>once\<close>: the instance is made by the first call; \<open>Get\<close> reads it.\<close>

definition Metrics_New :: "metrics option \<Rightarrow> metrics \<times> metrics option" where
  "Metrics_New inst = (case inst of Some m \<Rightarrow> (m, inst) | None \<Rightarrow> (initMetrics, Some initMetrics))"

definition Metrics_Get :: "metrics option \<Rightarrow> metrics option" where
  "Metrics_Get inst = inst"

lemma Metrics_New_once:
  "Metrics_New i = (m, i') \<Longrightarrow> Metrics_New i' = (m, i') \<and> Metrics_Get i' = Some m"
  by (auto simp: Metrics_New_def Metrics_Get_def split: option.splits)

section \<open>Recording\<close>

definition bump :: "('k \<Rightarrow> nat) \<Rightarrow> 'k \<Rightarrow> ('k \<Rightarrow> nat)" where
  "bump c k = c(k := c k + 1)"

definition RecordRequest :: "string \<Rightarrow> string \<Rightarrow> string \<Rightarrow> metrics \<Rightarrow> metrics" where
  "RecordRequest backend op status m = m\<lparr>m_requests := bump (m_requests m) (backend, op, status)\<rparr>"

definition RecordLatency :: "string \<Rightarrow> string \<Rightarrow> duration \<Rightarrow> metrics \<Rightarrow> metrics" where
  "RecordLatency backend op d m =
     m\<lparr>m_latency := (m_latency m)((backend, op) := d # m_latency m (backend, op))\<rparr>"

definition RecordHit :: "string \<Rightarrow> metrics \<Rightarrow> metrics" where
  "RecordHit backend m = m\<lparr>m_hits := bump (m_hits m) backend\<rparr>"

definition RecordMiss :: "string \<Rightarrow> metrics \<Rightarrow> metrics" where
  "RecordMiss backend m = m\<lparr>m_misses := bump (m_misses m) backend\<rparr>"

definition RecordEviction :: "string \<Rightarrow> metrics \<Rightarrow> metrics" where
  "RecordEviction backend m =
     m\<lparr>m_evictions := bump (m_evictions m) backend,
       m_eviction_gauge := (m_eviction_gauge m)(backend := m_eviction_gauge m backend + 1)\<rparr>"

definition RecordRecovery :: "string \<Rightarrow> metrics \<Rightarrow> metrics" where
  "RecordRecovery backend m =
     m\<lparr>m_eviction_gauge := (m_eviction_gauge m)(backend := m_eviction_gauge m backend - 1)\<rparr>"

definition RecordError :: "string \<Rightarrow> string \<Rightarrow> int \<Rightarrow> metrics \<Rightarrow> metrics" where
  "RecordError backend op code m =
     m\<lparr>m_errors := bump (m_errors m) (backend, op, strconv_Itoa code)\<rparr>"

definition SetBackendStatus :: "string \<Rightarrow> bool \<Rightarrow> metrics \<Rightarrow> metrics" where
  "SetBackendStatus backend healthy m =
     m\<lparr>m_backend_status := (m_backend_status m)(backend \<mapsto> (if healthy then 1 else 0))\<rparr>"

definition SetCircuitBreakerState :: "string \<Rightarrow> int \<Rightarrow> metrics \<Rightarrow> metrics" where
  "SetCircuitBreakerState backend st m =
     m\<lparr>m_circuit_state := (m_circuit_state m)(backend \<mapsto> st)\<rparr>"

definition RecordValueSize :: "string \<Rightarrow> string \<Rightarrow> int \<Rightarrow> metrics \<Rightarrow> metrics" where
  "RecordValueSize backend op n m =
     m\<lparr>m_value_size := (m_value_size m)((backend, op) := n # m_value_size m (backend, op))\<rparr>"

lemmas record_defs =
  RecordRequest_def RecordLatency_def RecordHit_def RecordMiss_def RecordEviction_def
  RecordRecovery_def RecordError_def SetBackendStatus_def SetCircuitBreakerState_def
  RecordValueSize_def bump_def

text \<open>\<open>if c.metrics != nil { ... }\<close>\<close>

definition observe :: "(metrics \<Rightarrow> metrics) \<Rightarrow> metrics option \<Rightarrow> metrics option" where
  "observe f m = map_option f m"

lemma observe_simps [simp]: "observe f None = None" "observe f (Some m) = Some (f m)"
  by (simp_all add: observe_def)

section \<open>The hit rate\<close>

text \<open>
  \<open>getCounterValue\<close> is a stub in the source: it does not read the counter it is given.
\<close>

definition getCounterValue :: "nat \<Rightarrow> rat" where
  "getCounterValue metric = 0"

definition GetHitRate :: "metrics \<Rightarrow> string \<Rightarrow> rat" where
  "GetHitRate m backend =
     (let hitCount = getCounterValue (m_hits m backend);
          missCount = getCounterValue (m_misses m backend);
          total = hitCount + missCount
      in if total = 0 then 0 else hitCount / total)"

lemma GetHitRate_zero: "GetHitRate m backend = 0"
  by (simp add: GetHitRate_def getCounterValue_def)

end
