(* ===== verification/Externals.thy ===== *)
theory Externals
  imports Storage Metrics
begin

text \<open>
  The code the program calls and does not contain: the clock, the random source, the
  ristretto cache, the Redis client, the fasthttp client, the gRPC connection, the TCP
  dialer, the xxhash function. They are the fields of a record \<open>'w env\<close> of functions on an
  abstract world \<open>'w\<close>, an argument of every definition that calls them; a call returns the
  world after it, so time, remote data and scheduling may change with every call. Nothing
  is assumed of them here: a property that needs their documented behaviour states it.
\<close>

section \<open>What the clients exchange\<close>

text \<open>A value of type \<open>interface{}\<close> in the cache: bytes, or something else.\<close>

datatype any_value = AnyBytes bytes | AnyOther string

datatype redis_cmd =
    RedisGet string
  | RedisSet string bytes duration
  | RedisIncr string
  | RedisExpire string duration
  | RedisDel string
  | RedisExists string
  | RedisPing
  | RedisPublish string string

text \<open>A reply, as the command's accessors read it: bytes (or text), a number, no value, an error.\<close>

datatype redis_reply = ReplyBytes bytes | ReplyInt int | ReplyNil | ReplyErr go_error

record http_request =
  hq_Method :: string
  hq_URI :: string
  hq_ContentType :: string
  hq_Headers :: "(string \<times> string) list"
  hq_Body :: string

record http_response =
  hp_Status :: int
  hp_Body :: string

text \<open>
  A member of a JSON object as \<open>encoding/json\<close> decodes it into \<open>interface{}\<close>: text, a number
  (the integer part of its \<open>float64\<close>), or something else.
\<close>

datatype json_value = JsonString string | JsonNumber int | JsonOther

record grpc_get_response =
  gg_Value :: bytes
  gg_Version :: u64
  gg_Found :: bool

record grpc_set_request =
  gs_Key :: string
  gs_Value :: bytes
  gs_Ttl :: duration

section \<open>The environment\<close>

text \<open>
  \<open>env_redis\<close> runs the commands of one call (a pipeline or a single command) and returns
  the error of the call and the replies; \<open>env_iter\<close> gives the order in which one \<open>range\<close> over a
  map meets its keys, which Go leaves open; \<open>env_json_object\<close> decodes a text into a map, \<open>None\<close>
  for an error. The number is the handle of the client, the cache
  or the connection the object holds. A gRPC call is named by its path, and there is one field for each
  type of reply.
\<close>

record 'w env =
  env_now :: "'w \<Rightarrow> instant \<times> 'w"
  env_iter :: "string list \<Rightarrow> 'w \<Rightarrow> string list \<times> 'w"
  env_Intn :: "int \<Rightarrow> 'w \<Rightarrow> int \<times> 'w"
  env_xxhash :: "string \<Rightarrow> u64"
  env_cache_get :: "nat \<Rightarrow> string \<Rightarrow> 'w \<Rightarrow> any_value option \<times> 'w"
  env_cache_set :: "nat \<Rightarrow> string \<Rightarrow> any_value \<Rightarrow> int \<Rightarrow> duration \<Rightarrow> 'w \<Rightarrow> bool \<times> 'w"
  env_cache_del :: "nat \<Rightarrow> string \<Rightarrow> 'w \<Rightarrow> 'w"
  env_cache_close :: "nat \<Rightarrow> 'w \<Rightarrow> 'w"
  env_redis :: "nat \<Rightarrow> redis_cmd list \<Rightarrow> 'w \<Rightarrow> (go_error option \<times> redis_reply list) \<times> 'w"
  env_http :: "nat \<Rightarrow> http_request \<Rightarrow> duration \<Rightarrow> 'w \<Rightarrow> (go_error + http_response) \<times> 'w"
  env_json_object :: "string \<Rightarrow> (string \<Rightarrow> json_value option) option"
  env_ctx_done :: "'w \<Rightarrow> bool \<times> 'w"
  env_grpc_get :: "nat \<Rightarrow> string \<Rightarrow> string \<Rightarrow> 'w \<Rightarrow> (go_error + grpc_get_response) \<times> 'w"
  env_grpc_set :: "nat \<Rightarrow> string \<Rightarrow> grpc_set_request \<Rightarrow> 'w \<Rightarrow> (go_error + bool) \<times> 'w"
  env_grpc_delete :: "nat \<Rightarrow> string \<Rightarrow> string \<Rightarrow> 'w \<Rightarrow> (go_error + bool) \<times> 'w"
  env_grpc_exists :: "nat \<Rightarrow> string \<Rightarrow> string \<Rightarrow> 'w \<Rightarrow> (go_error + bool) \<times> 'w"
  env_grpc_ping :: "nat \<Rightarrow> string \<Rightarrow> 'w \<Rightarrow> (go_error + bool) \<times> 'w"
  env_dial :: "string \<Rightarrow> duration \<Rightarrow> 'w \<Rightarrow> go_error option \<times> 'w"
  env_close :: "nat \<Rightarrow> 'w \<Rightarrow> go_error option \<times> 'w"

section \<open>The context of a call\<close>

text \<open>The world and the metrics object (\<open>nil\<close> when metrics are off), extended by each component.\<close>

record 'w ctx =
  world :: 'w
  mtr :: "metrics option"

definition record_metric :: "(metrics \<Rightarrow> metrics) \<Rightarrow> ('w, 'z) ctx_scheme \<Rightarrow> ('w, 'z) ctx_scheme" where
  "record_metric f c = c\<lparr>mtr := observe f (mtr c)\<rparr>"

definition time_Now :: "'w env \<Rightarrow> ('w, 'z) ctx_scheme \<Rightarrow> instant \<times> ('w, 'z) ctx_scheme" where
  "time_Now E c = (let (t, w) = env_now E (world c) in (t, c\<lparr>world := w\<rparr>))"

text \<open>\<open>time.Since\<close>: a \<open>Duration\<close> holds 64 bits, and \<open>Sub\<close> answers its bound where the difference leaves them.\<close>

definition clamp64 :: "int \<Rightarrow> int" where
  "clamp64 d = max (- (2 ^ 63)) (min (2 ^ 63 - 1) d)"

definition time_Since :: "'w env \<Rightarrow> instant \<Rightarrow> ('w, 'z) ctx_scheme \<Rightarrow> duration \<times> ('w, 'z) ctx_scheme" where
  "time_Since E t0 c = (let (t, c') = time_Now E c in (clamp64 (t - t0), c'))"

lemma record_metric_frame [simp]:
  "world (record_metric f c) = world c" "mtr (record_metric f c) = observe f (mtr c)"
  "ctx.more (record_metric f c) = ctx.more c"
  by (simp_all add: record_metric_def)

lemma time_Now_frame [frame]:
  "time_Now E c = (t, c') \<Longrightarrow> mtr c' = mtr c \<and> ctx.more c' = ctx.more c"
  by (auto simp: time_Now_def split: prod.splits)

lemma time_Since_frame [frame]:
  "time_Since E t0 c = (d, c') \<Longrightarrow> mtr c' = mtr c \<and> ctx.more c' = ctx.more c"
  by (auto simp: time_Since_def dest: time_Now_frame split: prod.splits)

end
