(* ===== verification/Config.thy ===== *)
theory Config
  imports Go_Time Storage
begin

text \<open>
  Package \<open>internal/config\<close>: the configuration records, the lookups over the configured
  backends, \<open>ParseDuration\<close>, and the process-wide instance with its \<open>sync.Once\<close> and its
  hot reload. The names of the enumerations are strings in Go; a name the code does not
  know is kept (\<open>*_other\<close>). Reading and decoding the YAML file is viper's: two functions,
  \<open>ReadInConfig\<close> and \<open>Unmarshal\<close>, are a parameter; what the code sets up for them is modelled.
\<close>

section \<open>Enumerations\<close>

datatype BackendType =
  BackendTypeMemory | BackendTypeRedis | BackendTypeHTTP | BackendTypeGRPC | BackendType_other string

datatype RoutingStrategy =
  RoutingStrategyExact | RoutingStrategyWildcard | RoutingStrategyHash
| RoutingStrategyBlacklist | RoutingStrategyWhitelist | RoutingStrategy_other string

datatype ReadWriteMode =
  ReadWriteModeEmpty | ReadWriteModeCacheAside | ReadWriteModeWriteThrough | ReadWriteModeWriteBehind
| ReadWriteMode_other string

datatype HealthCheckType = HealthCheckTypeEmpty | HealthCheckTypeTCP | HealthCheckTypePing | HealthCheckType_other string

datatype PubSubType = PubSubTypeRedis | PubSubTypeNATS | PubSubType_other string

fun BackendType_string :: "BackendType \<Rightarrow> string" where
  "BackendType_string BackendTypeMemory = ''memory''"
| "BackendType_string BackendTypeRedis = ''redis''"
| "BackendType_string BackendTypeHTTP = ''http''"
| "BackendType_string BackendTypeGRPC = ''grpc''"
| "BackendType_string (BackendType_other s) = s"

text \<open>The conversion \<open>config.ReadWriteMode(s)\<close>.\<close>

definition ReadWriteMode_of_string :: "string \<Rightarrow> ReadWriteMode" where
  "ReadWriteMode_of_string s =
     (if s = '''' then ReadWriteModeEmpty
      else if s = ''cache-aside'' then ReadWriteModeCacheAside
      else if s = ''write-through'' then ReadWriteModeWriteThrough
      else if s = ''write-behind'' then ReadWriteModeWriteBehind
      else ReadWriteMode_other s)"

section \<open>Records\<close>

record GossipConfig =
  gc_Enabled :: bool
  gc_BindAddr :: string
  gc_BindPort :: int
  gc_SeedNodes :: "string list"
  gc_ProbeInterval :: string
  gc_ProbeTimeout :: string

record PubSubConfig =
  pc_Enabled :: bool
  pc_Type :: PubSubType
  pc_RedisURL :: string
  pc_NATSURL :: string
  pc_Channel :: string

record CircuitBreakerConfig =
  cbc_Enabled :: bool
  cbc_FailureThreshold :: int
  cbc_SuccessThreshold :: int
  cbc_Timeout :: string
  cbc_HalfOpenMaxCalls :: int

record HealthCheckConfig =
  hcc_Enabled :: bool
  hcc_Type :: HealthCheckType
  hcc_Interval :: string
  hcc_Timeout :: string
  hcc_FailureThreshold :: int
  hcc_SuccessThreshold :: int

record MemoryBackendConfig =
  mbc_MaxCost :: int
  mbc_NumCounters :: int
  mbc_BufferItems :: int
  mbc_DefaultTTL :: string

record RedisBackendConfig =
  rbc_Addr :: string
  rbc_Password :: string
  rbc_DB :: int
  rbc_PoolSize :: int
  rbc_MinIdleConns :: int
  rbc_DialTimeout :: string
  rbc_ReadTimeout :: string
  rbc_WriteTimeout :: string

record HTTPBackendConfig =
  hbc_BaseURL :: string
  hbc_Headers :: "(string \<times> string) list"
  hbc_Timeout :: string
  hbc_MaxConns :: int
  hbc_KeyParam :: string
  hbc_ValueParam :: string
  hbc_TTLParam :: string

record GRPCBackendConfig =
  gbc_Addr :: string
  gbc_Timeout :: string
  gbc_MaxMsgSize :: int
  gbc_UseTLS :: bool
  gbc_CertFile :: string

record RoutingRule =
  rr_Strategy :: RoutingStrategy
  rr_Pattern :: string
  rr_BackendID :: string
  rr_Priority :: int
  rr_HashMod :: int
  rr_HashRemainder :: int

record BackendConfig =
  bc_ID :: string
  bc_Type :: BackendType
  bc_Name :: string
  bc_Weight :: int
  bc_Group :: string
  bc_Memory :: "MemoryBackendConfig option"
  bc_Redis :: "RedisBackendConfig option"
  bc_HTTP :: "HTTPBackendConfig option"
  bc_GRPC :: "GRPCBackendConfig option"
  bc_HealthCheck :: "HealthCheckConfig option"
  bc_CircuitBreaker :: "CircuitBreakerConfig option"

record CacheConfig =
  cc_DefaultMode :: ReadWriteMode
  cc_DefaultTTL :: string
  cc_MaxValueSize :: int
  cc_EnableVersioning :: bool

record MetricsConfig =
  mc_Enabled :: bool
  mc_Path :: string

record ServerConfig =
  sc_Host :: string
  sc_Port :: int
  sc_ReadTimeout :: string
  sc_WriteTimeout :: string
  sc_IdleTimeout :: string

record AppConfig =
  ac_Server :: ServerConfig
  ac_Cache :: CacheConfig
  ac_Metrics :: MetricsConfig
  ac_Backends :: "BackendConfig list"
  ac_Routing :: "RoutingRule list"
  ac_PubSub :: PubSubConfig
  ac_Gossip :: GossipConfig
  ac_LogLevel :: string
  ac_LogFormat :: string

section \<open>Lookups\<close>

definition AppConfig_GetBackendByID :: "AppConfig \<Rightarrow> string \<Rightarrow> BackendConfig option" where
  "AppConfig_GetBackendByID c i = find (\<lambda>b. bc_ID b = i) (ac_Backends c)"

definition GetBackendsByGroup :: "AppConfig \<Rightarrow> string \<Rightarrow> BackendConfig list" where
  "GetBackendsByGroup c g = filter (\<lambda>b. bc_Group b = g) (ac_Backends c)"

definition GetBackendsByType :: "AppConfig \<Rightarrow> BackendType \<Rightarrow> BackendConfig list" where
  "GetBackendsByType c t = filter (\<lambda>b. bc_Type b = t) (ac_Backends c)"

definition ParseDuration :: "string \<Rightarrow> duration \<Rightarrow> duration" where
  "ParseDuration s defaultDur =
     (if s = '''' then defaultDur
      else (case time_ParseDuration s of None \<Rightarrow> defaultDur | Some d \<Rightarrow> d))"

lemma AppConfig_GetBackendByID_first:
  "AppConfig_GetBackendByID c i = Some b \<longleftrightarrow>
   (\<exists>n < length (ac_Backends c). ac_Backends c ! n = b \<and> bc_ID b = i \<and>
      (\<forall>m < n. bc_ID (ac_Backends c ! m) \<noteq> i))"
  unfolding AppConfig_GetBackendByID_def find_Some_iff by auto

text \<open>The groups partition the backends: no backend is lost or listed twice.\<close>

lemma GetBackendsByType_partition:
  "mset (GetBackendsByType c t) + mset (filter (\<lambda>b. bc_Type b \<noteq> t) (ac_Backends c)) = mset (ac_Backends c)"
  by (simp add: GetBackendsByType_def)

lemma ParseDuration_whole_seconds:
  "n * 1000000000 < 2 ^ 63 \<Longrightarrow> ParseDuration (itoa_nat n @ ''s'') d = int n * Second"
  by (simp add: ParseDuration_def ParseDuration_seconds)

section \<open>Loading\<close>

text \<open>
  A viper as the code sets it up, and the two functions that work on it: \<open>ReadInConfig\<close>, which
  keeps the parsed file or fails, and \<open>Unmarshal\<close>, which overwrites the configuration it is
  given, also when it then fails. Both may look at the files and the environment of the
  process, which are in the world.
\<close>

datatype setting = SettingText string | SettingInt int | SettingBool bool

record viper =
  vp_file :: string
  vp_type :: string
  vp_auto_env :: bool
  vp_env_prefix :: string
  vp_env_replacer :: "(string \<times> string) list"
  vp_defaults :: "(string \<times> setting) list"

record ('f, 'w) viper_ops =
  vo_ReadInConfig :: "viper \<Rightarrow> 'w \<Rightarrow> go_error + 'f"
  vo_Unmarshal :: "viper \<Rightarrow> 'f \<Rightarrow> 'w \<Rightarrow> AppConfig \<Rightarrow> AppConfig \<times> go_error option"

text \<open>\<open>viper.New\<close> with the file and its type.\<close>

definition viper_of :: "string \<Rightarrow> viper" where
  "viper_of path =
     \<lparr>vp_file = path, vp_type = ''yaml'', vp_auto_env = False, vp_env_prefix = '''', vp_env_replacer = [],
      vp_defaults = []\<rparr>"

definition config_defaults :: "(string \<times> setting) list" where
  "config_defaults =
     [(''server.host'', SettingText ''0.0.0.0''), (''server.port'', SettingInt 8090),
      (''server.read_timeout'', SettingText ''30s''), (''server.write_timeout'', SettingText ''30s''),
      (''server.idle_timeout'', SettingText ''60s''), (''cache.default_mode'', SettingText ''cache-aside''),
      (''cache.default_ttl'', SettingText ''5m''), (''cache.max_value_size'', SettingInt 1048576),
      (''cache.enable_versioning'', SettingBool True), (''metrics.enabled'', SettingBool True),
      (''metrics.path'', SettingText ''/metrics''), (''log_level'', SettingText ''info''),
      (''log_format'', SettingText ''json'')]"

definition loadConfig ::
  "('f, 'w) viper_ops \<Rightarrow> string \<Rightarrow> AppConfig \<Rightarrow> 'w \<Rightarrow> AppConfig \<times> go_error option" where
  "loadConfig V configPath cfg w =
     (let v = (viper_of configPath)
            \<lparr>vp_auto_env := True, vp_env_prefix := ''CACHE_PROXY'',
             vp_env_replacer := [(''.'', ''_''), (''-'', ''_'')], vp_defaults := config_defaults\<rparr>
      in case vo_ReadInConfig V v w of
           Inl err \<Rightarrow> (cfg, Some (ErrorWrap ''failed to read config file: '' err))
         | Inr file \<Rightarrow>
             (case vo_Unmarshal V v file w cfg of
                (cfg', Some err) \<Rightarrow> (cfg', Some (ErrorWrap ''failed to unmarshal config: '' err))
              | (cfg', None) \<Rightarrow> (cfg', None)))"

text \<open>\<open>&AppConfig{}\<close>.\<close>

definition empty_config :: AppConfig where
  "empty_config =
     \<lparr>ac_Server = \<lparr>sc_Host = '''', sc_Port = 0, sc_ReadTimeout = '''', sc_WriteTimeout = '''', sc_IdleTimeout = ''''\<rparr>,
      ac_Cache = \<lparr>cc_DefaultMode = ReadWriteModeEmpty, cc_DefaultTTL = '''', cc_MaxValueSize = 0, cc_EnableVersioning = False\<rparr>,
      ac_Metrics = \<lparr>mc_Enabled = False, mc_Path = ''''\<rparr>, ac_Backends = [], ac_Routing = [],
      ac_PubSub = \<lparr>pc_Enabled = False, pc_Type = PubSubType_other '''', pc_RedisURL = '''', pc_NATSURL = '''', pc_Channel = ''''\<rparr>,
      ac_Gossip = \<lparr>gc_Enabled = False, gc_BindAddr = '''', gc_BindPort = 0, gc_SeedNodes = [], gc_ProbeInterval = '''', gc_ProbeTimeout = ''''\<rparr>,
      ac_LogLevel = '''', ac_LogFormat = ''''\<rparr>"

section \<open>The instance\<close>

text \<open>
  The package variables, whether \<open>once\<close> has run and \<open>instance\<close>, and the viper that watches the
  file.
\<close>

record config_vars =
  cv_once :: bool
  cv_instance :: "AppConfig option"
  cv_watcher :: "viper option"

definition setupHotReload :: "string \<Rightarrow> config_vars \<Rightarrow> config_vars" where
  "setupHotReload configPath v = v\<lparr>cv_watcher := Some (viper_of configPath)\<rparr>"

definition Config_Load ::
  "('f, 'w) viper_ops \<Rightarrow> string \<Rightarrow> config_vars \<Rightarrow> 'w \<Rightarrow> (go_error + AppConfig option) \<times> config_vars" where
  "Config_Load V configPath v w =
     (if cv_once v then (Inr (cv_instance v), v)
      else
        (case loadConfig V configPath empty_config w of
           (c, Some err) \<Rightarrow> (Inl err, v\<lparr>cv_once := True, cv_instance := Some c\<rparr>)
         | (c, None) \<Rightarrow>
             (Inr (Some c), setupHotReload configPath (v\<lparr>cv_once := True, cv_instance := Some c\<rparr>))))"

definition Config_Get :: "config_vars \<Rightarrow> AppConfig option" where
  "Config_Get v = cv_instance v"

text \<open>The callback of \<open>setupHotReload\<close>, when the watched file has changed.\<close>

definition Config_onChange :: "('f, 'w) viper_ops \<Rightarrow> string \<Rightarrow> config_vars \<Rightarrow> 'w \<Rightarrow> config_vars" where
  "Config_onChange V configPath v w =
     (case loadConfig V configPath empty_config w of
        (c, Some err) \<Rightarrow> v
      | (c, None) \<Rightarrow> v\<lparr>cv_instance := Some c\<rparr>)"

text \<open>The error of the first load is returned once: the next call succeeds without loading.\<close>

lemma Load_after_failure:
  assumes "\<not> cv_once v" "Config_Load V p v w = (Inl err, v')"
  shows "cv_watcher v' = cv_watcher v \<and>
    Config_Load V' p' v' w' = (Inr (Some (fst (loadConfig V p empty_config w))), v')"
  using assms by (auto simp: Config_Load_def split: prod.splits option.splits)

text \<open>What a load of the file as it is in a world gives, if it can be loaded.\<close>

definition loadable :: "('f, 'w) viper_ops \<Rightarrow> string \<Rightarrow> 'w \<Rightarrow> AppConfig option" where
  "loadable V p w = (case loadConfig V p empty_config w of (c, None) \<Rightarrow> Some c | _ \<Rightarrow> None)"

lemma Config_Load_loadable:
  "\<not> cv_once v \<Longrightarrow> Config_Load V p v w =
     (case loadable V p w of
        Some c \<Rightarrow> (Inr (Some c), v\<lparr>cv_once := True, cv_instance := Some c, cv_watcher := Some (viper_of p)\<rparr>)
      | None \<Rightarrow> (Inl (the (snd (loadConfig V p empty_config w))),
                 v\<lparr>cv_once := True, cv_instance := Some (fst (loadConfig V p empty_config w))\<rparr>))"
  by (simp add: Config_Load_def loadable_def setupHotReload_def split: prod.splits option.splits)

lemma Config_onChange_loadable:
  "Config_onChange V p v w = (case loadable V p w of None \<Rightarrow> v | Some c \<Rightarrow> v\<lparr>cv_instance := Some c\<rparr>)"
  by (simp add: Config_onChange_def loadable_def split: prod.splits option.splits)

lemma reloads_instance:
  "Config_Get v = Some c \<Longrightarrow>
   Config_Get (fold (\<lambda>w v. Config_onChange V p v w) ws v) = Some (last (c # List.map_filter (loadable V p) ws))"
proof (induction ws arbitrary: v c)
  case Nil
  then show ?case by simp
next
  case (Cons w ws)
  then show ?case
    by (cases "loadable V p w") (simp_all add: Config_onChange_loadable Config_Get_def)
qed

end
