(* ===== verification/Memory_Backend.thy ===== *)
theory Memory_Backend
  imports Externals Config
begin

text \<open>
  Package \<open>internal/storage/memory\<close>: a ristretto cache and a map of versions beside it.
  The lemmas say when an operation succeeds, how it moves the versions, and that the
  backend keeps the contract of \<open>kv_backend\<close>. The version of a key counts the writes since
  it was last deleted: it is the cache that may drop a value, never the map.
\<close>

section \<open>State\<close>

record memory_backend =
  mb_id :: string
  mb_name :: string
  mb_weight :: int
  mb_healthy :: bool
  mb_cache :: nat
  mb_versions :: "string \<Rightarrow> u64 option"
  mb_defaultTTL :: duration

text \<open>The cache configuration \<open>New\<close> hands to ristretto.\<close>

record ristretto_config =
  rc_NumCounters :: int
  rc_MaxCost :: int
  rc_BufferItems :: int

definition default_memory_config :: MemoryBackendConfig where
  "default_memory_config =
     \<lparr>mbc_MaxCost = 2 ^ 30, mbc_NumCounters = 10000000, mbc_BufferItems = 64, mbc_DefaultTTL = ''5m''\<rparr>"

definition Memory_config :: "MemoryBackendConfig option \<Rightarrow> ristretto_config" where
  "Memory_config cfg0 =
     (let cfg = (case cfg0 of None \<Rightarrow> default_memory_config | Some c \<Rightarrow> c)
      in \<lparr>rc_NumCounters = (if mbc_NumCounters cfg = 0 then 10000000 else mbc_NumCounters cfg),
          rc_MaxCost = (if mbc_MaxCost cfg = 0 then 2 ^ 30 else mbc_MaxCost cfg),
          rc_BufferItems = (if mbc_BufferItems cfg = 0 then 64 else mbc_BufferItems cfg)\<rparr>)"

text \<open>\<open>new_cache\<close> is \<open>ristretto.NewCache\<close>: a handle or an error.\<close>

definition Memory_New ::
  "(ristretto_config \<Rightarrow> 'w \<Rightarrow> (go_error + nat) \<times> 'w) \<Rightarrow> string \<Rightarrow> string \<Rightarrow> int \<Rightarrow>
   MemoryBackendConfig option \<Rightarrow> 'w \<Rightarrow> (go_error + memory_backend) \<times> 'w" where
  "Memory_New new_cache i name weight cfg0 w =
     (let cfg = (case cfg0 of None \<Rightarrow> default_memory_config | Some c \<Rightarrow> c);
          (r, w') = new_cache (Memory_config cfg0) w
      in case r of
           Inl err \<Rightarrow> (Inl (ErrorWrap ''failed to create ristretto cache: '' err), w')
         | Inr h \<Rightarrow>
             (Inr \<lparr>mb_id = i, mb_name = name, mb_weight = weight, mb_healthy = True, mb_cache = h,
                   mb_versions = Map.empty,
                   mb_defaultTTL = ParseDuration (mbc_DefaultTTL cfg) (5 * Minute)\<rparr>, w'))"

section \<open>Operations\<close>

definition Memory_ident :: "memory_backend \<Rightarrow> identity" where
  "Memory_ident m =
     \<lparr>id_ID = mb_id m, id_Type = BackendType_string BackendTypeMemory, id_Name = mb_name m,
      id_Weight = mb_weight m\<rparr>"

definition Memory_SetHealthy :: "memory_backend \<Rightarrow> bool \<Rightarrow> memory_backend" where
  "Memory_SetHealthy m h = m\<lparr>mb_healthy := h\<rparr>"

definition getVersion :: "memory_backend \<Rightarrow> string \<Rightarrow> u64" where
  "getVersion m k = (case mb_versions m k of None \<Rightarrow> 0 | Some v \<Rightarrow> v)"

definition incrementVersion :: "memory_backend \<Rightarrow> string \<Rightarrow> memory_backend" where
  "incrementVersion m k = m\<lparr>mb_versions := (mb_versions m)(k \<mapsto> getVersion m k + 1)\<rparr>"

definition deleteVersion :: "memory_backend \<Rightarrow> string \<Rightarrow> memory_backend" where
  "deleteVersion m k = m\<lparr>mb_versions := (mb_versions m)(k := None)\<rparr>"

definition Memory_Get ::
  "'w env \<Rightarrow> memory_backend \<Rightarrow> string \<Rightarrow> 'w \<Rightarrow> (go_error + entry) \<times> memory_backend \<times> 'w" where
  "Memory_Get E m k w =
     (if \<not> mb_healthy m then (Inl ErrBackendUnhealthy, m, w)
      else
        (let (v, w') = env_cache_get E (mb_cache m) k w
         in case v of
              None \<Rightarrow> (Inl ErrKeyNotFound, m, w')
            | Some (AnyOther _) \<Rightarrow> (Inl (ErrorText (''invalid value type for key '' @ k)), m, w')
            | Some (AnyBytes bs) \<Rightarrow>
                (Inr \<lparr>entry_Key = k, entry_Value = bs, entry_Version = getVersion m k, entry_TTL = 0\<rparr>,
                 m, w')))"

definition Memory_Set ::
  "'w env \<Rightarrow> memory_backend \<Rightarrow> entry \<Rightarrow> 'w \<Rightarrow> go_error option \<times> memory_backend \<times> 'w" where
  "Memory_Set E m e w =
     (if \<not> mb_healthy m then (Some ErrBackendUnhealthy, m, w)
      else
        (let ttl = (if entry_TTL e \<le> 0 then mb_defaultTTL m else entry_TTL e);
             m' = incrementVersion m (entry_Key e);
             (ok, w') = env_cache_set E (mb_cache m) (entry_Key e) (AnyBytes (entry_Value e)) (value_size e) ttl w
         in (if ok then None
             else Some (ErrorText (''failed to set key '' @ entry_Key e @ '' in cache'')), m', w')))"

definition Memory_Delete ::
  "'w env \<Rightarrow> memory_backend \<Rightarrow> string \<Rightarrow> 'w \<Rightarrow> go_error option \<times> memory_backend \<times> 'w" where
  "Memory_Delete E m k w =
     (if \<not> mb_healthy m then (Some ErrBackendUnhealthy, m, w)
      else (None, deleteVersion m k, env_cache_del E (mb_cache m) k w))"

definition Memory_Exists ::
  "'w env \<Rightarrow> memory_backend \<Rightarrow> string \<Rightarrow> 'w \<Rightarrow> (go_error + bool) \<times> memory_backend \<times> 'w" where
  "Memory_Exists E m k w =
     (if \<not> mb_healthy m then (Inl ErrBackendUnhealthy, m, w)
      else (let (v, w') = env_cache_get E (mb_cache m) k w in (Inr (v \<noteq> None), m, w')))"

definition Memory_Ping :: "memory_backend \<Rightarrow> 'w \<Rightarrow> go_error option \<times> memory_backend \<times> 'w" where
  "Memory_Ping m w = (None, Memory_SetHealthy m True, w)"

definition Memory_Close :: "'w env \<Rightarrow> memory_backend \<Rightarrow> 'w \<Rightarrow> go_error option \<times> 'w" where
  "Memory_Close E m w = (None, env_cache_close E (mb_cache m) w)"

lemmas memory_defs =
  Memory_Get_def Memory_Set_def Memory_Delete_def Memory_Exists_def Memory_Ping_def

section \<open>The contract\<close>

interpretation memory_kv: kv_backend
  "Memory_Get E" "Memory_Set E" "Memory_Delete E" "Memory_Exists E" Memory_Ping
  mb_healthy Memory_SetHealthy Memory_ident
  for E :: "'w env"
  by unfold_locales
    (auto simp: memory_defs Memory_SetHealthy_def Memory_ident_def incrementVersion_def
      deleteVersion_def Let_def split: if_splits prod.splits option.splits any_value.splits)

section \<open>Versions\<close>

lemma getVersion_increment:
  "getVersion (incrementVersion m k) k' = (if k' = k then getVersion m k + 1 else getVersion m k')"
  by (simp add: getVersion_def incrementVersion_def)

lemma getVersion_delete:
  "getVersion (deleteVersion m k) k' = (if k' = k then 0 else getVersion m k')"
  by (simp add: getVersion_def deleteVersion_def)

lemma Memory_Set_version:
  assumes "mb_healthy m" "Memory_Set E m e w = (err, m', w')"
  shows "getVersion m' k = (if k = entry_Key e then getVersion m k + 1 else getVersion m k)"
  using assms by (auto simp: Memory_Set_def Let_def getVersion_increment split: prod.splits)

lemma Memory_Delete_version:
  assumes "mb_healthy m" "Memory_Delete E m k w = (err, m', w')"
  shows "getVersion m' k' = (if k' = k then 0 else getVersion m k')"
  using assms by (auto simp: Memory_Delete_def getVersion_delete)

lemma Memory_Get_entry:
  assumes "Memory_Get E m k w = (Inr e, m', w')"
  shows "entry_Key e = k \<and> entry_Version e = getVersion m k \<and> entry_TTL e = 0 \<and> m' = m \<and>
    env_cache_get E (mb_cache m) k w = (Some (AnyBytes (entry_Value e)), w')"
  using assms
  by (auto simp: Memory_Get_def Let_def split: if_splits prod.splits option.splits any_value.splits)

text \<open>A history of one backend, and how many writes to a key it holds since the last delete.\<close>

datatype memory_op = MSet entry | MDelete string | MGet string | MExists string

fun memory_run :: "'w env \<Rightarrow> memory_op list \<Rightarrow> memory_backend \<Rightarrow> 'w \<Rightarrow> memory_backend \<times> 'w" where
  "memory_run E [] m w = (m, w)"
| "memory_run E (MSet e # ops) m w = (let (_, m', w') = Memory_Set E m e w in memory_run E ops m' w')"
| "memory_run E (MDelete k # ops) m w = (let (_, m', w') = Memory_Delete E m k w in memory_run E ops m' w')"
| "memory_run E (MGet k # ops) m w = (let (_, m', w') = Memory_Get E m k w in memory_run E ops m' w')"
| "memory_run E (MExists k # ops) m w = (let (_, m', w') = Memory_Exists E m k w in memory_run E ops m' w')"

fun writes_since_delete :: "string \<Rightarrow> memory_op list \<Rightarrow> nat \<Rightarrow> nat" where
  "writes_since_delete k [] n = n"
| "writes_since_delete k (MSet e # ops) n =
     writes_since_delete k ops (if entry_Key e = k then Suc n else n)"
| "writes_since_delete k (MDelete k' # ops) n = writes_since_delete k ops (if k' = k then 0 else n)"
| "writes_since_delete k (MGet _ # ops) n = writes_since_delete k ops n"
| "writes_since_delete k (MExists _ # ops) n = writes_since_delete k ops n"

lemma memory_run_version:
  assumes "mb_healthy m" "getVersion m k = of_nat n" "memory_run E ops m w = (m', w')"
  shows "mb_healthy m' \<and> getVersion m' k = of_nat (writes_since_delete k ops n)"
  using assms
proof (induction ops arbitrary: m w n)
  case Nil
  then show ?case by simp
next
  case (Cons op ops)
  show ?case
  proof (cases op)
    case (MSet e)
    obtain err m1 w1 where s: "Memory_Set E m e w = (err, m1, w1)" by (metis prod_cases3)
    have "mb_healthy m1" using memory_kv.set_frame [OF s] Cons.prems(1) by simp
    moreover have "getVersion m1 k = of_nat (if entry_Key e = k then Suc n else n)"
      using Memory_Set_version [OF Cons.prems(1) s, of k] Cons.prems(2) by (auto simp: add.commute)
    ultimately show ?thesis using Cons.IH Cons.prems(3) s MSet by simp
  next
    case (MDelete k')
    obtain err m1 w1 where d: "Memory_Delete E m k' w = (err, m1, w1)" by (metis prod_cases3)
    have "mb_healthy m1" using memory_kv.del_frame [OF d] Cons.prems(1) by simp
    moreover have "getVersion m1 k = of_nat (if k' = k then 0 else n)"
      using Memory_Delete_version [OF Cons.prems(1) d, of k] Cons.prems(2) by auto
    ultimately show ?thesis using Cons.IH Cons.prems(3) d MDelete by simp
  next
    case (MGet k')
    obtain r m1 w1 where g: "Memory_Get E m k' w = (r, m1, w1)" by (metis prod_cases3)
    have "m1 = m" using g Cons.prems(1)
      by (auto simp: Memory_Get_def Let_def split: prod.splits option.splits any_value.splits)
    then show ?thesis using Cons.IH Cons.prems g MGet by simp
  next
    case (MExists k')
    obtain r m1 w1 where g: "Memory_Exists E m k' w = (r, m1, w1)" by (metis prod_cases3)
    have "m1 = m" using g Cons.prems(1)
      by (auto simp: Memory_Exists_def Let_def split: prod.splits)
    then show ?thesis using Cons.IH Cons.prems g MExists by simp
  qed
qed

end
