(* ===== verification/Reference_World.thy ===== *)
theory Reference_World
  imports Externals
begin

text \<open>
  What the documentation of the servers promises, as functions: the Redis commands the
  program sends, on a store with deadlines, and a whole environment \<open>sim_env\<close> built on a small
  simulated world. \<open>redis_exec\<close> is the reference the hypotheses on Redis refer to; the
  environment shows that the hypotheses of the properties can hold, and is what their
  witnesses run on.
\<close>

section \<open>Redis\<close>

text \<open>A value with its deadline; a value whose deadline has passed is not there.\<close>

type_synonym redis_store = "string \<Rightarrow> (bytes \<times> instant option) option"

definition redis_alive :: "instant \<Rightarrow> redis_store \<Rightarrow> redis_store" where
  "redis_alive t s k =
     (case s k of
        None \<Rightarrow> None
      | Some (v, None) \<Rightarrow> Some (v, None)
      | Some (v, Some d) \<Rightarrow> if t < d then Some (v, Some d) else None)"

text \<open>The value of a counter: an integer of 64 bits in its one decimal form.\<close>

definition redis_int :: "bytes \<Rightarrow> int option" where
  "redis_int bs =
     (let s = string_of_bytes bs; neg = HasPrefix s ''-'';
          m = uint (fst (ParseUint (if neg then drop 1 s else s)));
          n = (if neg then - m else m)
      in if strconv_Itoa n = s \<and> in_int64 n then Some n else None)"

text \<open>
  How the client sends a lifetime: SET carries milliseconds if the lifetime is not of whole
  seconds and seconds otherwise, EXPIRE always seconds; both cut the rest off, and a shorter
  lifetime than one unit is sent as one unit.
\<close>

definition sent_units :: "duration \<Rightarrow> duration \<Rightarrow> duration" where
  "sent_units u d = (if 0 < d \<and> d < u then u else d div u * u)"

definition value_life :: "duration \<Rightarrow> duration" where
  "value_life d = (if d < Second \<or> d mod Second \<noteq> 0 then sent_units Millisecond d else sent_units Second d)"

definition counter_life :: "duration \<Rightarrow> duration" where
  "counter_life d = sent_units Second d"

lemma sent_units_pos: "0 < u \<Longrightarrow> 0 < d \<Longrightarrow> 0 < sent_units u d"
  by (simp add: sent_units_def pos_imp_zdiv_pos_iff)

lemma sent_units_nonpos: "0 < u \<Longrightarrow> d \<le> 0 \<Longrightarrow> sent_units u d \<le> 0"
  by (simp add: sent_units_def mult_le_0_iff div_nonpos_pos_le0)

lemma life_pos: "0 < d \<Longrightarrow> 0 < value_life d" "0 < d \<Longrightarrow> 0 < counter_life d"
  by (simp_all add: value_life_def counter_life_def sent_units_pos)

fun redis_step :: "instant \<Rightarrow> redis_cmd \<Rightarrow> redis_store \<Rightarrow> redis_reply \<times> redis_store" where
  "redis_step t (RedisGet k) s =
     ((case redis_alive t s k of Some (v, _) \<Rightarrow> ReplyBytes v | None \<Rightarrow> ReplyNil), s)"
| "redis_step t (RedisSet k v ttl) s =
     (ReplyBytes (bytes_of_string ''OK''),
      s(k \<mapsto> (v, if ttl = -1 then Option.bind (redis_alive t s k) snd
                else if ttl \<le> 0 then None else Some (t + value_life ttl))))"
| "redis_step t (RedisIncr k) s =
     (case redis_alive t s k of
        None \<Rightarrow> (ReplyInt 1, s(k \<mapsto> (bytes_of_string ''1'', None)))
      | Some (v, d) \<Rightarrow>
          (case redis_int v of
             None \<Rightarrow> (ReplyErr (ErrorText ''ERR value is not an integer or out of range''), s)
           | Some n \<Rightarrow>
               if in_int64 (n + 1) then (ReplyInt (n + 1), s(k \<mapsto> (bytes_of_string (strconv_Itoa (n + 1)), d)))
               else (ReplyErr (ErrorText ''ERR increment or decrement would overflow''), s)))"
| "redis_step t (RedisExpire k ttl) s =
     (case redis_alive t s k of
        None \<Rightarrow> (ReplyInt 0, s)
      | Some (v, _) \<Rightarrow>
          (ReplyInt 1, s(k := (if counter_life ttl \<le> 0 then None else Some (v, Some (t + counter_life ttl))))))"
| "redis_step t (RedisDel k) s =
     (ReplyInt (if redis_alive t s k = None then 0 else 1), s(k := None))"
| "redis_step t (RedisExists k) s = (ReplyInt (if redis_alive t s k = None then 0 else 1), s)"
| "redis_step t RedisPing s = (ReplyBytes (bytes_of_string ''PONG''), s)"
| "redis_step t (RedisPublish ch m) s = (ReplyInt 0, s)"

fun redis_steps :: "instant \<Rightarrow> redis_cmd list \<Rightarrow> redis_store \<Rightarrow> redis_reply list \<times> redis_store" where
  "redis_steps t [] s = ([], s)"
| "redis_steps t (c # cs) s =
     (let (r, s1) = redis_step t c s; (rs, s2) = redis_steps t cs s1 in (r # rs, s2))"

text \<open>The error of a call is that of its first failed command; no value is an error too.\<close>

definition reply_error :: "redis_reply \<Rightarrow> go_error option" where
  "reply_error r = (case r of ReplyNil \<Rightarrow> Some RedisNil | ReplyErr e \<Rightarrow> Some e | _ \<Rightarrow> None)"

definition redis_exec :: "instant \<Rightarrow> redis_cmd list \<Rightarrow> redis_store \<Rightarrow> (go_error option \<times> redis_reply list) \<times> redis_store" where
  "redis_exec t cs s =
     (let (rs, s') = redis_steps t cs s;
          errs = List.map_filter reply_error rs
      in ((if errs = [] then None else Some (hd errs), rs), s'))"

section \<open>A simulated world\<close>

text \<open>
  A cache is kept as the values it was handed for a key since the key was last deleted, the
  newest first; the simulated one answers the newest.
\<close>

definition newest :: "'a list \<Rightarrow> 'a option" where
  "newest xs = (case xs of [] \<Rightarrow> None | x # _ \<Rightarrow> Some x)"

lemma newest_simps [simp]: "newest [] = None" "newest (x # xs) = Some x"
  by (simp_all add: newest_def)

lemma newest_mem: "newest xs = Some x \<Longrightarrow> x \<in> set xs"
  by (cases xs) auto

record sim =
  sim_clock :: instant
  sim_cache :: "nat \<Rightarrow> string \<Rightarrow> any_value list"
  sim_redis :: "nat \<Rightarrow> redis_store"
  sim_grpc :: "nat \<Rightarrow> string \<Rightarrow> (bytes \<times> u64) option"
  sim_http :: "http_request \<Rightarrow> go_error + http_response"
  sim_reachable :: "string \<Rightarrow> bool"

definition sim0 :: sim where
  "sim0 =
     \<lparr>sim_clock = 0, sim_cache = (\<lambda>_ _. []), sim_redis = (\<lambda>_ _. None), sim_grpc = (\<lambda>_ _. None),
      sim_http = (\<lambda>_. Inr \<lparr>hp_Status = 404, hp_Body = ''''\<rparr>), sim_reachable = (\<lambda>_. True)\<rparr>"

text \<open>The clock moves by a millisecond with each reading; Redis answers at the current time.\<close>

definition sim_env :: "sim env" where
  "sim_env =
     \<lparr>env_now = (\<lambda>w. (sim_clock w, w\<lparr>sim_clock := sim_clock w + Millisecond\<rparr>)),
      env_iter = (\<lambda>ks w. (ks, w)),
      env_Intn = (\<lambda>n w. (0, w)),
      env_xxhash = (\<lambda>s. of_nat (length s)),
      env_cache_get = (\<lambda>h k w. (newest (sim_cache w h k), w)),
      env_cache_set = (\<lambda>h k v cost ttl w.
        (True, w\<lparr>sim_cache := (sim_cache w)(h := (sim_cache w h)(k := v # sim_cache w h k))\<rparr>)),
      env_cache_del = (\<lambda>h k w. w\<lparr>sim_cache := (sim_cache w)(h := (sim_cache w h)(k := []))\<rparr>),
      env_cache_close = (\<lambda>h w. w\<lparr>sim_cache := (sim_cache w)(h := (\<lambda>_. []))\<rparr>),
      env_redis = (\<lambda>h cs w.
        (let (r, s) = redis_exec (sim_clock w) cs (sim_redis w h)
         in (r, w\<lparr>sim_redis := (sim_redis w)(h := s)\<rparr>))),
      env_http = (\<lambda>h rq timeout w. (sim_http w rq, w)),
      env_json_object = (\<lambda>s. None),
      env_ctx_done = (\<lambda>w. (False, w)),
      env_grpc_get = (\<lambda>h path k w.
        (Inr (case sim_grpc w h k of
                None \<Rightarrow> \<lparr>gg_Value = [], gg_Version = 0, gg_Found = False\<rparr>
              | Some (v, n) \<Rightarrow> \<lparr>gg_Value = v, gg_Version = n, gg_Found = True\<rparr>), w)),
      env_grpc_set = (\<lambda>h path rq w.
        (Inr True, w\<lparr>sim_grpc := (sim_grpc w)(h := (sim_grpc w h)(gs_Key rq \<mapsto>
           (gs_Value rq, (case sim_grpc w h (gs_Key rq) of None \<Rightarrow> 1 | Some (_, n) \<Rightarrow> n + 1))))\<rparr>)),
      env_grpc_delete = (\<lambda>h path k w. (Inr True, w\<lparr>sim_grpc := (sim_grpc w)(h := (sim_grpc w h)(k := None))\<rparr>)),
      env_grpc_exists = (\<lambda>h path k w. (Inr (sim_grpc w h k \<noteq> None), w)),
      env_grpc_ping = (\<lambda>h path w. (Inr True, w)),
      env_dial = (\<lambda>addr timeout w.
        ((if sim_reachable w addr then None else Some (NetOpError (''dial tcp '' @ addr))), w)),
      env_close = (\<lambda>h w. (None, w))\<rparr>"

text \<open>The fields, so that a witness opens only the one it runs.\<close>

lemma sim_env_simps [simp]:
  "env_now sim_env w = (sim_clock w, w\<lparr>sim_clock := sim_clock w + Millisecond\<rparr>)"
  "env_iter sim_env ks w = (ks, w)"
  "env_Intn sim_env n w = (0, w)"
  "env_cache_get sim_env h k w = (newest (sim_cache w h k), w)"
  "env_cache_set sim_env h k v cost ttl w =
     (True, w\<lparr>sim_cache := (sim_cache w)(h := (sim_cache w h)(k := v # sim_cache w h k))\<rparr>)"
  "env_cache_del sim_env h k w = w\<lparr>sim_cache := (sim_cache w)(h := (sim_cache w h)(k := []))\<rparr>"
  "env_redis sim_env h cs w =
     (let (r, s) = redis_exec (sim_clock w) cs (sim_redis w h)
      in (r, w\<lparr>sim_redis := (sim_redis w)(h := s)\<rparr>))"
  "env_http sim_env h rq timeout w = (sim_http w rq, w)"
  "env_json_object sim_env s = None"
  "env_ctx_done sim_env w = (False, w)"
  "env_grpc_ping sim_env h path w = (Inr True, w)"
  "env_dial sim_env addr timeout w =
     ((if sim_reachable w addr then None else Some (NetOpError (''dial tcp '' @ addr))), w)"
  "env_close sim_env h w = (None, w)"
  by (simp_all add: sim_env_def)

end
