(* ===== verification/Http_Backend.thy ===== *)
theory Http_Backend
  imports Externals Config
begin

text \<open>
  Package \<open>internal/storage/http\<close>: a REST key-value service called with fasthttp. The
  request each operation builds is a definition of its own; a key is escaped into the URL
  by \<open>url.QueryEscape\<close>, which loses nothing, so two keys never share a request.
\<close>

section \<open>QueryEscape\<close>

definition unreserved :: "char \<Rightarrow> bool" where
  "unreserved c \<longleftrightarrow>
     (let b = (of_char c :: nat) in
      (48 \<le> b \<and> b \<le> 57) \<or> (65 \<le> b \<and> b \<le> 90) \<or> (97 \<le> b \<and> b \<le> 122) \<or> c \<in> {CHR ''-'', CHR ''_'', CHR ''.'', CHR 0x7E})"

definition hex_digit :: "nat \<Rightarrow> char" where
  "hex_digit d = char_of (if d < 10 then 48 + d else 55 + d)"

definition hex_val :: "char \<Rightarrow> nat" where
  "hex_val c = (if of_char c < (65 :: nat) then of_char c - 48 else of_char c - 55)"

definition escape_char :: "char \<Rightarrow> string" where
  "escape_char c =
     (if unreserved c then [c]
      else if c = CHR '' '' then ''+''
      else [CHR ''%'', hex_digit (of_char c div 16), hex_digit (of_char c mod 16)])"

definition QueryEscape :: "string \<Rightarrow> string" where
  "QueryEscape s = concat (map escape_char s)"

text \<open>What a server reads back.\<close>

fun query_unescape :: "string \<Rightarrow> string" where
  "query_unescape [] = []"
| "query_unescape (c # cs) =
     (if c = CHR ''+'' then CHR '' '' # query_unescape cs
      else if c = CHR ''%'' then
        (case cs of
           h # l # ds \<Rightarrow> char_of (hex_val h * 16 + hex_val l) # query_unescape ds
         | _ \<Rightarrow> [])
      else c # query_unescape cs)"

lemma hex_val_digit: "d < 16 \<Longrightarrow> hex_val (hex_digit d) = d"
  by (auto simp: hex_val_def hex_digit_def)

lemma unescape_escape_char: "query_unescape (escape_char c @ s) = c # query_unescape s"
proof (cases "unreserved c")
  case True
  then have "c \<noteq> CHR ''+''" "c \<noteq> CHR ''%''" by (auto simp: unreserved_def Let_def)
  with True show ?thesis by (simp add: escape_char_def)
next
  case False
  show ?thesis
  proof (cases "c = CHR '' ''")
    case True
    with False show ?thesis by (simp add: escape_char_def)
  next
    case ns: False
    have "(of_char c :: nat) \<in> range of_char" by simp
    then have lt: "(of_char c :: nat) < 256" by (simp only: range_nat_of_char atLeastLessThan_iff)
    have "(of_char c :: nat) div 16 < 16" "(of_char c :: nat) mod 16 < 16" using lt by (simp_all add: less_mult_imp_div_less)
    moreover have "(of_char c :: nat) div 16 * 16 + of_char c mod 16 = of_char c" by simp
    ultimately show ?thesis using False ns
      by (simp add: escape_char_def hex_val_digit)
  qed
qed

lemma unescape_QueryEscape: "query_unescape (QueryEscape s) = s"
  by (induction s) (simp_all add: QueryEscape_def unescape_escape_char)

lemma QueryEscape_inj: "QueryEscape s = QueryEscape t \<longleftrightarrow> s = t"
  using unescape_QueryEscape by metis

section \<open>State\<close>

record http_client_config =
  hcl_Name :: string
  hcl_MaxConnsPerHost :: int
  hcl_ReadTimeout :: duration
  hcl_WriteTimeout :: duration
  hcl_MaxIdleConnDuration :: duration
  hcl_MaxConnDuration :: duration

record http_backend =
  hb_id :: string
  hb_name :: string
  hb_weight :: int
  hb_healthy :: bool
  hb_client :: nat
  hb_baseURL :: string
  hb_headers :: "(string \<times> string) list"
  hb_keyParam :: string
  hb_valueParam :: string
  hb_ttlParam :: string
  hb_timeout :: duration
  hb_defaultTTL :: duration

definition param_or :: "string \<Rightarrow> string \<Rightarrow> string" where
  "param_or s d = (if s = '''' then d else s)"

definition Http_New ::
  "(http_client_config \<Rightarrow> 'w \<Rightarrow> nat \<times> 'w) \<Rightarrow> string \<Rightarrow> string \<Rightarrow> int \<Rightarrow> HTTPBackendConfig option \<Rightarrow> 'w \<Rightarrow>
   (go_error + http_backend) \<times> 'w" where
  "Http_New new_client i name weight cfg0 w =
     (case cfg0 of
        None \<Rightarrow> (Inl (ErrorText ''http config is required''), w)
      | Some cfg \<Rightarrow>
          if hbc_BaseURL cfg = '''' then (Inl (ErrorText ''base_url is required for http backend''), w)
          else
            (let baseURL = (if HasSuffix (hbc_BaseURL cfg) ''/'' then hbc_BaseURL cfg else hbc_BaseURL cfg @ ''/'');
                 timeout = ParseDuration (hbc_Timeout cfg) (10 * Second);
                 maxConns = (if hbc_MaxConns cfg = 0 then 100 else hbc_MaxConns cfg);
                 (h, w') = new_client
                   \<lparr>hcl_Name = ''cache-proxy-'' @ i, hcl_MaxConnsPerHost = maxConns, hcl_ReadTimeout = timeout,
                    hcl_WriteTimeout = timeout, hcl_MaxIdleConnDuration = 30 * Second,
                    hcl_MaxConnDuration = 10 * Minute\<rparr> w
             in (Inr \<lparr>hb_id = i, hb_name = name, hb_weight = weight, hb_healthy = True, hb_client = h,
                      hb_baseURL = baseURL, hb_headers = hbc_Headers cfg,
                      hb_keyParam = param_or (hbc_KeyParam cfg) ''key'',
                      hb_valueParam = param_or (hbc_ValueParam cfg) ''value'',
                      hb_ttlParam = param_or (hbc_TTLParam cfg) ''ttl'',
                      hb_timeout = timeout, hb_defaultTTL = 5 * Minute\<rparr>, w')))"

section \<open>Requests\<close>

definition http_req :: "http_backend \<Rightarrow> string \<Rightarrow> string \<Rightarrow> string \<Rightarrow> string \<Rightarrow> http_request" where
  "http_req h meth url ctype body =
     \<lparr>hq_Method = meth, hq_URI = url, hq_ContentType = ctype, hq_Headers = hb_headers h, hq_Body = body\<rparr>"

definition key_url :: "http_backend \<Rightarrow> string \<Rightarrow> string \<Rightarrow> string" where
  "key_url h path k = hb_baseURL h @ path @ ''?'' @ hb_keyParam h @ ''='' @ QueryEscape k"

definition Http_get_request :: "http_backend \<Rightarrow> string \<Rightarrow> http_request" where
  "Http_get_request h k = http_req h ''GET'' (key_url h ''get'' k) '''' ''''"

definition Http_set_request :: "http_backend \<Rightarrow> entry \<Rightarrow> http_request" where
  "Http_set_request h e =
     (let ttl = (if entry_TTL e \<le> 0 then hb_defaultTTL h else entry_TTL e)
      in http_req h ''POST'' (hb_baseURL h @ ''set'') ''application/x-www-form-urlencoded''
           (hb_keyParam h @ ''='' @ QueryEscape (entry_Key e) @ ''&'' @
            hb_valueParam h @ ''='' @ QueryEscape (string_of_bytes (entry_Value e)) @ ''&'' @
            hb_ttlParam h @ ''='' @ strconv_Itoa (whole_seconds ttl)))"

definition Http_delete_request :: "http_backend \<Rightarrow> string \<Rightarrow> http_request" where
  "Http_delete_request h k = http_req h ''DELETE'' (key_url h ''delete'' k) '''' ''''"

definition Http_exists_request :: "http_backend \<Rightarrow> string \<Rightarrow> http_request" where
  "Http_exists_request h k = http_req h ''HEAD'' (key_url h ''exists'' k) '''' ''''"

definition Http_ping_request :: "http_backend \<Rightarrow> http_request" where
  "Http_ping_request h = http_req h ''GET'' (hb_baseURL h @ ''health'') '''' ''''"

text \<open>A request is answered for the key it was built for, and for no other.\<close>

lemma Http_request_keys:
  "Http_get_request h k = Http_get_request h k' \<longleftrightarrow> k = k'"
  "Http_delete_request h k = Http_delete_request h k' \<longleftrightarrow> k = k'"
  "Http_exists_request h k = Http_exists_request h k' \<longleftrightarrow> k = k'"
  by (simp_all add: Http_get_request_def Http_delete_request_def Http_exists_request_def http_req_def
      key_url_def QueryEscape_inj)

section \<open>Operations\<close>

definition Http_ident :: "http_backend \<Rightarrow> identity" where
  "Http_ident h =
     \<lparr>id_ID = hb_id h, id_Type = BackendType_string BackendTypeHTTP, id_Name = hb_name h,
      id_Weight = hb_weight h\<rparr>"

definition Http_SetHealthy :: "http_backend \<Rightarrow> bool \<Rightarrow> http_backend" where
  "Http_SetHealthy h x = h\<lparr>hb_healthy := x\<rparr>"

definition Http_GetBaseURL :: "http_backend \<Rightarrow> string" where
  "Http_GetBaseURL h = hb_baseURL h"

definition status_text :: "string \<Rightarrow> int \<Rightarrow> string \<Rightarrow> string" where
  "status_text what st k = what @ '' failed with status '' @ strconv_Itoa st @ '' for key '' @ k"

definition Http_Get ::
  "'w env \<Rightarrow> http_backend \<Rightarrow> string \<Rightarrow> 'w \<Rightarrow> (go_error + entry) \<times> http_backend \<times> 'w" where
  "Http_Get E h k w =
     (if \<not> hb_healthy h then (Inl ErrBackendUnhealthy, h, w)
      else
        (let (r, w1) = env_http E (hb_client h) (Http_get_request h k) (hb_timeout h) w in
         case r of
           Inl err \<Rightarrow>
             (let (done, w2) = env_ctx_done E w1
              in (Inl (ErrorWrap ((if done then ''request timeout for key '' else ''request failed for key '')
                                  @ k @ '': '') err), h, w2))
         | Inr resp \<Rightarrow>
             if hp_Status resp = 404 then (Inl ErrKeyNotFound, h, w1)
             else if hp_Status resp \<noteq> 200 then
               (Inl (ErrorText (status_text ''request'' (hp_Status resp) k @ '': '' @ hp_Body resp)), h, w1)
             else
               (case env_json_object E (hp_Body resp) of
                  None \<Rightarrow>
                    (Inr \<lparr>entry_Key = k, entry_Value = bytes_of_string (hp_Body resp), entry_Version = 0,
                          entry_TTL = 0\<rparr>, h, w1)
                | Some result \<Rightarrow>
                    (Inr \<lparr>entry_Key = k,
                          entry_Value = (case result ''value'' of Some (JsonString v) \<Rightarrow> bytes_of_string v | _ \<Rightarrow> []),
                          entry_Version = (case result ''version'' of Some (JsonNumber n) \<Rightarrow> of_int n | _ \<Rightarrow> 0),
                          entry_TTL = 0\<rparr>, h, w1))))"

definition Http_Set ::
  "'w env \<Rightarrow> http_backend \<Rightarrow> entry \<Rightarrow> 'w \<Rightarrow> go_error option \<times> http_backend \<times> 'w" where
  "Http_Set E h e w =
     (if \<not> hb_healthy h then (Some ErrBackendUnhealthy, h, w)
      else
        (let (r, w1) = env_http E (hb_client h) (Http_set_request h e) (hb_timeout h) w in
         case r of
           Inl err \<Rightarrow> (Some (ErrorWrap (''set request failed for key '' @ entry_Key e @ '': '') err), h, w1)
         | Inr resp \<Rightarrow>
             ((if hp_Status resp \<noteq> 200 \<and> hp_Status resp \<noteq> 201
               then Some (ErrorText (status_text ''set request'' (hp_Status resp) (entry_Key e) @ '': '' @ hp_Body resp))
               else None), h, w1)))"

definition Http_Delete ::
  "'w env \<Rightarrow> http_backend \<Rightarrow> string \<Rightarrow> 'w \<Rightarrow> go_error option \<times> http_backend \<times> 'w" where
  "Http_Delete E h k w =
     (if \<not> hb_healthy h then (Some ErrBackendUnhealthy, h, w)
      else
        (let (r, w1) = env_http E (hb_client h) (Http_delete_request h k) (hb_timeout h) w in
         case r of
           Inl err \<Rightarrow> (Some (ErrorWrap (''delete request failed for key '' @ k @ '': '') err), h, w1)
         | Inr resp \<Rightarrow>
             ((if hp_Status resp \<noteq> 200 \<and> hp_Status resp \<noteq> 204
               then Some (ErrorText (status_text ''delete request'' (hp_Status resp) k @ '': '' @ hp_Body resp))
               else None), h, w1)))"

definition Http_Exists ::
  "'w env \<Rightarrow> http_backend \<Rightarrow> string \<Rightarrow> 'w \<Rightarrow> (go_error + bool) \<times> http_backend \<times> 'w" where
  "Http_Exists E h k w =
     (if \<not> hb_healthy h then (Inl ErrBackendUnhealthy, h, w)
      else
        (let (r, w1) = env_http E (hb_client h) (Http_exists_request h k) (hb_timeout h) w in
         case r of
           Inl err \<Rightarrow> (Inl (ErrorWrap (''exists request failed for key '' @ k @ '': '') err), h, w1)
         | Inr resp \<Rightarrow>
             if hp_Status resp = 404 then (Inr False, h, w1)
             else if hp_Status resp = 200 then (Inr True, h, w1)
             else (Inl (ErrorText (status_text ''exists request'' (hp_Status resp) k)), h, w1)))"

definition Http_Ping ::
  "'w env \<Rightarrow> http_backend \<Rightarrow> 'w \<Rightarrow> go_error option \<times> http_backend \<times> 'w" where
  "Http_Ping E h w =
     (let (r, w1) = env_http E (hb_client h) (Http_ping_request h) (hb_timeout h) w in
      case r of
        Inl (NetOpError m) \<Rightarrow>
          (Some (ErrorWrap ''tcp connect failed: '' (NetOpError m)), Http_SetHealthy h False, w1)
      | Inl err \<Rightarrow> (Some err, Http_SetHealthy h False, w1)
      | Inr resp \<Rightarrow>
          if 200 \<le> hp_Status resp \<and> hp_Status resp < 300 then (None, Http_SetHealthy h True, w1)
          else (Some (ErrorText (''health check failed with status '' @ strconv_Itoa (hp_Status resp))),
                Http_SetHealthy h False, w1))"

text \<open>\<open>CloseIdleConnections\<close> reports nothing.\<close>

definition Http_Close :: "'w env \<Rightarrow> http_backend \<Rightarrow> 'w \<Rightarrow> go_error option \<times> 'w" where
  "Http_Close E h w = (None, snd (env_close E (hb_client h) w))"

text \<open>\<open>parseInt\<close>, which nothing calls.\<close>

definition parseInt :: "string \<Rightarrow> int \<Rightarrow> int" where
  "parseInt s defaultVal =
     (if s = '''' then defaultVal
      else
        (let neg = (hd s = CHR ''-''); ds = (if hd s = CHR ''-'' \<or> hd s = CHR ''+'' then tl s else s);
             (v, ok) = ParseUint ds; n = (if neg then - uint v else uint v)
         in if ok \<and> in_int64 n then n else defaultVal))"

lemmas http_defs =
  Http_Get_def Http_Set_def Http_Delete_def Http_Exists_def Http_Ping_def

section \<open>The contract\<close>

interpretation http_kv: kv_backend
  "Http_Get E" "Http_Set E" "Http_Delete E" "Http_Exists E" "Http_Ping E"
  hb_healthy Http_SetHealthy Http_ident
  for E :: "'w env"
  by unfold_locales
    (auto simp: http_defs Http_SetHealthy_def Http_ident_def Let_def
      split: if_splits prod.splits option.splits sum.splits go_error.splits)

end
