(* ===== verification/Grpc_Backend.thy ===== *)
theory Grpc_Backend
  imports Externals Config
begin

text \<open>
  Package \<open>internal/storage/grpc\<close>: the client stub (\<open>kvServiceClient\<close>), whose methods call
  the connection with their path, and the backend on it. The server is the environment's.
\<close>

section \<open>State\<close>

record grpc_backend =
  gb_id :: string
  gb_name :: string
  gb_weight :: int
  gb_healthy :: bool
  gb_conn :: nat
  gb_addr :: string
  gb_timeout :: duration
  gb_defaultTTL :: duration

text \<open>What \<open>New\<close> dials with: credentials from a file or none, and the message size.\<close>

record grpc_dial_options =
  gd_TLSFile :: "string option"
  gd_MaxMsgSize :: int

text \<open>\<open>load_creds\<close> reads a certificate file, \<open>dial\<close> is \<open>grpc.DialContext\<close> with its deadline.\<close>

definition Grpc_New ::
  "(string \<Rightarrow> 'w \<Rightarrow> go_error option \<times> 'w) \<Rightarrow>
   (string \<Rightarrow> grpc_dial_options \<Rightarrow> duration \<Rightarrow> 'w \<Rightarrow> (go_error + nat) \<times> 'w) \<Rightarrow>
   string \<Rightarrow> string \<Rightarrow> int \<Rightarrow> GRPCBackendConfig option \<Rightarrow> 'w \<Rightarrow> (go_error + grpc_backend) \<times> 'w" where
  "Grpc_New load_creds dial i name weight cfg0 w =
     (case cfg0 of
        None \<Rightarrow> (Inl (ErrorText ''grpc config is required''), w)
      | Some cfg \<Rightarrow>
          if gbc_Addr cfg = '''' then (Inl (ErrorText ''addr is required for grpc backend''), w)
          else
            (let timeout = ParseDuration (gbc_Timeout cfg) (10 * Second);
                 maxMsgSize = (if gbc_MaxMsgSize cfg = 0 then 4 * 1024 * 1024 else gbc_MaxMsgSize cfg);
                 tls = gbc_UseTLS cfg \<and> gbc_CertFile cfg \<noteq> '''';
                 (cred_err, w1) = (if tls then load_creds (gbc_CertFile cfg) w else (None, w))
             in case cred_err of
                  Some err \<Rightarrow> (Inl (ErrorWrap ''failed to load TLS credentials: '' err), w1)
                | None \<Rightarrow>
                    (let (r, w2) =
                       dial (gbc_Addr cfg)
                         \<lparr>gd_TLSFile = (if tls then Some (gbc_CertFile cfg) else None),
                          gd_MaxMsgSize = maxMsgSize\<rparr> timeout w1
                     in case r of
                          Inl err \<Rightarrow> (Inl (ErrorWrap ''failed to connect to grpc server: '' err), w2)
                        | Inr conn \<Rightarrow>
                            (Inr \<lparr>gb_id = i, gb_name = name, gb_weight = weight, gb_healthy = True,
                                  gb_conn = conn, gb_addr = gbc_Addr cfg, gb_timeout = timeout,
                                  gb_defaultTTL = 5 * Minute\<rparr>, w2))))"

section \<open>The client stub\<close>

definition kvClient_Get :: "'w env \<Rightarrow> nat \<Rightarrow> string \<Rightarrow> 'w \<Rightarrow> (go_error + grpc_get_response) \<times> 'w" where
  "kvClient_Get E cc k w = env_grpc_get E cc ''/kv.KVService/Get'' k w"

definition kvClient_Set :: "'w env \<Rightarrow> nat \<Rightarrow> grpc_set_request \<Rightarrow> 'w \<Rightarrow> (go_error + bool) \<times> 'w" where
  "kvClient_Set E cc req w = env_grpc_set E cc ''/kv.KVService/Set'' req w"

definition kvClient_Delete :: "'w env \<Rightarrow> nat \<Rightarrow> string \<Rightarrow> 'w \<Rightarrow> (go_error + bool) \<times> 'w" where
  "kvClient_Delete E cc k w = env_grpc_delete E cc ''/kv.KVService/Delete'' k w"

definition kvClient_Exists :: "'w env \<Rightarrow> nat \<Rightarrow> string \<Rightarrow> 'w \<Rightarrow> (go_error + bool) \<times> 'w" where
  "kvClient_Exists E cc k w = env_grpc_exists E cc ''/kv.KVService/Exists'' k w"

definition kvClient_Ping :: "'w env \<Rightarrow> nat \<Rightarrow> 'w \<Rightarrow> (go_error + bool) \<times> 'w" where
  "kvClient_Ping E cc w = env_grpc_ping E cc ''/kv.KVService/Ping'' w"

section \<open>Operations\<close>

definition Grpc_ident :: "grpc_backend \<Rightarrow> identity" where
  "Grpc_ident g =
     \<lparr>id_ID = gb_id g, id_Type = BackendType_string BackendTypeGRPC, id_Name = gb_name g,
      id_Weight = gb_weight g\<rparr>"

definition Grpc_SetHealthy :: "grpc_backend \<Rightarrow> bool \<Rightarrow> grpc_backend" where
  "Grpc_SetHealthy g h = g\<lparr>gb_healthy := h\<rparr>"

definition Grpc_GetAddr :: "grpc_backend \<Rightarrow> string" where
  "Grpc_GetAddr g = gb_addr g"

definition Grpc_Get ::
  "'w env \<Rightarrow> grpc_backend \<Rightarrow> string \<Rightarrow> 'w \<Rightarrow> (go_error + entry) \<times> grpc_backend \<times> 'w" where
  "Grpc_Get E g k w =
     (if \<not> gb_healthy g then (Inl ErrBackendUnhealthy, g, w)
      else
        (let (r, w') = kvClient_Get E (gb_conn g) k w in
         case r of
           Inl err \<Rightarrow> (Inl (ErrorWrap (''grpc get failed for key '' @ k @ '': '') err), g, w')
         | Inr resp \<Rightarrow>
             if \<not> gg_Found resp then (Inl ErrKeyNotFound, g, w')
             else (Inr \<lparr>entry_Key = k, entry_Value = gg_Value resp, entry_Version = gg_Version resp,
                        entry_TTL = 0\<rparr>, g, w')))"

definition Grpc_Set ::
  "'w env \<Rightarrow> grpc_backend \<Rightarrow> entry \<Rightarrow> 'w \<Rightarrow> go_error option \<times> grpc_backend \<times> 'w" where
  "Grpc_Set E g e w =
     (if \<not> gb_healthy g then (Some ErrBackendUnhealthy, g, w)
      else
        (let ttl = (if entry_TTL e \<le> 0 then gb_defaultTTL g else entry_TTL e);
             (r, w') = kvClient_Set E (gb_conn g)
                         \<lparr>gs_Key = entry_Key e, gs_Value = entry_Value e, gs_Ttl = ttl\<rparr> w
         in case r of
              Inl err \<Rightarrow> (Some (ErrorWrap (''grpc set failed for key '' @ entry_Key e @ '': '') err), g, w')
            | Inr success \<Rightarrow>
                ((if \<not> success then Some (ErrorText (''grpc set failed for key '' @ entry_Key e)) else None),
                 g, w')))"

definition Grpc_Delete ::
  "'w env \<Rightarrow> grpc_backend \<Rightarrow> string \<Rightarrow> 'w \<Rightarrow> go_error option \<times> grpc_backend \<times> 'w" where
  "Grpc_Delete E g k w =
     (if \<not> gb_healthy g then (Some ErrBackendUnhealthy, g, w)
      else
        (let (r, w') = kvClient_Delete E (gb_conn g) k w in
         case r of
           Inl err \<Rightarrow> (Some (ErrorWrap (''grpc delete failed for key '' @ k @ '': '') err), g, w')
         | Inr success \<Rightarrow>
             ((if \<not> success then Some (ErrorText (''grpc delete failed for key '' @ k)) else None), g, w')))"

definition Grpc_Exists ::
  "'w env \<Rightarrow> grpc_backend \<Rightarrow> string \<Rightarrow> 'w \<Rightarrow> (go_error + bool) \<times> grpc_backend \<times> 'w" where
  "Grpc_Exists E g k w =
     (if \<not> gb_healthy g then (Inl ErrBackendUnhealthy, g, w)
      else
        (let (r, w') = kvClient_Exists E (gb_conn g) k w in
         case r of
           Inl err \<Rightarrow> (Inl (ErrorWrap (''grpc exists failed for key '' @ k @ '': '') err), g, w')
         | Inr x \<Rightarrow> (Inr x, g, w')))"

definition Grpc_Ping ::
  "'w env \<Rightarrow> grpc_backend \<Rightarrow> 'w \<Rightarrow> go_error option \<times> grpc_backend \<times> 'w" where
  "Grpc_Ping E g w =
     (let (r, w') = kvClient_Ping E (gb_conn g) w in
      case r of
        Inl (NetOpError m) \<Rightarrow>
          (Some (ErrorWrap ''tcp connect failed: '' (NetOpError m)), Grpc_SetHealthy g False, w')
      | Inl err \<Rightarrow> (Some err, Grpc_SetHealthy g False, w')
      | Inr _ \<Rightarrow> (None, Grpc_SetHealthy g True, w'))"

definition Grpc_Close :: "'w env \<Rightarrow> grpc_backend \<Rightarrow> 'w \<Rightarrow> go_error option \<times> 'w" where
  "Grpc_Close E g w = env_close E (gb_conn g) w"

lemmas grpc_defs =
  Grpc_Get_def Grpc_Set_def Grpc_Delete_def Grpc_Exists_def Grpc_Ping_def

section \<open>The contract\<close>

interpretation grpc_kv: kv_backend
  "Grpc_Get E" "Grpc_Set E" "Grpc_Delete E" "Grpc_Exists E" "Grpc_Ping E"
  gb_healthy Grpc_SetHealthy Grpc_ident
  for E :: "'w env"
  by unfold_locales
    (auto simp: grpc_defs Grpc_SetHealthy_def Grpc_ident_def Let_def
      split: if_splits prod.splits option.splits sum.splits go_error.splits)

end
