(* ===== verification/Backends.thy ===== *)
theory Backends
  imports Memory_Backend Redis_Backend Http_Backend Grpc_Backend
begin

text \<open>
  A value of the interface \<open>storage.Backend\<close>: a pointer to one of the four kinds of backend.
  The objects live in a heap, so the router, the health checker and the cache service see
  each other's changes to an object they share, as the Go program does. The methods
  dispatch on the kind; the contract of \<open>kv_backend\<close> holds for the dispatch because it holds
  for every kind.
\<close>

section \<open>Dispatch\<close>

datatype backend =
    MemoryBackend memory_backend
  | RedisBackend redis_backend
  | HTTPBackend http_backend
  | GRPCBackend grpc_backend

definition on_object :: "('b \<Rightarrow> backend) \<Rightarrow> 'r \<times> 'b \<times> 'w \<Rightarrow> 'r \<times> backend \<times> 'w" where
  "on_object C x = (let (r, b, w) = x in (r, C b, w))"

definition Backend_ident :: "backend \<Rightarrow> identity" where
  "Backend_ident b =
     (case b of
        MemoryBackend m \<Rightarrow> Memory_ident m
      | RedisBackend r \<Rightarrow> Redis_ident r
      | HTTPBackend h \<Rightarrow> Http_ident h
      | GRPCBackend g \<Rightarrow> Grpc_ident g)"

definition Backend_Healthy :: "backend \<Rightarrow> bool" where
  "Backend_Healthy b =
     (case b of
        MemoryBackend m \<Rightarrow> mb_healthy m
      | RedisBackend r \<Rightarrow> rb_healthy r
      | HTTPBackend h \<Rightarrow> hb_healthy h
      | GRPCBackend g \<Rightarrow> gb_healthy g)"

definition Backend_SetHealthy :: "backend \<Rightarrow> bool \<Rightarrow> backend" where
  "Backend_SetHealthy b x =
     (case b of
        MemoryBackend m \<Rightarrow> MemoryBackend (Memory_SetHealthy m x)
      | RedisBackend r \<Rightarrow> RedisBackend (Redis_SetHealthy r x)
      | HTTPBackend h \<Rightarrow> HTTPBackend (Http_SetHealthy h x)
      | GRPCBackend g \<Rightarrow> GRPCBackend (Grpc_SetHealthy g x))"

definition Backend_Get :: "'w env \<Rightarrow> backend \<Rightarrow> string \<Rightarrow> 'w \<Rightarrow> (go_error + entry) \<times> backend \<times> 'w" where
  "Backend_Get E b k w =
     (case b of
        MemoryBackend m \<Rightarrow> on_object MemoryBackend (Memory_Get E m k w)
      | RedisBackend r \<Rightarrow> on_object RedisBackend (Redis_Get E r k w)
      | HTTPBackend h \<Rightarrow> on_object HTTPBackend (Http_Get E h k w)
      | GRPCBackend g \<Rightarrow> on_object GRPCBackend (Grpc_Get E g k w))"

definition Backend_Set :: "'w env \<Rightarrow> backend \<Rightarrow> entry \<Rightarrow> 'w \<Rightarrow> go_error option \<times> backend \<times> 'w" where
  "Backend_Set E b e w =
     (case b of
        MemoryBackend m \<Rightarrow> on_object MemoryBackend (Memory_Set E m e w)
      | RedisBackend r \<Rightarrow> on_object RedisBackend (Redis_Set E r e w)
      | HTTPBackend h \<Rightarrow> on_object HTTPBackend (Http_Set E h e w)
      | GRPCBackend g \<Rightarrow> on_object GRPCBackend (Grpc_Set E g e w))"

definition Backend_Delete :: "'w env \<Rightarrow> backend \<Rightarrow> string \<Rightarrow> 'w \<Rightarrow> go_error option \<times> backend \<times> 'w" where
  "Backend_Delete E b k w =
     (case b of
        MemoryBackend m \<Rightarrow> on_object MemoryBackend (Memory_Delete E m k w)
      | RedisBackend r \<Rightarrow> on_object RedisBackend (Redis_Delete E r k w)
      | HTTPBackend h \<Rightarrow> on_object HTTPBackend (Http_Delete E h k w)
      | GRPCBackend g \<Rightarrow> on_object GRPCBackend (Grpc_Delete E g k w))"

definition Backend_Exists :: "'w env \<Rightarrow> backend \<Rightarrow> string \<Rightarrow> 'w \<Rightarrow> (go_error + bool) \<times> backend \<times> 'w" where
  "Backend_Exists E b k w =
     (case b of
        MemoryBackend m \<Rightarrow> on_object MemoryBackend (Memory_Exists E m k w)
      | RedisBackend r \<Rightarrow> on_object RedisBackend (Redis_Exists E r k w)
      | HTTPBackend h \<Rightarrow> on_object HTTPBackend (Http_Exists E h k w)
      | GRPCBackend g \<Rightarrow> on_object GRPCBackend (Grpc_Exists E g k w))"

definition Backend_Ping :: "'w env \<Rightarrow> backend \<Rightarrow> 'w \<Rightarrow> go_error option \<times> backend \<times> 'w" where
  "Backend_Ping E b w =
     (case b of
        MemoryBackend m \<Rightarrow> on_object MemoryBackend (Memory_Ping m w)
      | RedisBackend r \<Rightarrow> on_object RedisBackend (Redis_Ping E r w)
      | HTTPBackend h \<Rightarrow> on_object HTTPBackend (Http_Ping E h w)
      | GRPCBackend g \<Rightarrow> on_object GRPCBackend (Grpc_Ping E g w))"

definition Backend_Close :: "'w env \<Rightarrow> backend \<Rightarrow> 'w \<Rightarrow> go_error option \<times> 'w" where
  "Backend_Close E b w =
     (case b of
        MemoryBackend m \<Rightarrow> Memory_Close E m w
      | RedisBackend r \<Rightarrow> Redis_Close E r w
      | HTTPBackend h \<Rightarrow> Http_Close E h w
      | GRPCBackend g \<Rightarrow> Grpc_Close E g w)"

lemmas dispatch_defs =
  Backend_ident_def Backend_Healthy_def Backend_SetHealthy_def Backend_Get_def Backend_Set_def
  Backend_Delete_def Backend_Exists_def Backend_Ping_def on_object_def

lemmas kind_down =
  memory_kv.get_down redis_kv.get_down http_kv.get_down grpc_kv.get_down
  memory_kv.set_down redis_kv.set_down http_kv.set_down grpc_kv.set_down
  memory_kv.del_down redis_kv.del_down http_kv.del_down grpc_kv.del_down
  memory_kv.exists_down redis_kv.exists_down http_kv.exists_down grpc_kv.exists_down

lemmas kind_frame =
  memory_kv.get_frame redis_kv.get_frame http_kv.get_frame grpc_kv.get_frame
  memory_kv.set_frame redis_kv.set_frame http_kv.set_frame grpc_kv.set_frame
  memory_kv.del_frame redis_kv.del_frame http_kv.del_frame grpc_kv.del_frame
  memory_kv.exists_frame redis_kv.exists_frame http_kv.exists_frame grpc_kv.exists_frame
  memory_kv.ping_frame redis_kv.ping_frame http_kv.ping_frame grpc_kv.ping_frame

lemmas kind_laws =
  memory_kv.get_entry redis_kv.get_entry http_kv.get_entry grpc_kv.get_entry
  memory_kv.ping_health redis_kv.ping_health http_kv.ping_health grpc_kv.ping_health

lemmas kind_set_healthy [simp] =
  memory_kv.set_healthy_health redis_kv.set_healthy_health http_kv.set_healthy_health
  grpc_kv.set_healthy_health memory_kv.set_healthy_ident redis_kv.set_healthy_ident
  http_kv.set_healthy_ident grpc_kv.set_healthy_ident

interpretation dispatch_kv: kv_backend
  "Backend_Get E" "Backend_Set E" "Backend_Delete E" "Backend_Exists E" "Backend_Ping E"
  Backend_Healthy Backend_SetHealthy Backend_ident
  for E :: "'w env"
proof unfold_locales
  fix b :: backend and k e and w :: 'w
  show "\<not> Backend_Healthy b \<Longrightarrow> Backend_Get E b k w = (Inl ErrBackendUnhealthy, b, w)"
    by (cases b) (simp_all add: dispatch_defs kind_down)
  show "\<not> Backend_Healthy b \<Longrightarrow> Backend_Set E b e w = (Some ErrBackendUnhealthy, b, w)"
    by (cases b) (simp_all add: dispatch_defs kind_down)
  show "\<not> Backend_Healthy b \<Longrightarrow> Backend_Delete E b k w = (Some ErrBackendUnhealthy, b, w)"
    by (cases b) (simp_all add: dispatch_defs kind_down)
  show "\<not> Backend_Healthy b \<Longrightarrow> Backend_Exists E b k w = (Inl ErrBackendUnhealthy, b, w)"
    by (cases b) (simp_all add: dispatch_defs kind_down)
next
  fix b b' :: backend and k and w w' :: 'w and r
  assume "Backend_Get E b k w = (r, b', w')"
  then show "Backend_Healthy b' = Backend_Healthy b \<and> Backend_ident b' = Backend_ident b"
    by (cases b) (auto simp: dispatch_defs dest: kind_frame split: prod.splits)
next
  fix b b' :: backend and e and w w' :: 'w and err
  assume "Backend_Set E b e w = (err, b', w')"
  then show "Backend_Healthy b' = Backend_Healthy b \<and> Backend_ident b' = Backend_ident b"
    by (cases b) (auto simp: dispatch_defs dest: kind_frame split: prod.splits)
next
  fix b b' :: backend and k and w w' :: 'w and err
  assume "Backend_Delete E b k w = (err, b', w')"
  then show "Backend_Healthy b' = Backend_Healthy b \<and> Backend_ident b' = Backend_ident b"
    by (cases b) (auto simp: dispatch_defs dest: kind_frame split: prod.splits)
next
  fix b b' :: backend and k and w w' :: 'w and x
  assume "Backend_Exists E b k w = (x, b', w')"
  then show "Backend_Healthy b' = Backend_Healthy b \<and> Backend_ident b' = Backend_ident b"
    by (cases b) (auto simp: dispatch_defs dest: kind_frame split: prod.splits)
next
  fix b b' :: backend and k and w w' :: 'w and e
  assume "Backend_Get E b k w = (Inr e, b', w')"
  then show "entry_Key e = k \<and> entry_TTL e = 0"
    by (cases b) (auto simp: dispatch_defs dest: kind_laws split: prod.splits)
next
  fix b b' :: backend and w w' :: 'w and err
  assume p: "Backend_Ping E b w = (err, b', w')"
  then show "Backend_ident b' = Backend_ident b"
    by (cases b) (auto simp: dispatch_defs dest: kind_frame split: prod.splits)
  from p show "Backend_Healthy b' \<longleftrightarrow> err = None"
    by (cases b) (auto simp: dispatch_defs dest: kind_laws split: prod.splits)
next
  fix b :: backend and h
  show "Backend_Healthy (Backend_SetHealthy b h) = h" "Backend_ident (Backend_SetHealthy b h) = Backend_ident b"
    by (cases b; simp add: dispatch_defs)+
qed

section \<open>Objects in the heap\<close>

type_synonym bref = nat

record 'w heap_ctx = "'w ctx" +
  heap :: "bref \<Rightarrow> backend"

definition obj_ID :: "(bref \<Rightarrow> backend) \<Rightarrow> bref \<Rightarrow> string" where
  "obj_ID h p = id_ID (Backend_ident (h p))"

definition obj_Weight :: "(bref \<Rightarrow> backend) \<Rightarrow> bref \<Rightarrow> int" where
  "obj_Weight h p = id_Weight (Backend_ident (h p))"

definition obj_Healthy :: "(bref \<Rightarrow> backend) \<Rightarrow> bref \<Rightarrow> bool" where
  "obj_Healthy h p = Backend_Healthy (h p)"

text \<open>A method call through a pointer: it runs on the object and writes the object back.\<close>

definition obj_call ::
  "(backend \<Rightarrow> 'w \<Rightarrow> 'r \<times> backend \<times> 'w) \<Rightarrow> bref \<Rightarrow> ('w, 'z) heap_ctx_scheme \<Rightarrow> 'r \<times> ('w, 'z) heap_ctx_scheme" where
  "obj_call op p c = (let (r, b, w) = op (heap c p) (world c) in (r, c\<lparr>world := w, heap := (heap c)(p := b)\<rparr>))"

definition obj_Get :: "'w env \<Rightarrow> bref \<Rightarrow> string \<Rightarrow> ('w, 'z) heap_ctx_scheme \<Rightarrow> (go_error + entry) \<times> ('w, 'z) heap_ctx_scheme" where
  "obj_Get E p k = obj_call (\<lambda>b. Backend_Get E b k) p"

definition obj_Set :: "'w env \<Rightarrow> bref \<Rightarrow> entry \<Rightarrow> ('w, 'z) heap_ctx_scheme \<Rightarrow> go_error option \<times> ('w, 'z) heap_ctx_scheme" where
  "obj_Set E p e = obj_call (\<lambda>b. Backend_Set E b e) p"

definition obj_Delete :: "'w env \<Rightarrow> bref \<Rightarrow> string \<Rightarrow> ('w, 'z) heap_ctx_scheme \<Rightarrow> go_error option \<times> ('w, 'z) heap_ctx_scheme" where
  "obj_Delete E p k = obj_call (\<lambda>b. Backend_Delete E b k) p"

definition obj_Ping :: "'w env \<Rightarrow> bref \<Rightarrow> ('w, 'z) heap_ctx_scheme \<Rightarrow> go_error option \<times> ('w, 'z) heap_ctx_scheme" where
  "obj_Ping E p = obj_call (Backend_Ping E) p"

definition obj_SetHealthy :: "bref \<Rightarrow> bool \<Rightarrow> ('w, 'z) heap_ctx_scheme \<Rightarrow> ('w, 'z) heap_ctx_scheme" where
  "obj_SetHealthy p x c = c\<lparr>heap := (heap c)(p := Backend_SetHealthy (heap c p) x)\<rparr>"

text \<open>
  Identities never change, and only the ping and \<open>SetHealthy\<close> change a health flag: the two
  views of the heap that routing reads.
\<close>

definition same_view :: "('w, 'z) heap_ctx_scheme \<Rightarrow> ('w, 'z) heap_ctx_scheme \<Rightarrow> bool" where
  "same_view c c' \<longleftrightarrow>
     (\<forall>p. Backend_ident (heap c' p) = Backend_ident (heap c p) \<and>
          Backend_Healthy (heap c' p) = Backend_Healthy (heap c p)) \<and>
     mtr c' = mtr c \<and> heap_ctx.more c' = heap_ctx.more c"

lemma obj_Get_view [frame]: "obj_Get E p k c = (r, c') \<Longrightarrow> same_view c c'"
  by (auto simp: obj_Get_def obj_call_def same_view_def dest: dispatch_kv.get_frame split: prod.splits if_splits)

lemma obj_Set_view [frame]: "obj_Set E p e c = (r, c') \<Longrightarrow> same_view c c'"
  by (auto simp: obj_Set_def obj_call_def same_view_def dest: dispatch_kv.set_frame split: prod.splits if_splits)

lemma obj_Delete_view [frame]: "obj_Delete E p k c = (r, c') \<Longrightarrow> same_view c c'"
  by (auto simp: obj_Delete_def obj_call_def same_view_def dest: dispatch_kv.del_frame split: prod.splits if_splits)

lemma same_view_refl [simp]: "same_view c c"
  by (simp add: same_view_def)

lemma same_view_trans [trans]: "same_view c c' \<Longrightarrow> same_view c' c'' \<Longrightarrow> same_view c c''"
  by (simp add: same_view_def)

lemma obj_Get_entry: "obj_Get E p k c = (Inr e, c') \<Longrightarrow> entry_Key e = k \<and> entry_TTL e = 0"
  by (auto simp: obj_Get_def obj_call_def dest: dispatch_kv.get_entry split: prod.splits)

lemma obj_Get_healthy: "obj_Get E p k c = (Inr e, c') \<Longrightarrow> obj_Healthy (heap c) p"
  by (auto simp: obj_Get_def obj_call_def obj_Healthy_def dest: dispatch_kv.found_on_healthy split: prod.splits)

lemma obj_Get_down: "\<not> obj_Healthy (heap c) p \<Longrightarrow> obj_Get E p k c = (Inl ErrBackendUnhealthy, c)"
  by (simp add: obj_Get_def obj_call_def obj_Healthy_def dispatch_kv.get_down)

lemma obj_Set_down: "\<not> obj_Healthy (heap c) p \<Longrightarrow> obj_Set E p e c = (Some ErrBackendUnhealthy, c)"
  by (simp add: obj_Set_def obj_call_def obj_Healthy_def dispatch_kv.set_down)

lemma obj_Delete_down: "\<not> obj_Healthy (heap c) p \<Longrightarrow> obj_Delete E p k c = (Some ErrBackendUnhealthy, c)"
  by (simp add: obj_Delete_def obj_call_def obj_Healthy_def dispatch_kv.del_down)

end
