(* ===== verification/Load_Balancer.thy ===== *)
theory Load_Balancer
  imports Backends
begin

text \<open>
  \<open>internal/router/loadbalancer.go\<close>. The balancer holds pointers; which of them are healthy
  is read from the heap at every call. The random source is the environment's, of which
  \<open>Intn(n)\<close> promises a number in \<open>0 ..< n\<close> (\<open>Intn_ok\<close>). The lemmas: what \<open>Next\<close> returns
  is registered and healthy whatever the strategy, it fails exactly when nothing is
  healthy, and round-robin serves every healthy backend once per round.
\<close>

section \<open>State\<close>

datatype LoadBalancerStrategy =
  StrategyRoundRobin | StrategyWeighted | StrategyRandom | StrategyLeastConn | Strategy_other string

record load_balancer =
  lb_strategy :: LoadBalancerStrategy
  lb_backends :: "bref list"
  lb_counter :: u64

definition NewLoadBalancer :: "LoadBalancerStrategy \<Rightarrow> load_balancer" where
  "NewLoadBalancer s = \<lparr>lb_strategy = s, lb_backends = [], lb_counter = 0\<rparr>"

definition LB_SetBackends :: "(bref \<Rightarrow> backend) \<Rightarrow> bref list \<Rightarrow> load_balancer \<Rightarrow> load_balancer" where
  "LB_SetBackends h ps lb = lb\<lparr>lb_backends := filter (obj_Healthy h) ps\<rparr>"

definition LB_AddBackend :: "(bref \<Rightarrow> backend) \<Rightarrow> bref \<Rightarrow> load_balancer \<Rightarrow> load_balancer" where
  "LB_AddBackend h p lb =
     (if (\<exists>q \<in> set (lb_backends lb). obj_ID h q = obj_ID h p) then lb
      else if obj_Healthy h p then lb\<lparr>lb_backends := lb_backends lb @ [p]\<rparr>
      else lb)"

fun remove_first :: "('a \<Rightarrow> bool) \<Rightarrow> 'a list \<Rightarrow> 'a list" where
  "remove_first P [] = []"
| "remove_first P (x # xs) = (if P x then xs else x # remove_first P xs)"

definition LB_RemoveBackend :: "(bref \<Rightarrow> backend) \<Rightarrow> string \<Rightarrow> load_balancer \<Rightarrow> load_balancer" where
  "LB_RemoveBackend h i lb = lb\<lparr>lb_backends := remove_first (\<lambda>p. obj_ID h p = i) (lb_backends lb)\<rparr>"

definition LB_GetAll :: "load_balancer \<Rightarrow> bref list" where
  "LB_GetAll lb = lb_backends lb"

section \<open>Choosing\<close>

definition getHealthyBackends :: "(bref \<Rightarrow> backend) \<Rightarrow> load_balancer \<Rightarrow> bref list" where
  "getHealthyBackends h lb = filter (obj_Healthy h) (lb_backends lb)"

definition roundRobin :: "load_balancer \<Rightarrow> bref list \<Rightarrow> (go_error + bref) \<times> load_balancer" where
  "roundRobin lb ps =
     (if ps = [] then (Inl ErrBackendUnhealthy, lb)
      else
        (let n = lb_counter lb + 1; idx = nat (int_of_uint64 (n mod of_nat (length ps)))
         in (Inr (ps ! idx), lb\<lparr>lb_counter := n\<rparr>)))"

definition lb_random :: "'w env \<Rightarrow> bref list \<Rightarrow> 'w \<Rightarrow> (go_error + bref) \<times> 'w" where
  "lb_random E ps w =
     (if ps = [] then (Inl ErrBackendUnhealthy, w)
      else (let (i, w') = env_Intn E (int (length ps)) w in (Inr (ps ! nat i), w')))"

definition effective_weight :: "(bref \<Rightarrow> backend) \<Rightarrow> bref \<Rightarrow> int" where
  "effective_weight h p = (if obj_Weight h p \<le> 0 then 1 else obj_Weight h p)"

fun total_weight :: "(bref \<Rightarrow> backend) \<Rightarrow> bref list \<Rightarrow> int \<Rightarrow> int" where
  "total_weight h [] acc = acc"
| "total_weight h (p # ps) acc = total_weight h ps (wrap64 (acc + effective_weight h p))"

fun weighted_pick :: "(bref \<Rightarrow> backend) \<Rightarrow> bref list \<Rightarrow> int \<Rightarrow> bref option" where
  "weighted_pick h [] r = None"
| "weighted_pick h (p # ps) r =
     (let r' = r - effective_weight h p in if r' < 0 then Some p else weighted_pick h ps r')"

definition weightedRandom :: "'w env \<Rightarrow> (bref \<Rightarrow> backend) \<Rightarrow> bref list \<Rightarrow> 'w \<Rightarrow> (go_error + bref) \<times> 'w" where
  "weightedRandom E h ps w =
     (if ps = [] then (Inl ErrBackendUnhealthy, w)
      else
        (let total = total_weight h ps 0 in
         if total \<le> 0 then lb_random E ps w
         else
           (let (r, w') = env_Intn E total w in
            case weighted_pick h ps r of
              Some p \<Rightarrow> (Inr p, w')
            | None \<Rightarrow> (Inr (last ps), w'))))"

definition LB_Next ::
  "'w env \<Rightarrow> load_balancer \<Rightarrow> ('w, 'z) heap_ctx_scheme \<Rightarrow> (go_error + bref) \<times> load_balancer \<times> ('w, 'z) heap_ctx_scheme" where
  "LB_Next E lb c =
     (let ps = getHealthyBackends (heap c) lb in
      if ps = [] then (Inl ErrBackendUnhealthy, lb, c)
      else
        (case lb_strategy lb of
           StrategyRoundRobin \<Rightarrow> (let (r, lb') = roundRobin lb ps in (r, lb', c))
         | StrategyWeighted \<Rightarrow> (let (r, w) = weightedRandom E (heap c) ps (world c) in (r, lb, c\<lparr>world := w\<rparr>))
         | StrategyRandom \<Rightarrow> (let (r, w) = lb_random E ps (world c) in (r, lb, c\<lparr>world := w\<rparr>))
         | _ \<Rightarrow> (let (r, w) = weightedRandom E (heap c) ps (world c) in (r, lb, c\<lparr>world := w\<rparr>))))"

section \<open>Laws\<close>

text \<open>What \<open>math/rand\<close> documents of \<open>Intn\<close>.\<close>

definition Intn_ok :: "'w env \<Rightarrow> bool" where
  "Intn_ok E \<longleftrightarrow> (\<forall>n w. 0 < n \<longrightarrow> 0 \<le> fst (env_Intn E n w) \<and> fst (env_Intn E n w) < n)"

lemma remove_first_subset: "set (remove_first P xs) \<subseteq> set xs"
  by (induction xs) auto

lemma remove_first_none: "(\<forall>x \<in> set xs. \<not> P x) \<Longrightarrow> remove_first P xs = xs"
  by (induction xs) auto

text \<open>One entry for each ID, which adding and removing keep.\<close>

definition lb_distinct :: "(bref \<Rightarrow> backend) \<Rightarrow> load_balancer \<Rightarrow> bool" where
  "lb_distinct h lb \<longleftrightarrow> distinct (map (obj_ID h) (lb_backends lb))"

lemma lb_distinct_New [keeps]: "lb_distinct h (NewLoadBalancer s)"
  by (simp add: lb_distinct_def NewLoadBalancer_def)

lemma lb_distinct_Add [keeps]: "lb_distinct h lb \<Longrightarrow> lb_distinct h (LB_AddBackend h p lb)"
  by (auto simp: lb_distinct_def LB_AddBackend_def)

lemma distinct_remove_first: "distinct (map f xs) \<Longrightarrow> distinct (map f (remove_first P xs))"
  by (induction xs) (auto dest: subsetD [OF remove_first_subset])

lemma lb_distinct_Remove [keeps]: "lb_distinct h lb \<Longrightarrow> lb_distinct h (LB_RemoveBackend h i lb)"
  by (simp add: lb_distinct_def LB_RemoveBackend_def distinct_remove_first)

lemma LB_RemoveBackend_removes:
  assumes "lb_distinct h lb"
  shows "i \<notin> obj_ID h ` set (lb_backends (LB_RemoveBackend h i lb))"
proof -
  have "distinct (map f xs) \<Longrightarrow> i \<notin> f ` set (remove_first (\<lambda>x. f x = i) xs)" for f :: "bref \<Rightarrow> string" and xs
    by (induction xs) auto
  with assms show ?thesis by (simp add: lb_distinct_def LB_RemoveBackend_def)
qed

lemma weighted_pick_mem: "weighted_pick h ps r = Some p \<Longrightarrow> p \<in> set ps"
  by (induction ps arbitrary: r) (auto simp: Let_def split: if_splits)

lemma weightedRandom_mem:
  assumes "ps \<noteq> []" "Intn_ok E"
  shows "\<exists>p w'. weightedRandom E h ps w = (Inr p, w') \<and> p \<in> set ps"
proof (cases "total_weight h ps 0 \<le> 0")
  case True
  from assms have "nat (fst (env_Intn E (int (length ps)) w)) < length ps"
    by (auto simp: Intn_ok_def nat_less_iff)
  with True assms(1) show ?thesis
    by (auto simp: weightedRandom_def lb_random_def Let_def split: prod.splits)
next
  case False
  with assms(1) show ?thesis
    by (auto simp: weightedRandom_def Let_def weighted_pick_mem split: prod.splits option.splits)
qed

lemma lb_random_mem:
  assumes "ps \<noteq> []" "Intn_ok E"
  shows "\<exists>p w'. lb_random E ps w = (Inr p, w') \<and> p \<in> set ps"
proof -
  from assms have "nat (fst (env_Intn E (int (length ps)) w)) < length ps"
    by (auto simp: Intn_ok_def nat_less_iff)
  with assms(1) show ?thesis by (auto simp: lb_random_def split: prod.splits)
qed

lemma roundRobin_index:
  assumes "ps \<noteq> []" "length ps < 2 ^ 63"
  shows "roundRobin lb ps =
    (Inr (ps ! (unat (lb_counter lb + 1) mod length ps)), lb\<lparr>lb_counter := lb_counter lb + 1\<rparr>)"
proof -
  let ?m = "(lb_counter lb + 1) mod of_nat (length ps) :: u64"
  have l: "unat (of_nat (length ps) :: u64) = length ps"
    using assms(2) by (simp add: unat_of_nat take_bit_nat_eq_self)
  then have um: "unat ?m = unat (lb_counter lb + 1) mod length ps" by (simp add: unat_mod_distrib)
  moreover have "\<dots> < length ps" using assms(1) by simp
  ultimately have lt: "unat ?m < 2 ^ 63" using assms(2) by linarith
  from int_of_uint64_small [OF lt] um assms(1) show ?thesis by (simp add: roundRobin_def Let_def)
qed

section \<open>Rounds\<close>

fun Next_times ::
  "'w env \<Rightarrow> nat \<Rightarrow> load_balancer \<Rightarrow> ('w, 'z) heap_ctx_scheme \<Rightarrow> (go_error + bref) list \<times> load_balancer" where
  "Next_times E 0 lb c = ([], lb)"
| "Next_times E (Suc n) lb c =
     (let (r, lb', c') = LB_Next E lb c; (rs, lb'') = Next_times E n lb' c' in (r # rs, lb''))"

lemma Next_RoundRobin:
  assumes "lb_strategy lb = StrategyRoundRobin" "getHealthyBackends (heap c) lb \<noteq> []"
    "length (lb_backends lb) < 2 ^ 63"
  shows "LB_Next E lb c =
    (Inr (getHealthyBackends (heap c) lb ! (unat (lb_counter lb + 1) mod length (getHealthyBackends (heap c) lb))),
     lb\<lparr>lb_counter := lb_counter lb + 1\<rparr>, c)"
proof -
  have "length (getHealthyBackends (heap c) lb) < 2 ^ 63"
    unfolding getHealthyBackends_def by (rule le_less_trans [OF length_filter_le assms(3)])
  from roundRobin_index [OF assms(2) this, of lb] assms(1,2) show ?thesis
    by (simp add: LB_Next_def Let_def)
qed

lemma Next_times_RoundRobin:
  assumes "lb_strategy lb = StrategyRoundRobin" "getHealthyBackends (heap c) lb = ps" "ps \<noteq> []"
    "length (lb_backends lb) < 2 ^ 63" "unat (lb_counter lb) + n < 2 ^ 64"
  shows "fst (Next_times E n lb c) =
    map (\<lambda>i. Inr (ps ! ((unat (lb_counter lb) + 1 + i) mod length ps))) [0..<n]"
  using assms
proof (induction n arbitrary: lb)
  case 0
  then show ?case by simp
next
  case (Suc n)
  let ?lb = "lb\<lparr>lb_counter := lb_counter lb + 1\<rparr>"
  from Suc.prems(5) have c: "unat (lb_counter lb + 1) = unat (lb_counter lb) + 1"
    by (subst unat_add_lem [THEN iffD1]) simp_all
  have h: "getHealthyBackends (heap c) ?lb = ps" using Suc.prems(2) by (simp add: getHealthyBackends_def)
  have "fst (Next_times E n ?lb c) =
      map (\<lambda>i. Inr (ps ! ((unat (lb_counter ?lb) + 1 + i) mod length ps))) [0..<n]"
    by (rule Suc.IH) (use Suc.prems c h in simp_all)
  moreover have "LB_Next E lb c = (Inr (ps ! ((unat (lb_counter lb) + 1) mod length ps)), ?lb, c)"
    using Next_RoundRobin [of lb c E] Suc.prems c by simp
  ultimately show ?case
    using c by (simp add: split_beta Let_def upt_conv_Cons map_Suc_upt [symmetric] del: upt_Suc)
qed

lemma map_nth_rotate: "map (\<lambda>i. xs ! ((k + i) mod length xs)) [0..<length xs] = rotate k xs"
  by (rule nth_equalityI) (simp_all add: nth_rotate)

lemma roundRobin_mem:
  assumes "ps \<noteq> []" "length ps < 2 ^ 63"
  shows "\<exists>p lb'. roundRobin lb ps = (Inr p, lb') \<and> p \<in> set ps \<and> lb_backends lb' = lb_backends lb"
  using assms by (simp add: roundRobin_index)

section \<open>Weights\<close>

definition weight_sum :: "(bref \<Rightarrow> backend) \<Rightarrow> bref list \<Rightarrow> int" where
  "weight_sum h ps = sum_list (map (effective_weight h) ps)"

lemma effective_weight_pos: "0 < effective_weight h p"
  by (simp add: effective_weight_def)

lemma weight_sum_nonneg: "0 \<le> weight_sum h ps"
  by (induction ps) (simp_all add: weight_sum_def effective_weight_def)

lemma weight_sum_Cons [simp]: "weight_sum h (p # ps) = effective_weight h p + weight_sum h ps"
  by (simp add: weight_sum_def)

lemma weight_sum_Nil [simp]: "weight_sum h [] = 0"
  by (simp add: weight_sum_def)

lemma total_weight_sum:
  "0 \<le> acc \<Longrightarrow> acc + weight_sum h ps < 2 ^ 63 \<Longrightarrow> total_weight h ps acc = acc + weight_sum h ps"
proof (induction ps arbitrary: acc)
  case Nil
  then show ?case by simp
next
  case (Cons p ps)
  have pos: "0 < effective_weight h p" "0 \<le> weight_sum h ps"
    by (rule effective_weight_pos, rule weight_sum_nonneg)
  with Cons.prems have "in_int64 (acc + effective_weight h p)" by (simp add: in_int64_def)
  with Cons pos show ?case by (simp add: wrap64_id)
qed

lemma weighted_pick_None: "ps \<noteq> [] \<Longrightarrow> weighted_pick h ps r = None \<Longrightarrow> weight_sum h ps \<le> r"
proof (induction ps arbitrary: r)
  case Nil
  then show ?case by simp
next
  case (Cons p ps)
  then have r: "effective_weight h p \<le> r" "weighted_pick h ps (r - effective_weight h p) = None"
    by (auto simp: Let_def split: if_splits)
  show ?case
  proof (cases "ps = []")
    case True
    with r show ?thesis by simp
  next
    case False
    from Cons.IH [OF this r(2)] show ?thesis by simp
  qed
qed

text \<open>The numbers that pick a backend form an interval as long as its weight.\<close>

lemma weighted_pick_interval:
  "distinct ps \<Longrightarrow> p \<in> set ps \<Longrightarrow>
   \<exists>a. 0 \<le> a \<and> a + effective_weight h p \<le> weight_sum h ps \<and>
       {r. 0 \<le> r \<and> weighted_pick h ps r = Some p} = {a ..< a + effective_weight h p}"
proof (induction ps)
  case Nil
  then show ?case by simp
next
  case (Cons q ps)
  let ?w = "effective_weight h q"
  have pos: "0 < ?w" by (rule effective_weight_pos)
  show ?case
  proof (cases "p = q")
    case True
    with Cons.prems have "weighted_pick h ps r \<noteq> Some p" for r by (auto dest: weighted_pick_mem)
    with True have "{r. 0 \<le> r \<and> weighted_pick h (q # ps) r = Some p} = {0 ..< 0 + ?w}"
      by (auto simp: Let_def)
    with True weight_sum_nonneg [of h ps] show ?thesis by (intro exI [of _ 0]) simp
  next
    case False
    with Cons obtain a where a: "0 \<le> a" "a + effective_weight h p \<le> weight_sum h ps"
      "{r. 0 \<le> r \<and> weighted_pick h ps r = Some p} = {a ..< a + effective_weight h p}" by auto
    have mem: "0 \<le> x \<and> weighted_pick h ps x = Some p \<longleftrightarrow> a \<le> x \<and> x < a + effective_weight h p" for x
      using a(3) by (simp only: set_eq_iff mem_Collect_eq atLeastLessThan_iff)
    have "(0 \<le> r \<and> weighted_pick h (q # ps) r = Some p) \<longleftrightarrow>
        a + ?w \<le> r \<and> r < a + ?w + effective_weight h p" for r
    proof (cases "r - ?w < 0")
      case True
      with False a(1) show ?thesis by (simp add: Let_def)
    next
      case r: False
      with mem [of "r - ?w"] pos show ?thesis by (simp add: Let_def algebra_simps)
    qed
    then have "{r. 0 \<le> r \<and> weighted_pick h (q # ps) r = Some p} = {a + ?w ..< a + ?w + effective_weight h p}"
      by (simp only: set_eq_iff mem_Collect_eq atLeastLessThan_iff) simp
    with a pos show ?thesis by (intro exI [of _ "a + ?w"]) simp
  qed
qed

end
