(* ===== verification/Go_Glob.thy ===== *)
theory Go_Glob
  imports Go_Prelude
begin

text \<open>
  The pattern matching of the Go standard library that the router calls: UTF-8 decoding
  (\<open>utf8.DecodeRuneInString\<close>), \<open>filepath.Match\<close> on a system whose separator is \<open>/\<close>
  (\<open>scanChunk\<close>, \<open>matchChunk\<close>, \<open>getEsc\<close> and the loop over the chunks), and the match of a
  quoted literal by \<open>regexp\<close>. A pattern error is \<open>None\<close>. The lemmas say what a pattern
  without special characters, and one such pattern followed by a star, match.
\<close>

section \<open>UTF-8\<close>

abbreviation byte_of :: "char \<Rightarrow> nat" where
  "byte_of c \<equiv> of_char c"

definition RuneError :: nat where
  "RuneError = 65533"

definition cont_byte :: "char \<Rightarrow> bool" where
  "cont_byte c \<longleftrightarrow> 128 \<le> byte_of c \<and> byte_of c \<le> 191"

definition low_bits :: "char \<Rightarrow> nat" where
  "low_bits c = byte_of c - 128"

text \<open>The range of the second byte of a sequence that starts with \<open>b0\<close>.\<close>

definition second_byte :: "nat \<Rightarrow> char \<Rightarrow> bool" where
  "second_byte b0 c \<longleftrightarrow>
     (if b0 = 224 then 160 \<le> byte_of c \<and> byte_of c \<le> 191
      else if b0 = 237 then 128 \<le> byte_of c \<and> byte_of c \<le> 159
      else if b0 = 240 then 144 \<le> byte_of c \<and> byte_of c \<le> 191
      else if b0 = 244 then 128 \<le> byte_of c \<and> byte_of c \<le> 143
      else cont_byte c)"

definition decode_rune :: "string \<Rightarrow> nat \<times> nat" where
  "decode_rune s =
     (case s of
        [] \<Rightarrow> (RuneError, 0)
      | c0 # cs \<Rightarrow>
          let b0 = byte_of c0 in
          if b0 < 128 then (b0, 1)
          else if b0 < 194 \<or> 244 < b0 then (RuneError, 1)
          else if b0 < 224 then
            (case cs of
               c1 # _ \<Rightarrow> if cont_byte c1 then ((b0 - 192) * 64 + low_bits c1, 2) else (RuneError, 1)
             | _ \<Rightarrow> (RuneError, 1))
          else if b0 < 240 then
            (case cs of
               c1 # c2 # _ \<Rightarrow>
                 if second_byte b0 c1 \<and> cont_byte c2
                 then ((b0 - 224) * 4096 + low_bits c1 * 64 + low_bits c2, 3) else (RuneError, 1)
             | _ \<Rightarrow> (RuneError, 1))
          else
            (case cs of
               c1 # c2 # c3 # _ \<Rightarrow>
                 if second_byte b0 c1 \<and> cont_byte c2 \<and> cont_byte c3
                 then ((b0 - 240) * 262144 + low_bits c1 * 4096 + low_bits c2 * 64 + low_bits c3, 4)
                 else (RuneError, 1)
             | _ \<Rightarrow> (RuneError, 1)))"

lemma decode_rune_width: "s \<noteq> [] \<Longrightarrow> 1 \<le> snd (decode_rune s)"
  by (auto simp: decode_rune_def Let_def split: list.splits if_splits)

lemma decode_rune_fits: "snd (decode_rune s) \<le> length s"
  by (auto simp: decode_rune_def Let_def split: list.splits if_splits)

lemma decode_rune_ascii: "byte_of c < 128 \<Longrightarrow> decode_rune (c # cs) = (byte_of c, 1)"
  by (simp add: decode_rune_def)

text \<open>Only an ASCII byte decodes to a rune below 128.\<close>

lemma decode_rune_small:
  assumes "fst (decode_rune (c # cs)) < 128"
  shows "byte_of c < 128"
proof (rule ccontr)
  assume c: "\<not> byte_of c < 128"
  have two: "128 \<le> (b - 192) * 64 + x" if "194 \<le> b" for b x :: nat
    using that by arith
  have three: "128 \<le> (b - 224) * 4096 + low_bits c1 * 64 + x"
    if "224 \<le> b" "second_byte b c1" for b x c1
  proof (cases "b = 224")
    case True
    with that show ?thesis by (auto simp: second_byte_def low_bits_def)
  next
    case False
    with that have "1 \<le> b - 224" by arith
    then show ?thesis by arith
  qed
  have four: "128 \<le> (b - 240) * 262144 + low_bits c1 * 4096 + x"
    if "240 \<le> b" "second_byte b c1" for b x c1
  proof (cases "b = 240")
    case True
    with that show ?thesis by (auto simp: second_byte_def low_bits_def)
  next
    case False
    with that have "1 \<le> b - 240" by arith
    then show ?thesis by arith
  qed
  show False
    using assms c two three four
    by (auto simp: decode_rune_def Let_def RuneError_def add.assoc not_less not_le
        split: list.splits if_splits) (fastforce simp: not_le [symmetric] add.assoc)+
qed

function runes :: "string \<Rightarrow> nat list" where
  "runes s = (if s = [] then [] else fst (decode_rune s) # runes (drop (snd (decode_rune s)) s))"
  by pat_completeness auto
termination
proof (relation "measure length")
  fix s :: string
  assume "s \<noteq> []"
  then show "(drop (snd (decode_rune s)) s, s) \<in> measure length"
    using decode_rune_width [of s] by (cases s) auto
qed simp

declare runes.simps [simp del]

function utf8_ValidString :: "string \<Rightarrow> bool" where
  "utf8_ValidString s =
     (if s = [] then True
      else if decode_rune s = (RuneError, 1) then False
      else utf8_ValidString (drop (snd (decode_rune s)) s))"
  by pat_completeness auto
termination
proof (relation "measure length")
  fix s :: string
  assume "s \<noteq> []"
  then show "(drop (snd (decode_rune s)) s, s) \<in> measure length"
    using decode_rune_width [of s] by (cases s) auto
qed simp

declare utf8_ValidString.simps [simp del]

definition ascii :: "string \<Rightarrow> bool" where
  "ascii s \<longleftrightarrow> list_all (\<lambda>c. byte_of c < 128) s"

lemma runes_ascii: "ascii s \<Longrightarrow> runes s = map byte_of s"
proof (induction s)
  case Nil
  show ?case by (simp add: runes.simps [of "[]"])
next
  case (Cons c cs)
  then show ?case by (simp add: runes.simps [of "c # cs"] decode_rune_ascii ascii_def)
qed

lemma runes_ascii_inj: "ascii p \<Longrightarrow> runes p = runes s \<Longrightarrow> p = s"
proof (induction p arbitrary: s)
  case Nil
  then show ?case by (cases s) (simp_all add: runes.simps)
next
  case (Cons c cs)
  then have r: "runes s = byte_of c # map byte_of cs" by (simp add: runes_ascii)
  then obtain d ds where s: "s = d # ds" by (cases s) (simp_all add: runes.simps)
  have small: "byte_of c < 128" using Cons.prems by (simp add: ascii_def)
  with r s have "byte_of d < 128"
    using decode_rune_small [of d ds] by (simp add: runes.simps [of "d # ds"])
  then have "runes s = byte_of d # runes ds"
    by (simp add: s runes.simps [of "d # ds"] decode_rune_ascii)
  with r have eq: "byte_of d = byte_of c" and tl: "runes ds = map byte_of cs" by simp_all
  from eq have "d = c" by (simp only: of_char_eq_iff)
  moreover have "cs = ds"
    using Cons.IH [of ds] Cons.prems tl by (simp add: ascii_def runes_ascii)
  ultimately show ?case using s by simp
qed

text \<open>
  \<open>regexp.MatchString("^" + QuoteMeta(p) + "$", s)\<close>: a pattern that is not valid UTF-8 does
  not compile, and a literal is compared rune by rune.
\<close>

definition regexp_literal_match :: "string \<Rightarrow> string \<Rightarrow> bool" where
  "regexp_literal_match p s \<longleftrightarrow> utf8_ValidString p \<and> runes p = runes s"

lemma regexp_literal_match_ascii: "ascii p \<Longrightarrow> regexp_literal_match p s \<Longrightarrow> p = s"
  by (simp add: regexp_literal_match_def runes_ascii_inj)

section \<open>filepath.Match\<close>

text \<open>\<open>scanChunk\<close>: the leading stars, the chunk up to the next star, the rest.\<close>

fun scan_chunk :: "bool \<Rightarrow> string \<Rightarrow> string \<times> string" where
  "scan_chunk inrange [] = ([], [])"
| "scan_chunk inrange (c # cs) =
     (if c = CHR 0x5C then
        (case cs of
           [] \<Rightarrow> ([c], [])
         | d # ds \<Rightarrow> (let (chunk, rest) = scan_chunk inrange ds in (c # d # chunk, rest)))
      else if c = CHR ''*'' \<and> \<not> inrange then ([], c # cs)
      else
        (let (chunk, rest) =
           scan_chunk (if c = CHR ''['' then True else if c = CHR '']'' then False else inrange) cs
         in (c # chunk, rest)))"

definition scanChunk :: "string \<Rightarrow> bool \<times> string \<times> string" where
  "scanChunk pattern =
     (let star = (pattern \<noteq> [] \<and> hd pattern = CHR ''*'');
          (chunk, rest) = scan_chunk False (dropWhile ((=) (CHR ''*'')) pattern)
      in (star, chunk, rest))"

lemma scan_chunk_append: "scan_chunk b s = (chunk, rest) \<Longrightarrow> s = chunk @ rest"
  by (induction b s arbitrary: chunk rest rule: scan_chunk.induct)
    (auto split: if_splits prod.splits list.splits)

lemma scan_chunk_progress:
  assumes "scan_chunk b s = (chunk, rest)" "s \<noteq> []" "hd s \<noteq> CHR ''*'' \<or> b"
  shows "chunk \<noteq> []"
  using assms by (cases s) (auto split: if_splits prod.splits list.splits)

lemma scanChunk_shorter:
  assumes "scanChunk pattern = (star, chunk, rest)" "pattern \<noteq> []"
  shows "length rest < length pattern"
proof -
  let ?s = "dropWhile ((=) (CHR ''*'')) pattern"
  have sc: "scan_chunk False ?s = (chunk, rest)"
    using assms(1) by (auto simp: scanChunk_def Let_def split: prod.splits)
  have len: "length ?s = length chunk + length rest"
    using scan_chunk_append [OF sc] by (metis length_append)
  show ?thesis
  proof (cases "hd pattern = CHR ''*''")
    case True
    with assms(2) have "length ?s < length pattern"
      by (cases pattern) (auto simp: less_Suc_eq_le length_dropWhile_le)
    with len show ?thesis by simp
  next
    case False
    with assms(2) have "?s = pattern" by (cases pattern) auto
    moreover from this have "chunk \<noteq> []"
      using scan_chunk_progress [OF sc] assms(2) False by simp
    ultimately show ?thesis using len by (cases chunk) auto
  qed
qed

text \<open>\<open>getEsc\<close>: one character of a class, with the rest of the chunk, which is never empty.\<close>

definition getEsc :: "string \<Rightarrow> (nat \<times> string) option" where
  "getEsc chunk =
     (if chunk = [] \<or> hd chunk = CHR ''-'' \<or> hd chunk = CHR '']'' then None
      else
        let c = (if hd chunk = CHR 0x5C then tl chunk else chunk) in
        if c = [] then None
        else
          let (r, n) = decode_rune c in
          if r = RuneError \<and> n = 1 then None
          else if drop n c = [] then None
          else Some (r, drop n c))"

lemma getEsc_shorter: "getEsc chunk = Some (r, rest) \<Longrightarrow> rest \<noteq> [] \<and> length rest < length chunk"
proof -
  assume a: "getEsc chunk = Some (r, rest)"
  let ?c = "if hd chunk = CHR 0x5C then tl chunk else chunk"
  have ne: "chunk \<noteq> []" "?c \<noteq> []" and rest: "rest = drop (snd (decode_rune ?c)) ?c" "rest \<noteq> []"
    using a by (auto simp: getEsc_def Let_def split: if_splits prod.splits)
  have "1 \<le> snd (decode_rune ?c)" using ne(2) by (rule decode_rune_width)
  then have "length rest < length ?c" using rest(1) ne(2) by (cases ?c) auto
  also have "length ?c \<le> length chunk" by simp
  finally show ?thesis using rest(2) by simp
qed

text \<open>The ranges of a class: whether rune \<open>r\<close> is in one of them, and the chunk after the \<open>]\<close>.\<close>

function class_ranges :: "nat \<Rightarrow> string \<Rightarrow> bool \<Rightarrow> bool \<Rightarrow> (bool \<times> string) option" where
  "class_ranges r chunk seen m =
     (if chunk \<noteq> [] \<and> hd chunk = CHR '']'' \<and> seen then Some (m, tl chunk)
      else
        case getEsc chunk of
          None \<Rightarrow> None
        | Some (lo, ch1) \<Rightarrow>
            (case (if hd ch1 = CHR ''-'' then getEsc (tl ch1) else Some (lo, ch1)) of
               None \<Rightarrow> None
             | Some (hi, ch2) \<Rightarrow> class_ranges r ch2 True (m \<or> (lo \<le> r \<and> r \<le> hi))))"
  by pat_completeness auto
termination
  by (relation "measure (\<lambda>(r, chunk, seen, m). length chunk)")
    (auto dest!: getEsc_shorter split: if_splits)

declare class_ranges.simps [simp del]

lemma class_ranges_length: "class_ranges r chunk seen m = Some (m', rest) \<Longrightarrow> length rest \<le> length chunk"
proof (induction r chunk seen m arbitrary: m' rest rule: class_ranges.induct)
  case (1 r chunk seen m)
  show ?case
  proof (cases "chunk \<noteq> [] \<and> hd chunk = CHR '']'' \<and> seen")
    case True
    with "1.prems" show ?thesis by (auto simp: class_ranges.simps [of r chunk])
  next
    case False
    with "1.prems" obtain lo ch1 hi ch2 where
      e1: "getEsc chunk = Some (lo, ch1)" and
      e2: "(if hd ch1 = CHR ''-'' then getEsc (tl ch1) else Some (lo, ch1)) = Some (hi, ch2)" and
      rec: "class_ranges r ch2 True (m \<or> (lo \<le> r \<and> r \<le> hi)) = Some (m', rest)"
      by (subst (asm) class_ranges.simps) (auto split: option.splits if_splits)
    have "length rest \<le> length ch2" by (rule "1.IH" [OF False e1 refl e2 refl rec])
    moreover have "length ch2 \<le> length ch1"
      using e2 by (auto dest!: getEsc_shorter split: if_splits)
    moreover have "length ch1 < length chunk" using getEsc_shorter [OF e1] by simp
    ultimately show ?thesis by simp
  qed
qed

text \<open>
  \<open>matchChunk\<close>: \<open>None\<close> for a malformed chunk, otherwise whether the chunk matches a prefix
  of the name and what is left. \<open>failed\<close> records a mismatch; the scan of the chunk goes on.
\<close>

function match_chunk :: "string \<Rightarrow> string \<Rightarrow> bool \<Rightarrow> (bool \<times> string) option" where
  "match_chunk [] s failed = (if failed then Some (False, []) else Some (True, s))"
| "match_chunk (c # cs) s failed0 =
     (let failed = (failed0 \<or> s = []) in
      if c = CHR ''['' then
        (let (r, n) = (if failed then (0, 0) else decode_rune s);
             negated = (cs \<noteq> [] \<and> hd cs = CHR ''^'')
         in case class_ranges r (if negated then tl cs else cs) False False of
              None \<Rightarrow> None
            | Some (m, ch) \<Rightarrow> match_chunk ch (drop n s) (failed \<or> m = negated))
      else if c = CHR ''?'' then
        (if failed then match_chunk cs s True
         else match_chunk cs (drop (snd (decode_rune s)) s) (hd s = CHR ''/''))
      else if c = CHR 0x5C \<and> cs = [] then None
      else
        (let (d, ds) = (if c = CHR 0x5C then (hd cs, tl cs) else (c, cs)) in
         if failed then match_chunk ds s True
         else match_chunk ds (tl s) (d \<noteq> hd s)))"
  by pat_completeness auto
termination
  by (relation "measure (\<lambda>(chunk, s, failed). length chunk)")
    (auto dest!: class_ranges_length split: if_splits)

declare match_chunk.simps(2) [simp del]

text \<open>The search behind a star: skip bytes of the name, never a separator.\<close>

fun star_search :: "string \<Rightarrow> bool \<Rightarrow> string \<Rightarrow> string option option" where
  "star_search chunk is_last [] = Some None"
| "star_search chunk is_last (c # cs) =
     (if c = CHR ''/'' then Some None
      else
        case match_chunk chunk cs False of
          None \<Rightarrow> None
        | Some (ok, t) \<Rightarrow>
            if ok \<and> \<not> (is_last \<and> t \<noteq> []) then Some (Some t)
            else star_search chunk is_last cs)"

function filepath_Match :: "string \<Rightarrow> string \<Rightarrow> bool option" where
  "filepath_Match pattern name =
     (if pattern = [] then Some (name = [])
      else
        let (star, chunk, rest) = scanChunk pattern in
        if star \<and> chunk = [] then Some (CHR ''/'' \<notin> set name)
        else
          case match_chunk chunk name False of
            None \<Rightarrow> None
          | Some (ok, t) \<Rightarrow>
              if ok \<and> (t = [] \<or> rest \<noteq> []) then filepath_Match rest t
              else if star then
                (case star_search chunk (rest = []) name of
                   None \<Rightarrow> None
                 | Some None \<Rightarrow> Some False
                 | Some (Some t') \<Rightarrow> filepath_Match rest t')
              else Some False)"
  by pat_completeness auto
termination
  by (relation "measure (\<lambda>(pattern, name). length pattern)") (auto dest: scanChunk_shorter [OF sym])

declare filepath_Match.simps [simp del]

section \<open>What a pattern of literals and stars matches\<close>

text \<open>
  The reference: a star stands for any run of bytes without the separator, every other
  byte for itself.
\<close>

fun glob :: "string \<Rightarrow> string \<Rightarrow> bool" where
  "glob [] s \<longleftrightarrow> s = []"
| "glob (p # ps) [] \<longleftrightarrow> p = CHR ''*'' \<and> glob ps []"
| "glob (p # ps) (c # cs) \<longleftrightarrow>
     (if p = CHR ''*'' then glob ps (c # cs) \<or> (c \<noteq> CHR ''/'' \<and> glob (p # ps) cs)
      else p = c \<and> glob ps cs)"

definition literal_char :: "char \<Rightarrow> bool" where
  "literal_char c \<longleftrightarrow> c \<noteq> CHR ''*'' \<and> c \<noteq> CHR ''?'' \<and> c \<noteq> CHR ''['' \<and> c \<noteq> CHR 0x5C"

definition literal :: "string \<Rightarrow> bool" where
  "literal s \<longleftrightarrow> list_all literal_char s"

definition stars_and_literals :: "string \<Rightarrow> bool" where
  "stars_and_literals s \<longleftrightarrow> list_all (\<lambda>c. c = CHR ''*'' \<or> literal_char c) s"

lemma glob_star: "glob (CHR ''*'' # p) s \<longleftrightarrow> (\<exists>a b. s = a @ b \<and> CHR ''/'' \<notin> set a \<and> glob p b)"
proof (induction s)
  case Nil
  show ?case by simp
next
  case (Cons c cs)
  show ?case
  proof
    assume "glob (CHR ''*'' # p) (c # cs)"
    then have "glob p (c # cs) \<or> (c \<noteq> CHR ''/'' \<and> glob (CHR ''*'' # p) cs)" by simp
    then consider "glob p (c # cs)" | "c \<noteq> CHR ''/''" "glob (CHR ''*'' # p) cs" by blast
    then show "\<exists>a b. c # cs = a @ b \<and> CHR ''/'' \<notin> set a \<and> glob p b"
    proof cases
      case 1
      then show ?thesis by (intro exI [of _ "[]"] exI [of _ "c # cs"]) simp
    next
      case 2
      with Cons obtain a b where "cs = a @ b" "CHR ''/'' \<notin> set a" "glob p b" by auto
      with 2 show ?thesis by (intro exI [of _ "c # a"] exI [of _ b]) auto
    qed
  next
    assume "\<exists>a b. c # cs = a @ b \<and> CHR ''/'' \<notin> set a \<and> glob p b"
    then obtain a b where ab: "c # cs = a @ b" "CHR ''/'' \<notin> set a" "glob p b" by blast
    show "glob (CHR ''*'' # p) (c # cs)"
    proof (cases a)
      case Nil
      with ab have "glob p (c # cs)" by simp
      then show ?thesis by simp
    next
      case (Cons d ds)
      with ab have "cs = ds @ b" "c \<noteq> CHR ''/''" "CHR ''/'' \<notin> set ds" by auto
      with ab(3) Cons.IH show ?thesis by auto
    qed
  qed
qed

lemma glob_star_absorb: "glob (CHR ''*'' # p) t \<Longrightarrow> CHR ''/'' \<notin> set a \<Longrightarrow> glob (CHR ''*'' # p) (a @ t)"
  by (induction a) auto

lemma glob_literal:
  "literal c \<Longrightarrow> glob (c @ p) s \<longleftrightarrow> (\<exists>t. s = c @ t \<and> glob p t)"
proof (induction c arbitrary: s)
  case Nil
  show ?case by simp
next
  case (Cons x xs)
  then show ?case by (cases s) (auto simp: literal_def literal_char_def)
qed

lemma glob_refl: "stars_and_literals p \<Longrightarrow> glob p p"
proof (induction p)
  case Nil
  show ?case by simp
next
  case (Cons c p)
  then have "glob p p" by (simp add: stars_and_literals_def)
  then have "glob (CHR ''*'' # p) (CHR ''*'' # p)"
    unfolding glob_star [of p] by (intro exI [of _ "''*''"] exI [of _ p]) simp
  with \<open>glob p p\<close> show ?case by (cases "c = CHR ''*''") simp_all
qed

lemma glob_stars: "p \<noteq> [] \<Longrightarrow> hd p = CHR ''*'' \<Longrightarrow>
  glob p s \<longleftrightarrow> glob (CHR ''*'' # dropWhile ((=) (CHR ''*'')) p) s"
proof (induction p arbitrary: s)
  case Nil
  then show ?case by simp
next
  case (Cons c cs)
  show ?case
  proof (cases "cs \<noteq> [] \<and> hd cs = CHR ''*''")
    case False
    then have "dropWhile ((=) (CHR ''*'')) cs = cs" by (cases cs) auto
    with Cons.prems show ?thesis by simp
  next
    case True
    let ?d = "dropWhile ((=) (CHR ''*'')) cs"
    have IH: "glob cs t \<longleftrightarrow> glob (CHR ''*'' # ?d) t" for t using Cons.IH True by simp
    have "glob (c # cs) s \<longleftrightarrow> (\<exists>a b. s = a @ b \<and> CHR ''/'' \<notin> set a \<and> glob (CHR ''*'' # ?d) b)"
      using Cons.prems by (simp add: glob_star [of cs] IH)
    also have "\<dots> \<longleftrightarrow> glob (CHR ''*'' # ?d) s"
      by (auto intro: glob_star_absorb exI [of _ "[]"])
    finally show ?thesis using Cons.prems by simp
  qed
qed

lemma match_chunk_failed: "literal c \<Longrightarrow> match_chunk c s True = Some (False, [])"
proof (induction c arbitrary: s)
  case Nil
  show ?case by simp
next
  case (Cons x xs)
  then show ?case by (simp add: match_chunk.simps(2) literal_def literal_char_def)
qed

lemma match_chunk_literal:
  "literal c \<Longrightarrow> match_chunk c s False = Some (if prefix c s then (True, drop (length c) s) else (False, []))"
proof (induction c arbitrary: s)
  case Nil
  show ?case by simp
next
  case (Cons x xs)
  then have xs: "literal xs" and x: "literal_char x" by (simp_all add: literal_def)
  show ?case
  proof (cases s)
    case Nil
    with xs x show ?thesis
      by (simp add: match_chunk.simps(2) match_chunk_failed literal_char_def)
  next
    case (Cons y ys)
    with xs x Cons.IH [of ys] show ?thesis
      by (cases "x = y") (simp_all add: match_chunk.simps(2) match_chunk_failed literal_char_def)
  qed
qed

lemma scan_chunk_literal:
  assumes "stars_and_literals s" "scan_chunk False s = (chunk, rest)"
  shows "literal chunk \<and> stars_and_literals rest \<and> (rest \<noteq> [] \<longrightarrow> hd rest = CHR ''*'')"
  using assms
proof (induction s arbitrary: chunk rest)
  case Nil
  then show ?case by (auto simp: literal_def stars_and_literals_def)
next
  case (Cons c cs)
  show ?case
  proof (cases "c = CHR ''*''")
    case True
    with Cons.prems show ?thesis by (auto simp: literal_def)
  next
    case False
    with Cons.prems(1) have c: "literal_char c" "stars_and_literals cs"
      by (auto simp: stars_and_literals_def)
    with False Cons.prems(2) obtain ch where "scan_chunk False cs = (ch, rest)" "chunk = c # ch"
      by (auto simp: literal_char_def split: prod.splits if_splits)
    with Cons.IH [of ch rest] c show ?thesis by (simp add: literal_def)
  qed
qed

text \<open>
  The search behind a star finds the first place where the chunk matches, without
  passing a separator; for the last chunk, a place where it ends the name.
\<close>

lemma star_search_Some:
  assumes "literal c" "star_search c is_last s = Some (Some t)"
  shows "\<exists>a. s = a @ c @ t \<and> CHR ''/'' \<notin> set a \<and> (is_last \<longrightarrow> t = []) \<and>
    (\<not> is_last \<longrightarrow> (\<forall>a' t'. a' \<noteq> [] \<longrightarrow> CHR ''/'' \<notin> set a' \<longrightarrow> s = a' @ c @ t' \<longrightarrow> length a \<le> length a'))"
  using assms(2)
proof (induction s)
  case Nil
  then show ?case by simp
next
  case (Cons x s)
  then have x: "x \<noteq> CHR ''/''" by (auto split: if_splits)
  show ?case
  proof (cases "prefix c s \<and> \<not> (is_last \<and> drop (length c) s \<noteq> [])")
    case True
    with Cons.prems x have "t = drop (length c) s"
      by (auto simp: match_chunk_literal [OF assms(1)] split: if_splits)
    with True x show ?thesis
      by (intro exI [of _ "[x]"]) (auto simp: prefix_def Suc_le_eq)
  next
    case False
    with Cons.prems x have "star_search c is_last s = Some (Some t)"
      by (auto simp: match_chunk_literal [OF assms(1)] split: if_splits)
    from Cons.IH [OF this] obtain a where a: "s = a @ c @ t" "CHR ''/'' \<notin> set a" "is_last \<longrightarrow> t = []"
      and min: "\<not> is_last \<Longrightarrow> a' \<noteq> [] \<Longrightarrow> CHR ''/'' \<notin> set a' \<Longrightarrow> s = a' @ c @ t' \<Longrightarrow> length a \<le> length a'"
      for a' t' by blast
    have "length (x # a) \<le> length a'"
      if l: "\<not> is_last" and a': "a' \<noteq> []" "CHR ''/'' \<notin> set a'" "x # s = a' @ c @ t'" for a' t'
    proof -
      from a' obtain b where b: "a' = x # b" "s = b @ c @ t'" "CHR ''/'' \<notin> set b"
        by (cases a') auto
      have "b \<noteq> []" using False l b(2) by auto
      with min [OF l this b(3,2)] b(1) show ?thesis by simp
    qed
    with a x show ?thesis by (intro exI [of _ "x # a"]) auto
  qed
qed

lemma star_search_None:
  assumes "literal c" "star_search c is_last s = Some None" "a \<noteq> []" "CHR ''/'' \<notin> set a" "is_last \<longrightarrow> t = []"
  shows "s \<noteq> a @ c @ t"
  using assms(2,3,4)
proof (induction s arbitrary: a)
  case Nil
  then show ?case by simp
next
  case (Cons x s)
  show ?case
  proof
    assume eq: "x # s = a @ c @ t"
    with Cons.prems(2) obtain b where b: "a = x # b" "s = b @ c @ t" by (cases a) auto
    with Cons.prems(3) have x: "x \<noteq> CHR ''/''" and nb: "CHR ''/'' \<notin> set b" by auto
    have no: "\<not> (prefix c s \<and> \<not> (is_last \<and> drop (length c) s \<noteq> []))"
      and rec: "star_search c is_last s = Some None"
      using Cons.prems(1) x by (auto simp: match_chunk_literal [OF assms(1)] split: if_splits)
    show False
    proof (cases "b = []")
      case True
      with b no assms(5) show False by auto
    next
      case False
      with Cons.IH [OF rec this nb] b(2) show False by simp
    qed
  qed
qed

lemma star_search_total: "literal c \<Longrightarrow> \<exists>r. star_search c is_last s = Some r"
  by (induction s) (auto simp: match_chunk_literal)

text \<open>Taking the first place is enough: a later star can skip what a later place would.\<close>

lemma first_place_enough:
  assumes s: "s = a @ c @ t" "s = a' @ c @ t'" and sep: "CHR ''/'' \<notin> set a'"
    and le: "length a \<le> length a'" and g: "glob (CHR ''*'' # r) t'"
  shows "glob (CHR ''*'' # r) t"
proof -
  define d where "d = drop (length a) a'"
  have "take (length a) a' = a"
    using arg_cong [OF s(1) [unfolded s(2)], of "take (length a)"] le by simp
  then have "a' = a @ d" unfolding d_def using append_take_drop_id [of "length a" a'] by simp
  with s have d: "a' = a @ d" "d @ c @ t' = c @ t" by auto
  show ?thesis
  proof (cases "CHR ''/'' \<in> set c")
    case True
    then obtain u v where c: "c = u @ CHR ''/'' # v" "CHR ''/'' \<notin> set u"
      by (meson split_list_first)
    have "takeWhile (\<lambda>x. x \<noteq> CHR ''/'') (d @ c @ t') = d @ u"
      using sep d(1) c by (subst takeWhile_append2) (auto simp: takeWhile_tail)
    moreover have "takeWhile (\<lambda>x. x \<noteq> CHR ''/'') (c @ t) = u"
      using c by (auto simp: takeWhile_tail)
    ultimately have "d = []" using d(2) by simp
    with d(2) g show ?thesis by simp
  next
    case False
    have "t = drop (length c) (d @ c) @ t'"
      using arg_cong [OF d(2), of "drop (length c)"] by simp
    moreover have "CHR ''/'' \<notin> set (drop (length c) (d @ c))"
      using sep d(1) False by (auto dest: in_set_dropD)
    ultimately show ?thesis using g glob_star_absorb by metis
  qed
qed

lemma scanChunk_empty_chunk:
  assumes "scanChunk p = (star, [], rest)"
  shows "rest = []"
proof (rule ccontr)
  let ?d = "dropWhile ((=) (CHR ''*'')) p"
  assume "rest \<noteq> []"
  have sc: "scan_chunk False ?d = ([], rest)"
    using assms by (auto simp: scanChunk_def Let_def split: prod.splits)
  have "?d = rest" using scan_chunk_append [OF sc] by simp
  with \<open>rest \<noteq> []\<close> have ne: "?d \<noteq> []" by simp
  then have "hd ?d \<noteq> CHR ''*''" using hd_dropWhile [OF ne] by auto
  with scan_chunk_progress [OF sc ne] show False by simp
qed

lemma scanChunk_glob:
  assumes "scanChunk p = (star, chunk, rest)" "stars_and_literals p"
  shows "literal chunk" "stars_and_literals rest" "rest \<noteq> [] \<longrightarrow> hd rest = CHR ''*''"
    and "glob p s = glob (if star then CHR ''*'' # chunk @ rest else chunk @ rest) s"
proof -
  let ?d = "dropWhile ((=) (CHR ''*'')) p"
  have sc: "scan_chunk False ?d = (chunk, rest)" and star: "star = (p \<noteq> [] \<and> hd p = CHR ''*'')"
    using assms(1) by (auto simp: scanChunk_def Let_def split: prod.splits)
  have d: "stars_and_literals ?d"
    using assms(2) by (auto simp: stars_and_literals_def list_all_iff dest: set_dropWhileD)
  show "literal chunk" "stars_and_literals rest" "rest \<noteq> [] \<longrightarrow> hd rest = CHR ''*''"
    using scan_chunk_literal [OF d sc] by auto
  have "?d = chunk @ rest" by (rule scan_chunk_append [OF sc])
  moreover have "?d = p" if "\<not> star" using that star by (cases p) auto
  ultimately show "glob p s = glob (if star then CHR ''*'' # chunk @ rest else chunk @ rest) s"
    using glob_stars [of p s] star by auto
qed

text \<open>
  A chunk behind a star, in the two ways the matcher finds its place: at once, or by the
  search.
\<close>

lemma place_at_start:
  assumes s: "s = chunk @ t" "t = [] \<or> rest \<noteq> []" and last: "rest = [] \<or> (\<exists>r. rest = CHR ''*'' # r)"
  shows "(\<exists>a t. s = a @ chunk @ t \<and> CHR ''/'' \<notin> set a \<and> glob rest t) \<longleftrightarrow> glob rest t"
proof
  assume "glob rest t"
  with s(1) show "\<exists>a t. s = a @ chunk @ t \<and> CHR ''/'' \<notin> set a \<and> glob rest t"
    by (intro exI [of _ "[]"] exI [of _ t]) simp
next
  assume "\<exists>a t. s = a @ chunk @ t \<and> CHR ''/'' \<notin> set a \<and> glob rest t"
  then obtain a' t' where a': "s = a' @ chunk @ t'" "CHR ''/'' \<notin> set a'" "glob rest t'" by blast
  from last show "glob rest t"
  proof
    assume "rest = []"
    with s show ?thesis by simp
  next
    assume "\<exists>r. rest = CHR ''*'' # r"
    then obtain r where r: "rest = CHR ''*'' # r" by blast
    from s(1) have "s = [] @ chunk @ t" by simp
    from first_place_enough [OF this a'(1,2) _ a'(3) [unfolded r]] show ?thesis by (simp add: r)
  qed
qed

lemma place_by_search:
  assumes c: "literal chunk" and last: "rest = [] \<or> (\<exists>r. rest = CHR ''*'' # r)"
    and found: "star_search chunk (rest = []) s = Some found"
    and no: "\<not> (prefix chunk s \<and> (drop (length chunk) s = [] \<or> rest \<noteq> []))"
  shows "(\<exists>a t. s = a @ chunk @ t \<and> CHR ''/'' \<notin> set a \<and> glob rest t) \<longleftrightarrow>
    (case found of None \<Rightarrow> False | Some t \<Rightarrow> glob rest t)" (is "?G \<longleftrightarrow> _")
proof -
  have ne: "a \<noteq> []" if "s = a @ chunk @ t" "glob rest t" for a t
    using that no by auto
  show ?thesis
  proof (cases found)
    case None
    have False if "s = a @ chunk @ t" "CHR ''/'' \<notin> set a" "glob rest t" for a t
    proof -
      have "rest = [] \<longrightarrow> t = []" using that(3) by auto
      from star_search_None [OF c found [unfolded None] ne [OF that(1,3)] that(2) this] that(1)
      show False by simp
    qed
    with None show ?thesis by auto
  next
    case (Some t)
    from star_search_Some [OF c found [unfolded Some]] obtain a where
      a: "s = a @ chunk @ t" "CHR ''/'' \<notin> set a" and
      min: "\<And>a' t'. rest \<noteq> [] \<Longrightarrow> a' \<noteq> [] \<Longrightarrow> CHR ''/'' \<notin> set a' \<Longrightarrow>
        s = a' @ chunk @ t' \<Longrightarrow> length a \<le> length a'" and
      t: "rest = [] \<longrightarrow> t = []" by blast
    have "glob rest t" if a': "s = a' @ chunk @ t'" "CHR ''/'' \<notin> set a'" "glob rest t'" for a' t'
    proof (cases "rest = []")
      case True
      with t show ?thesis by simp
    next
      case False
      with last obtain r where r: "rest = CHR ''*'' # r" by blast
      have "length a \<le> length a'" using min [OF False ne [OF a'(1,3)] a'(2,1)] .
      from first_place_enough [OF a(1) a'(1,2) this a'(3) [unfolded r]] show ?thesis by (simp add: r)
    qed
    moreover have ?G if "glob rest t" using a that by blast
    ultimately show ?thesis using Some by auto
  qed
qed

lemma filepath_Match_glob: "stars_and_literals p \<Longrightarrow> filepath_Match p s = Some (glob p s)"
proof (induction "length p" arbitrary: p s rule: less_induct)
  case less
  show ?case
  proof (cases "p = []")
    case True
    then show ?thesis by (simp add: filepath_Match.simps)
  next
    case False
    obtain star chunk rest where sc: "scanChunk p = (star, chunk, rest)" by (metis prod_cases3)
    note g = scanChunk_glob [OF sc less.prems]
    have IH: "filepath_Match rest t = Some (glob rest t)" for t
      using less.hyps scanChunk_shorter [OF sc False] g(2) by blast
    note unf = filepath_Match.simps [of p s] match_chunk_literal [OF g(1)]
    have last: "rest = [] \<or> (\<exists>r. rest = CHR ''*'' # r)" using g(3) by (cases rest) auto
    show ?thesis
    proof (cases star)
      case False
      then show ?thesis using \<open>p \<noteq> []\<close> IH g(4) [of s] last
        by (auto simp: unf sc Let_def glob_literal [OF g(1)] prefix_def)
    next
      case True
      show ?thesis
      proof (cases "chunk = []")
        case True
        with sc have "rest = []" using scanChunk_empty_chunk by blast
        with True \<open>star\<close> False g(4) [of s] show ?thesis
          by (auto simp: unf sc Let_def glob_star)
      next
        case False
        have "glob p s \<longleftrightarrow> glob (CHR ''*'' # chunk @ rest) s" using g(4) [of s] True by simp
        then have spec: "glob p s \<longleftrightarrow>
            (\<exists>a t. s = a @ chunk @ t \<and> CHR ''/'' \<notin> set a \<and> glob rest t)"
          by (auto simp: glob_star glob_literal [OF g(1)])
        obtain found where found: "star_search chunk (rest = []) s = Some found"
          using star_search_total [OF g(1)] by blast
        have "glob p s \<longleftrightarrow> glob rest t" if "s = chunk @ t" "t = [] \<or> rest \<noteq> []" for t
          unfolding spec by (rule place_at_start [OF that last])
        moreover have "glob p s \<longleftrightarrow> (case found of None \<Rightarrow> False | Some t \<Rightarrow> glob rest t)"
          if "\<not> (prefix chunk s \<and> (drop (length chunk) s = [] \<or> rest \<noteq> []))"
          unfolding spec by (rule place_by_search [OF g(1) last found that])
        ultimately show ?thesis using \<open>p \<noteq> []\<close> \<open>star\<close> False IH found
          by (auto simp: unf sc Let_def prefix_def split: option.splits)
      qed
    qed
  qed
qed

end
