(* ===== verification/Go_Sort.thy ===== *)
theory Go_Sort
  imports Main "HOL-Library.Multiset"
begin

text \<open>
  \<open>sort.Slice\<close>. What its callers rely on is the locale \<open>slice_sorter\<close>: the result holds the
  same elements and is sorted when the comparison is a strict weak order. It says nothing
  of equal elements. Up to 12 elements the library sorts by insertion, which is modelled
  here and meets the contract; above that it is the argument \<open>pdqsort\<close>.
\<close>

definition strict_weak :: "('a \<Rightarrow> 'a \<Rightarrow> bool) \<Rightarrow> bool" where
  "strict_weak lt \<longleftrightarrow>
     (\<forall>x. \<not> lt x x) \<and> (\<forall>x y z. lt x y \<longrightarrow> lt y z \<longrightarrow> lt x z) \<and>
     (\<forall>x y z. \<not> lt x y \<longrightarrow> \<not> lt y z \<longrightarrow> \<not> lt x z)"

lemma strict_weak_irrefl: "strict_weak lt \<Longrightarrow> \<not> lt x x"
  unfolding strict_weak_def by blast

lemma strict_weak_asym: "strict_weak lt \<Longrightarrow> lt x y \<Longrightarrow> \<not> lt y x"
  unfolding strict_weak_def by blast

lemma strict_weak_not_trans: "strict_weak lt \<Longrightarrow> \<not> lt x y \<Longrightarrow> \<not> lt y z \<Longrightarrow> \<not> lt x z"
  unfolding strict_weak_def by blast

lemma strict_weak_measure: "strict_weak (\<lambda>x y. (f y :: int) < f x)"
  by (auto simp: strict_weak_def)

locale slice_sorter =
  fixes sorter :: "('a \<Rightarrow> 'a \<Rightarrow> bool) \<Rightarrow> 'a list \<Rightarrow> 'a list"
  assumes sorter_mset: "mset (sorter lt xs) = mset xs"
    and sorter_sorted: "strict_weak lt \<Longrightarrow> sorted_wrt (\<lambda>x y. \<not> lt y x) (sorter lt xs)"
begin

lemma sorter_set: "set (sorter lt xs) = set xs"
  using sorter_mset mset_eq_setD by blast

text \<open>A search from the front of a sorted list finds an element nothing precedes.\<close>

lemma first_is_least:
  assumes "strict_weak lt" "find P (sorter lt xs) = Some x" "y \<in> set xs" "P y"
  shows "\<not> lt y x"
proof -
  have "sorted_wrt (\<lambda>x y. \<not> lt y x) zs \<Longrightarrow> find P zs = Some x \<Longrightarrow> y \<in> set zs \<Longrightarrow> \<not> lt y x" for zs
  proof (induction zs)
    case Nil
    then show ?case by simp
  next
    case (Cons z zs)
    show ?case
    proof (cases "P z")
      case True
      with Cons.prems strict_weak_irrefl [OF assms(1)] show ?thesis by auto
    next
      case False
      with Cons assms(4) show ?thesis by auto
    qed
  qed
  moreover have "sorted_wrt (\<lambda>x y. \<not> lt y x) (sorter lt xs)" by (rule sorter_sorted [OF assms(1)])
  moreover have "y \<in> set (sorter lt xs)" using assms(3) by (simp add: sorter_set)
  ultimately show ?thesis using assms(2) by blast
qed

end

section \<open>Insertion sort\<close>

text \<open>The sorted prefix is kept in reverse: a new element moves left while it is less.\<close>

fun sift_left :: "('a \<Rightarrow> 'a \<Rightarrow> bool) \<Rightarrow> 'a \<Rightarrow> 'a list \<Rightarrow> 'a list" where
  "sift_left lt x [] = [x]"
| "sift_left lt x (y # ys) = (if lt x y then y # sift_left lt x ys else x # y # ys)"

definition insertion_sort :: "('a \<Rightarrow> 'a \<Rightarrow> bool) \<Rightarrow> 'a list \<Rightarrow> 'a list" where
  "insertion_sort lt xs = rev (foldl (\<lambda>acc x. sift_left lt x acc) [] xs)"

definition sort_Slice ::
  "(('a \<Rightarrow> 'a \<Rightarrow> bool) \<Rightarrow> 'a list \<Rightarrow> 'a list) \<Rightarrow> ('a \<Rightarrow> 'a \<Rightarrow> bool) \<Rightarrow> 'a list \<Rightarrow> 'a list" where
  "sort_Slice pdqsort lt xs = (if length xs \<le> 12 then insertion_sort lt xs else pdqsort lt xs)"

lemma mset_sift_left [simp]: "mset (sift_left lt x ys) = add_mset x (mset ys)"
  by (induction ys) auto

lemma sorted_sift_left:
  assumes "strict_weak lt" "sorted_wrt (\<lambda>x y. \<not> lt x y) ys"
  shows "sorted_wrt (\<lambda>x y. \<not> lt x y) (sift_left lt x ys)"
  using assms(2)
proof (induction ys)
  case Nil
  then show ?case by simp
next
  case (Cons y ys)
  have s: "set (sift_left lt x ys) = insert x (set ys)"
    by (metis mset_sift_left set_mset_add_mset_insert set_mset_mset)
  show ?case
  proof (cases "lt x y")
    case True
    with Cons s strict_weak_asym [OF assms(1) True] show ?thesis by simp
  next
    case False
    have "\<forall>z \<in> set ys. \<not> lt x z"
      using Cons.prems strict_weak_not_trans [OF assms(1) False] by simp
    with Cons False show ?thesis by simp
  qed
qed

lemma mset_sift_lefts: "mset (foldl (\<lambda>acc x. sift_left lt x acc) acc xs) = mset acc + mset xs"
  by (induction xs arbitrary: acc) auto

lemma sorted_sift_lefts:
  "strict_weak lt \<Longrightarrow> sorted_wrt (\<lambda>x y. \<not> lt x y) acc \<Longrightarrow>
   sorted_wrt (\<lambda>x y. \<not> lt x y) (foldl (\<lambda>acc x. sift_left lt x acc) acc xs)"
  by (induction xs arbitrary: acc) (auto simp: sorted_sift_left)

interpretation insertion_sorter: slice_sorter insertion_sort
  by unfold_locales
    (auto simp: insertion_sort_def mset_sift_lefts sorted_wrt_rev sorted_sift_lefts)

lemma sort_Slice_sorter: "slice_sorter pdqsort \<Longrightarrow> slice_sorter (sort_Slice pdqsort)"
  using insertion_sorter.sorter_mset insertion_sorter.sorter_sorted
  by (auto simp: slice_sorter_def sort_Slice_def)

end
