(* ===== verification/Router.thy ===== *)
theory Router
  imports Backends Go_Glob Go_Sort Config "HOL-Library.AList"
begin

text \<open>
  \<open>internal/router/router.go\<close>: which backend a write goes to (\<open>GetBackend\<close>) and which
  backends a read tries, in order (\<open>GetBackendsForRead\<close>). A Go map is an association list
  with each key once; a loop over \<open>r.backends\<close> takes the order \<open>ks\<close> of its keys as an
  argument, because Go leaves it open. What the cache service relies on is the locale
  \<open>routing\<close>, interpreted here on the router.
\<close>

section \<open>State\<close>

record router =
  r_backends :: "(string \<times> bref) list"
  r_rules :: "RoutingRule list"
  r_hintRoutes :: "(string \<times> string list) list"
  r_blacklist :: "(string \<times> string list) list"
  r_whitelist :: "(string \<times> string list) list"

definition Router_New :: router where
  "Router_New = \<lparr>r_backends = [], r_rules = [], r_hintRoutes = [], r_blacklist = [], r_whitelist = []\<rparr>"

definition RegisterBackend :: "(bref \<Rightarrow> backend) \<Rightarrow> bref \<Rightarrow> router \<Rightarrow> router" where
  "RegisterBackend h p r = r\<lparr>r_backends := AList.update (obj_ID h p) p (r_backends r)\<rparr>"

definition UnregisterBackend :: "string \<Rightarrow> router \<Rightarrow> router" where
  "UnregisterBackend i r = r\<lparr>r_backends := AList.delete i (r_backends r)\<rparr>"

definition SetHintRoute :: "string \<Rightarrow> string list \<Rightarrow> router \<Rightarrow> router" where
  "SetHintRoute hint ids r = r\<lparr>r_hintRoutes := AList.update hint ids (r_hintRoutes r)\<rparr>"

definition list_of_key :: "('k \<times> 'v list) list \<Rightarrow> 'k \<Rightarrow> 'v list" where
  "list_of_key m k = (case map_of m k of None \<Rightarrow> [] | Some vs \<Rightarrow> vs)"

definition append_at :: "'k \<Rightarrow> 'v \<Rightarrow> ('k \<times> 'v list) list \<Rightarrow> ('k \<times> 'v list) list" where
  "append_at k v m = AList.update k (list_of_key m k @ [v]) m"

fun index_rules :: "RoutingRule list \<Rightarrow> router \<Rightarrow> router" where
  "index_rules [] r = r"
| "index_rules (rule # rules) r =
     index_rules rules
       (case rr_Strategy rule of
          RoutingStrategyBlacklist \<Rightarrow>
            r\<lparr>r_blacklist := append_at (rr_Pattern rule) (rr_BackendID rule) (r_blacklist r)\<rparr>
        | RoutingStrategyWhitelist \<Rightarrow>
            r\<lparr>r_whitelist := append_at (rr_Pattern rule) (rr_BackendID rule) (r_whitelist r)\<rparr>
        | _ \<Rightarrow> r)"

text \<open>\<open>sorter\<close> is \<open>sort.Slice\<close>, given the comparison of two elements.\<close>

definition higher_priority :: "RoutingRule \<Rightarrow> RoutingRule \<Rightarrow> bool" where
  "higher_priority a b \<longleftrightarrow> rr_Priority b < rr_Priority a"

definition SetRules ::
  "((RoutingRule \<Rightarrow> RoutingRule \<Rightarrow> bool) \<Rightarrow> RoutingRule list \<Rightarrow> RoutingRule list) \<Rightarrow>
   RoutingRule list \<Rightarrow> router \<Rightarrow> router" where
  "SetRules sorter rules r =
     (let sorted = sorter higher_priority rules
      in index_rules sorted
           (r\<lparr>r_rules := sorted, r_hintRoutes := [], r_blacklist := [], r_whitelist := []\<rparr>))"

section \<open>Matching a rule\<close>

definition matchWildcard :: "string \<Rightarrow> string \<Rightarrow> bool" where
  "matchWildcard pattern s =
     (if pattern = s then True
      else if strings_Contains pattern ''*'' \<or> strings_Contains pattern ''?'' then
        (case filepath_Match pattern s of None \<Rightarrow> False | Some matched \<Rightarrow> matched)
      else regexp_literal_match pattern s)"

text \<open>\<open>xx\<close> is \<open>xxhash.Sum64String\<close>.\<close>

definition matchRule :: "(string \<Rightarrow> u64) \<Rightarrow> RoutingRule \<Rightarrow> string \<Rightarrow> bool" where
  "matchRule xx rule key =
     (case rr_Strategy rule of
        RoutingStrategyExact \<Rightarrow> HasPrefix key (TrimSuffix (rr_Pattern rule) ''*'')
      | RoutingStrategyWildcard \<Rightarrow> matchWildcard (rr_Pattern rule) key
      | RoutingStrategyHash \<Rightarrow>
          (if rr_HashMod rule = 0 then False
           else int_of_uint64 (xx key mod uint64_of_int (rr_HashMod rule)) = rr_HashRemainder rule)
      | RoutingStrategyBlacklist \<Rightarrow> matchWildcard (rr_Pattern rule) key
      | RoutingStrategyWhitelist \<Rightarrow> matchWildcard (rr_Pattern rule) key
      | RoutingStrategy_other _ \<Rightarrow> False)"

definition isBlacklisted :: "router \<Rightarrow> string \<Rightarrow> string \<Rightarrow> bool" where
  "isBlacklisted r key i = (\<exists>(pat, ids) \<in> set (r_blacklist r). matchWildcard pat key \<and> i \<in> set ids)"

definition isWhitelisted :: "router \<Rightarrow> string \<Rightarrow> string \<Rightarrow> bool" where
  "isWhitelisted r key i =
     (if r_whitelist r = [] then True
      else (\<exists>(pat, ids) \<in> set (r_whitelist r). matchWildcard pat key \<and> i \<in> set ids))"

section \<open>Choosing backends\<close>

text \<open>\<open>if backend, exists := r.backends[id]; exists && backend.Healthy()\<close>\<close>

definition live :: "(bref \<Rightarrow> backend) \<Rightarrow> router \<Rightarrow> string \<Rightarrow> bref option" where
  "live h r i =
     (case map_of (r_backends r) i of
        None \<Rightarrow> None
      | Some p \<Rightarrow> if obj_Healthy h p then Some p else None)"

fun first_live :: "(bref \<Rightarrow> backend) \<Rightarrow> router \<Rightarrow> string list \<Rightarrow> bref option" where
  "first_live h r [] = None"
| "first_live h r (i # is) = (case live h r i of Some p \<Rightarrow> Some p | None \<Rightarrow> first_live h r is)"

fun first_rule :: "(string \<Rightarrow> u64) \<Rightarrow> (bref \<Rightarrow> backend) \<Rightarrow> router \<Rightarrow> string \<Rightarrow> RoutingRule list \<Rightarrow> bref option" where
  "first_rule xx h r key [] = None"
| "first_rule xx h r key (rule # rules) =
     (if matchRule xx rule key then
        (if rr_Strategy rule = RoutingStrategyBlacklist then first_rule xx h r key rules
         else
           (case live h r (rr_BackendID rule) of
              Some p \<Rightarrow> Some p
            | None \<Rightarrow> first_rule xx h r key rules))
      else first_rule xx h r key rules)"

fun heaviest :: "(bref \<Rightarrow> backend) \<Rightarrow> router \<Rightarrow> string list \<Rightarrow> bref option \<Rightarrow> bref option" where
  "heaviest h r [] best = best"
| "heaviest h r (k # ks) best =
     heaviest h r ks
       (case live h r k of
          None \<Rightarrow> best
        | Some p \<Rightarrow>
            (case best of
               None \<Rightarrow> Some p
             | Some q \<Rightarrow> if obj_Weight h q < obj_Weight h p then Some p else Some q))"

definition getFallbackBackend :: "(bref \<Rightarrow> backend) \<Rightarrow> router \<Rightarrow> string list \<Rightarrow> go_error + bref" where
  "getFallbackBackend h r ks =
     (case heaviest h r ks None of Some p \<Rightarrow> Inr p | None \<Rightarrow> Inl ErrBackendUnhealthy)"

definition GetBackend ::
  "(string \<Rightarrow> u64) \<Rightarrow> (bref \<Rightarrow> backend) \<Rightarrow> router \<Rightarrow> string list \<Rightarrow> string \<Rightarrow> string \<Rightarrow> go_error + bref" where
  "GetBackend xx h r ks key hint =
     (case (if hint \<noteq> '''' then first_live h r (list_of_key (r_hintRoutes r) hint) else None) of
        Some p \<Rightarrow> Inr p
      | None \<Rightarrow>
          (case first_rule xx h r key (r_rules r) of
             Some p \<Rightarrow> Inr p
           | None \<Rightarrow> getFallbackBackend h r ks))"

text \<open>
  The read list: \<open>seen\<close> is the set of IDs met so far, \<open>acc\<close> the list. A loop adds the live
  backend of each ID it has not seen. The last loop reads the ID from the object.
\<close>

fun add_live :: "(bref \<Rightarrow> backend) \<Rightarrow> router \<Rightarrow> string list \<Rightarrow> bref list \<times> string set \<Rightarrow> bref list \<times> string set" where
  "add_live h r [] st = st"
| "add_live h r (i # is) (acc, seen) =
     add_live h r is
       (case live h r i of
          Some p \<Rightarrow> if i \<notin> seen then (acc @ [p], insert i seen) else (acc, seen)
        | None \<Rightarrow> (acc, seen))"

fun add_rest :: "(bref \<Rightarrow> backend) \<Rightarrow> router \<Rightarrow> string list \<Rightarrow> bref list \<times> string set \<Rightarrow> bref list \<times> string set" where
  "add_rest h r [] st = st"
| "add_rest h r (k # ks) (acc, seen) =
     add_rest h r ks
       (case live h r k of
          Some p \<Rightarrow> if obj_ID h p \<notin> seen then (acc @ [p], insert (obj_ID h p) seen) else (acc, seen)
        | None \<Rightarrow> (acc, seen))"

definition rule_ids :: "(string \<Rightarrow> u64) \<Rightarrow> router \<Rightarrow> string \<Rightarrow> string list" where
  "rule_ids xx r key =
     map rr_BackendID
       (filter (\<lambda>rule. matchRule xx rule key \<and> rr_Strategy rule \<noteq> RoutingStrategyBlacklist) (r_rules r))"

definition GetBackendsForRead ::
  "(string \<Rightarrow> u64) \<Rightarrow> (bref \<Rightarrow> backend) \<Rightarrow> router \<Rightarrow> string list \<Rightarrow> string \<Rightarrow> string \<Rightarrow> bref list" where
  "GetBackendsForRead xx h r ks key hint =
     (let s1 = (if hint \<noteq> '''' then add_live h r (list_of_key (r_hintRoutes r) hint) ([], {}) else ([], {}));
          s2 = add_live h r (rule_ids xx r key) s1
      in fst (add_rest h r ks s2))"

definition GetAllBackends :: "router \<Rightarrow> string list \<Rightarrow> bref list" where
  "GetAllBackends r ks = List.map_filter (map_of (r_backends r)) ks"

definition Router_GetBackendByID :: "router \<Rightarrow> string \<Rightarrow> bref option" where
  "Router_GetBackendByID r i = map_of (r_backends r) i"

text \<open>\<open>HashKey\<close>: FNV-1a of the key's bytes.\<close>

definition fnv64a :: "bytes \<Rightarrow> u64" where
  "fnv64a bs = foldl (\<lambda>h b. (xor h (ucast b)) * 1099511628211) 14695981039346656037 bs"

definition HashKey :: "string \<Rightarrow> int \<Rightarrow> int" where
  "HashKey key m0 =
     (let m = (if m0 \<le> 0 then 1 else m0)
      in int_of_uint64 (fnv64a (bytes_of_string key) mod uint64_of_int m))"

section \<open>The interface\<close>

text \<open>
  What the cache service relies on: a write has one target, a read a list of candidates.
  \<open>reads t key hint\<close> is that list for a table \<open>t\<close> that satisfies \<open>inv\<close>.
\<close>

locale routing =
  fixes inv :: "'t \<Rightarrow> bool"
    and target :: "'t \<Rightarrow> string \<Rightarrow> string \<Rightarrow> go_error + 'p"
    and reads :: "'t \<Rightarrow> string \<Rightarrow> string \<Rightarrow> 'p list"
    and is_live :: "'t \<Rightarrow> 'p \<Rightarrow> bool"
  assumes target_live: "inv t \<Longrightarrow> target t key hint = Inr p \<Longrightarrow> is_live t p"
    and target_fails: "inv t \<Longrightarrow> target t key hint = Inl e \<longleftrightarrow> e = ErrBackendUnhealthy \<and> (\<forall>p. \<not> is_live t p)"
    and reads_live: "inv t \<Longrightarrow> set (reads t key hint) = {p. is_live t p}"
    and reads_once: "inv t \<Longrightarrow> distinct (reads t key hint)"
begin

lemma target_is_read: "inv t \<Longrightarrow> target t key hint = Inr p \<Longrightarrow> p \<in> set (reads t key' hint')"
  using target_live reads_live by blast

lemma no_target_no_reads: "inv t \<Longrightarrow> target t key hint = Inl e \<longleftrightarrow> e = ErrBackendUnhealthy \<and> reads t key' hint' = []"
  using target_fails reads_live [of t key' hint'] by (metis empty_Collect_eq set_empty)

text \<open>Every read, whatever its key and hint, tries the same backends.\<close>

lemma same_reads: "inv t \<Longrightarrow> mset (reads t key hint) = mset (reads t key' hint')"
  using reads_live reads_once by (metis set_eq_iff_mset_eq_distinct)

end

section \<open>Invariant\<close>

text \<open>Each backend is registered once, under its own ID.\<close>

definition router_ok :: "(bref \<Rightarrow> backend) \<Rightarrow> router \<Rightarrow> bool" where
  "router_ok h r \<longleftrightarrow>
     distinct (map fst (r_backends r)) \<and> (\<forall>(i, p) \<in> set (r_backends r). obj_ID h p = i)"

definition live_backend :: "(bref \<Rightarrow> backend) \<Rightarrow> router \<Rightarrow> bref \<Rightarrow> bool" where
  "live_backend h r p \<longleftrightarrow> p \<in> snd ` set (r_backends r) \<and> obj_Healthy h p"

lemma router_ok_New [keeps]: "router_ok h Router_New"
  by (simp add: router_ok_def Router_New_def)

lemma in_update: "x \<in> set (AList.update k v al) \<Longrightarrow> x = (k, v) \<or> x \<in> set al"
  by (induction al) (auto split: if_splits)

lemma in_delete: "x \<in> set (AList.delete k al) \<Longrightarrow> x \<in> set al"
  by (auto simp: AList.delete_eq)

lemma router_ok_Register [keeps]: "router_ok h r \<Longrightarrow> router_ok h (RegisterBackend h p r)"
  by (auto simp: router_ok_def RegisterBackend_def distinct_update dest!: in_update)

lemma router_ok_Unregister [keeps]: "router_ok h r \<Longrightarrow> router_ok h (UnregisterBackend i r)"
  by (auto simp: router_ok_def UnregisterBackend_def distinct_delete dest!: in_delete)

lemma router_ok_SetHintRoute [keeps]: "router_ok h r \<Longrightarrow> router_ok h (SetHintRoute hint ids r)"
  by (simp add: router_ok_def SetHintRoute_def)

lemma index_rules_frame:
  "r_backends (index_rules rules r) = r_backends r \<and> r_rules (index_rules rules r) = r_rules r \<and>
   r_hintRoutes (index_rules rules r) = r_hintRoutes r"
  by (induction rules r rule: index_rules.induct) (auto split: RoutingStrategy.splits)

lemma SetRules_frame:
  "r_backends (SetRules sorter rules r) = r_backends r"
  "r_rules (SetRules sorter rules r) = sorter higher_priority rules"
  "r_hintRoutes (SetRules sorter rules r) = []"
  by (simp_all add: SetRules_def Let_def index_rules_frame)

lemma router_ok_SetRules [keeps]: "router_ok h r \<Longrightarrow> router_ok h (SetRules sorter rules r)"
  by (simp add: router_ok_def SetRules_frame)

lemma live_Some: "live h r i = Some p \<longleftrightarrow> map_of (r_backends r) i = Some p \<and> obj_Healthy h p"
  by (auto simp: live_def split: option.splits)

lemma live_own_ID: "router_ok h r \<Longrightarrow> live h r i = Some p \<Longrightarrow> obj_ID h p = i"
  by (auto simp: router_ok_def live_Some dest: map_of_SomeD)

lemma live_backend_iff: "router_ok h r \<Longrightarrow> live_backend h r p \<longleftrightarrow> (\<exists>i. live h r i = Some p)"
  by (force simp: live_backend_def live_Some router_ok_def dest: map_of_SomeD)

lemma live_backend_ID: "router_ok h r \<Longrightarrow> live_backend h r p \<longleftrightarrow> live h r (obj_ID h p) = Some p"
  using live_backend_iff live_own_ID by blast

section \<open>Write target and read list\<close>

text \<open>
  The IDs both calls try first, in order: those of the hint, then those of the rules that
  match and are not blacklist rules.
\<close>

definition candidates :: "(string \<Rightarrow> u64) \<Rightarrow> router \<Rightarrow> string \<Rightarrow> string \<Rightarrow> string list" where
  "candidates xx r key hint =
     (if hint \<noteq> [] then list_of_key (r_hintRoutes r) hint else []) @ rule_ids xx r key"

lemma first_live_append:
  "first_live h r (is @ js) = (case first_live h r is of Some p \<Rightarrow> Some p | None \<Rightarrow> first_live h r js)"
  by (induction "is") (auto split: option.splits)

lemma first_live_Some: "first_live h r is = Some p \<Longrightarrow> \<exists>i \<in> set is. live h r i = Some p"
  by (induction "is") (auto split: option.splits)

lemma first_live_None: "first_live h r is = None \<longleftrightarrow> (\<forall>i \<in> set is. live h r i = None)"
  by (induction "is") (auto split: option.splits)

lemma first_rule_ids:
  "first_rule xx h r key rules =
   first_live h r
     (map rr_BackendID
       (filter (\<lambda>rule. matchRule xx rule key \<and> rr_Strategy rule \<noteq> RoutingStrategyBlacklist) rules))"
  by (induction rules) (auto split: option.splits)

lemma GetBackend_candidates:
  "GetBackend xx h r ks key hint =
   (case first_live h r (candidates xx r key hint) of
      Some p \<Rightarrow> Inr p | None \<Rightarrow> getFallbackBackend h r ks)"
  by (simp add: GetBackend_def candidates_def first_live_append first_rule_ids rule_ids_def split: option.splits)

fun firsts :: "'a list \<Rightarrow> 'a list" where
  "firsts [] = []"
| "firsts (x # xs) = x # filter (\<lambda>y. y \<noteq> x) (firsts xs)"

lemma set_firsts [simp]: "set (firsts xs) = set xs"
  by (induction xs) auto

lemma distinct_firsts [simp]: "distinct (firsts xs)"
  by (induction xs) auto

lemma add_rest_add_live: "router_ok h r \<Longrightarrow> add_rest h r is st = add_live h r is st"
  by (induction h r "is" st rule: add_live.induct) (auto simp: live_own_ID split: option.splits)

lemma add_live_append: "add_live h r (is @ js) st = add_live h r js (add_live h r is st)"
  by (induction h r "is" st rule: add_live.induct) auto

lemma map_filter_live_skip:
  "live h r i = None \<Longrightarrow> List.map_filter (live h r) (filter (\<lambda>j. j \<noteq> i) is) = List.map_filter (live h r) is"
  by (induction "is") (auto split: option.splits)

lemma add_live_list:
  "fst (add_live h r is (acc, seen)) =
   acc @ List.map_filter (live h r) (filter (\<lambda>i. i \<notin> seen) (firsts is))"
proof (induction "is" arbitrary: acc seen)
  case Nil
  then show ?case by simp
next
  case (Cons i "is")
  show ?case
  proof (cases "live h r i")
    case None
    have "filter (\<lambda>j. j \<notin> seen) (filter (\<lambda>j. j \<noteq> i) (firsts is)) =
        filter (\<lambda>j. j \<noteq> i) (filter (\<lambda>j. j \<notin> seen) (firsts is))"
      by (simp add: conj_commute)
    with None Cons.IH map_filter_live_skip [OF None] show ?thesis
      by (simp del: filter_filter)
  next
    case (Some p)
    then show ?thesis
      by (auto simp: Cons.IH conj_commute intro!: arg_cong [of _ _ "List.map_filter (live h r)"]
          filter_cong)
  qed
qed

lemma GetBackendsForRead_list:
  assumes "router_ok h r"
  shows "GetBackendsForRead xx h r ks key hint =
    List.map_filter (live h r) (firsts (candidates xx r key hint @ ks))"
proof -
  have "GetBackendsForRead xx h r ks key hint =
      fst (add_live h r ks (add_live h r (candidates xx r key hint) ([], {})))"
    using assms by (simp add: GetBackendsForRead_def Let_def add_rest_add_live candidates_def add_live_append)
  also have "\<dots> = fst (add_live h r (candidates xx r key hint @ ks) ([], {}))"
    by (simp only: add_live_append)
  finally show ?thesis by (simp add: add_live_list)
qed

lemma first_live_hd:
  "first_live h r is = Some p \<Longrightarrow> \<exists>ps. List.map_filter (live h r) (firsts (is @ js)) = p # ps"
  by (induction "is") (auto simp: map_filter_live_skip split: option.splits)

lemma heaviest_None: "heaviest h r ks best = None \<longleftrightarrow> best = None \<and> (\<forall>k \<in> set ks. live h r k = None)"
  by (induction ks arbitrary: best) (auto split: option.splits)

lemma heaviest_mem:
  "heaviest h r ks best = Some p \<Longrightarrow> best = Some p \<or> (\<exists>k \<in> set ks. live h r k = Some p)"
proof (induction ks arbitrary: best)
  case Nil
  then show ?case by simp
next
  case (Cons k ks)
  from Cons.IH [OF Cons.prems [unfolded heaviest.simps]] show ?case
    by (cases "live h r k"; cases best) (auto split: if_splits)
qed

lemma heaviest_max:
  assumes "heaviest h r ks best = Some p"
  shows "(\<forall>q. best = Some q \<longrightarrow> obj_Weight h q \<le> obj_Weight h p) \<and>
    (\<forall>k \<in> set ks. \<forall>q. live h r k = Some q \<longrightarrow> obj_Weight h q \<le> obj_Weight h p)"
  using assms
proof (induction ks arbitrary: best)
  case Nil
  then show ?case by simp
next
  case (Cons k ks)
  from Cons.IH [OF Cons.prems [unfolded heaviest.simps]] show ?case
    by (cases "live h r k"; cases best) (auto split: if_splits)
qed

text \<open>The table as the routes of one call see it: the objects, the router, the order of its map.\<close>

type_synonym table = "(bref \<Rightarrow> backend) \<times> router \<times> string list"

fun table_ok :: "table \<Rightarrow> bool" where
  "table_ok (h, r, ks) \<longleftrightarrow> router_ok h r \<and> key_order ks (map_of (r_backends r))"

lemma table_live:
  assumes "table_ok (h, r, ks)"
  shows "live_backend h r p \<longleftrightarrow> (\<exists>k \<in> set ks. live h r k = Some p)"
proof -
  have "live h r k = Some p \<Longrightarrow> k \<in> set ks" for k
    using assms by (auto simp: live_Some key_order_def)
  with assms live_backend_iff show ?thesis by auto
qed

lemma fallback_Inr: "getFallbackBackend h r ks = Inr p \<longleftrightarrow> heaviest h r ks None = Some p"
  by (simp add: getFallbackBackend_def split: option.splits)

lemma fallback_Inl:
  "getFallbackBackend h r ks = Inl e \<longleftrightarrow> e = ErrBackendUnhealthy \<and> (\<forall>k \<in> set ks. live h r k = None)"
  using heaviest_None [of h r ks None] by (auto simp: getFallbackBackend_def split: option.splits)

lemma GetBackend_live:
  assumes ok: "table_ok (h, r, ks)" and g: "GetBackend xx h r ks key hint = Inr p"
  shows "live_backend h r p"
proof (cases "first_live h r (candidates xx r key hint)")
  case None
  with g have "heaviest h r ks None = Some p" by (simp add: GetBackend_candidates fallback_Inr)
  then have "\<exists>k \<in> set ks. live h r k = Some p" using heaviest_mem by blast
  with table_live [OF ok] show ?thesis by simp
next
  case (Some q)
  with g have "q = p" by (simp add: GetBackend_candidates)
  with first_live_Some [OF Some] ok live_backend_iff show ?thesis by auto
qed

lemma GetBackend_fails:
  assumes ok: "table_ok (h, r, ks)"
  shows "GetBackend xx h r ks key hint = Inl e \<longleftrightarrow> e = ErrBackendUnhealthy \<and> (\<forall>p. \<not> live_backend h r p)"
proof (cases "first_live h r (candidates xx r key hint)")
  case None
  then have "GetBackend xx h r ks key hint = Inl e \<longleftrightarrow>
      e = ErrBackendUnhealthy \<and> (\<forall>k \<in> set ks. live h r k = None)"
    by (simp add: GetBackend_candidates fallback_Inl)
  with table_live [OF ok] show ?thesis by (metis not_None_eq)
next
  case (Some q)
  with first_live_Some [OF Some] ok have "live_backend h r q" by (auto simp: live_backend_iff)
  with Some show ?thesis by (auto simp: GetBackend_candidates)
qed

lemma reads_set:
  assumes ok: "table_ok (h, r, ks)"
  shows "set (GetBackendsForRead xx h r ks key hint) = {p. live_backend h r p}"
proof -
  have "set (List.map_filter f is) = {y. \<exists>i \<in> set is. f i = Some y}" for f :: "string \<Rightarrow> bref option" and "is"
    by (induction "is") (auto split: option.splits)
  moreover have "(\<exists>k \<in> set ks. live h r k = Some p) \<longleftrightarrow> (\<exists>i. live h r i = Some p)" for p
    using ok live_backend_iff table_live [OF ok] by auto
  ultimately show ?thesis using ok by (simp add: GetBackendsForRead_list live_backend_iff bex_Un) blast
qed

lemma distinct_live_IDs:
  "router_ok h r \<Longrightarrow> distinct is \<Longrightarrow> distinct (map (obj_ID h) (List.map_filter (live h r) is))"
proof (induction "is")
  case Nil
  then show ?case by simp
next
  case (Cons i "is")
  have "obj_ID h ` set (List.map_filter (live h r) is) \<subseteq> set is"
    using Cons.prems(1) by (auto simp: List.map_filter_def live_own_ID)
  with Cons show ?case by (auto simp: live_own_ID split: option.splits)
qed

lemma reads_distinct_IDs:
  "table_ok (h, r, ks) \<Longrightarrow> distinct (map (obj_ID h) (GetBackendsForRead xx h r ks key hint))"
  by (simp add: GetBackendsForRead_list distinct_live_IDs)

interpretation router_rt: routing
  table_ok
  "\<lambda>(h, r, ks) key hint. GetBackend xx h r ks key hint"
  "\<lambda>(h, r, ks) key hint. GetBackendsForRead xx h r ks key hint"
  "\<lambda>(h, r, ks) p. live_backend h r p"
  for xx
proof (unfold_locales, goal_cases)
  case (1 t key hint p)
  then show ?case by (cases t) (auto intro: GetBackend_live)
next
  case (2 t key hint e)
  then show ?case by (cases t) (simp add: GetBackend_fails del: table_ok.simps)
next
  case (3 t key hint)
  then show ?case by (cases t) (simp add: reads_set del: table_ok.simps)
next
  case (4 t key hint)
  then obtain h r ks where "t = (h, r, ks)" "table_ok (h, r, ks)" by (cases t) auto
  with reads_distinct_IDs [of h r ks] show ?case by (simp add: distinct_map)
qed

section \<open>Rules\<close>

text \<open>A rule that decides a write: it matches, is not a blacklist rule, and its backend is live.\<close>

definition serves :: "(string \<Rightarrow> u64) \<Rightarrow> (bref \<Rightarrow> backend) \<Rightarrow> router \<Rightarrow> string \<Rightarrow> RoutingRule \<Rightarrow> bool" where
  "serves xx h r key rule \<longleftrightarrow>
     matchRule xx rule key \<and> rr_Strategy rule \<noteq> RoutingStrategyBlacklist \<and> live h r (rr_BackendID rule) \<noteq> None"

lemma first_rule_find:
  "first_rule xx h r key rules =
   (case find (serves xx h r key) rules of None \<Rightarrow> None | Some rule \<Rightarrow> live h r (rr_BackendID rule))"
  by (induction rules) (auto simp: serves_def split: option.splits)

lemma live_SetRules [simp]: "live h (SetRules sorter rules r) = live h r"
  by (rule ext) (simp add: live_def SetRules_frame)

lemma serves_SetRules [simp]: "serves xx h (SetRules sorter rules r) = serves xx h r"
  by (intro ext) (simp add: serves_def)

lemma live_rules [simp]: "live h (r\<lparr>r_rules := rs\<rparr>) i = live h r i"
  by (simp add: live_def)

lemma first_rule_rules:
  "first_rule xx h (r\<lparr>r_rules := rs\<rparr>) key rules = first_rule xx h r key rules"
  by (induction rules) (simp_all split: option.split)

lemma first_live_rules [simp]: "first_live h (r\<lparr>r_rules := rs\<rparr>) is = first_live h r is"
  by (induction "is") (simp_all split: option.split)

lemma add_live_rules: "add_live h (r\<lparr>r_rules := rs\<rparr>) is st = add_live h r is st"
  by (induction h r "is" st rule: add_live.induct) (simp_all split: option.split)

lemma add_rest_rules: "add_rest h (r\<lparr>r_rules := rs\<rparr>) is st = add_rest h r is st"
  by (induction h r "is" st rule: add_rest.induct) (simp_all split: option.split)

lemma heaviest_rules: "heaviest h (r\<lparr>r_rules := rs\<rparr>) ks best = heaviest h r ks best"
  by (induction ks arbitrary: best) simp_all

lemma fallback_rules: "getFallbackBackend h (r\<lparr>r_rules := rs\<rparr>) ks = getFallbackBackend h r ks"
  by (simp add: getFallbackBackend_def heaviest_rules)

end
