(* ===== verification/Samples.thy ===== *)
theory Samples
  imports Load_Balancer Router Reference_World
begin

text \<open>
  A small configuration the witnesses run on: three backends of the shipped
  \<open>configs/config.yaml\<close> as objects in a heap, registered with a router that has some of its
  rules. It models no code.
\<close>

definition sample_object :: "string \<Rightarrow> int \<Rightarrow> bool \<Rightarrow> backend" where
  "sample_object i weight healthy =
     MemoryBackend \<lparr>mb_id = i, mb_name = i, mb_weight = weight, mb_healthy = healthy, mb_cache = 0,
                    mb_versions = Map.empty, mb_defaultTTL = 300 * Second\<rparr>"

definition sample_heap :: "bref \<Rightarrow> backend" where
  "sample_heap p =
     (if p = 0 then sample_object ''local'' 10 True
      else if p = 1 then sample_object ''redis-master'' 5 True
      else if p = 2 then sample_object ''http-service'' 2 True
      else sample_object ''down'' 1 False)"

definition sample_rule :: "RoutingStrategy \<Rightarrow> string \<Rightarrow> string \<Rightarrow> int \<Rightarrow> RoutingRule" where
  "sample_rule s pat i prio =
     \<lparr>rr_Strategy = s, rr_Pattern = pat, rr_BackendID = i, rr_Priority = prio, rr_HashMod = 0,
      rr_HashRemainder = 0\<rparr>"

definition sample_rules :: "RoutingRule list" where
  "sample_rules =
     [sample_rule RoutingStrategyExact ''user:profile:*'' ''redis-master'' 100,
      sample_rule RoutingStrategyBlacklist ''temp:*'' ''http-service'' 200]"

definition sample_router :: router where
  "sample_router =
     SetRules insertion_sort sample_rules
       (RegisterBackend sample_heap 2
         (RegisterBackend sample_heap 1 (RegisterBackend sample_heap 0 Router_New)))"

definition sample_keys :: "string list" where
  "sample_keys = [''http-service'', ''local'', ''redis-master'']"

lemma sample_IDs [simp]:
  "obj_ID sample_heap 0 = ''local''" "obj_ID sample_heap (Suc 0) = ''redis-master''"
  "obj_ID sample_heap 1 = ''redis-master''" "obj_ID sample_heap 2 = ''http-service''"
  by (simp_all add: obj_ID_def sample_heap_def sample_object_def Backend_ident_def Memory_ident_def)

lemma sample_health [simp]:
  "obj_Healthy sample_heap 0" "obj_Healthy sample_heap (Suc 0)" "obj_Healthy sample_heap 1"
  "obj_Healthy sample_heap 2"
  by (simp_all add: obj_Healthy_def sample_heap_def sample_object_def Backend_Healthy_def)

lemma sample_backends [simp]:
  "r_backends sample_router = [(''local'', 0), (''redis-master'', 1), (''http-service'', 2)]"
  by (simp add: sample_router_def SetRules_frame RegisterBackend_def Router_New_def)

lemma sample_rules_sorted: "r_rules sample_router = rev sample_rules"
  by (simp add: sample_router_def SetRules_frame insertion_sort_def sample_rules_def higher_priority_def
      sample_rule_def)

lemma sample_hints [simp]: "r_hintRoutes sample_router = []"
  by (simp add: sample_router_def SetRules_frame)

lemma sample_table: "table_ok (sample_heap, sample_router, sample_keys)"
  by (auto simp: router_ok_def key_order_def sample_keys_def split: if_splits)

lemma sample_live:
  "live sample_heap sample_router ''local'' = Some 0"
  "live sample_heap sample_router ''redis-master'' = Some 1"
  "live sample_heap sample_router ''http-service'' = Some 2"
  by (simp_all add: live_def)

lemma sample_profile_rule:
  "rule_ids xx sample_router ''user:profile:7'' = [''redis-master'']"
  by (simp add: rule_ids_def sample_rules_sorted sample_rules_def sample_rule_def matchRule_def
      HasPrefix_def TrimSuffix_def HasSuffix_def)

definition sample_lb :: "LoadBalancerStrategy \<Rightarrow> load_balancer" where
  "sample_lb s = \<lparr>lb_strategy = s, lb_backends = [0, 1, 2], lb_counter = 0\<rparr>"

definition sample_ctx :: "sim heap_ctx" where
  "sample_ctx = \<lparr>world = sim0, mtr = None, heap = sample_heap\<rparr>"

end
