(* ===== verification/Routing_Properties.thy ===== *)
theory Routing_Properties
  imports Samples
begin

text \<open>
  What routing promises: how the write target relates to the read list, that the read list
  is complete, when there is no target, what the priorities and the blacklist rules do, and
  what each kind of pattern matches.
\<close>

section \<open>Targets and read lists\<close>

text \<open>
  C11: a write and a read of the same key agree. Where a hint or a rule names a live backend,
  the write's target is the first backend the read tries; otherwise the write goes to a
  live backend of maximal weight (while the read tries all live backends in map order).
\<close>

theorem write_target_heads_reads:
  assumes "table_ok (h, r, ks)" "GetBackend xx h r ks key hint = Inr p"
  shows "if \<exists>i \<in> set (candidates xx r key hint). live h r i \<noteq> None
         then hd (GetBackendsForRead xx h r ks key hint) = p
         else live_backend h r p \<and> (\<forall>q. live_backend h r q \<longrightarrow> obj_Weight h q \<le> obj_Weight h p)"
proof (cases "first_live h r (candidates xx r key hint)")
  case None
  with assms(2) have top: "heaviest h r ks None = Some p"
    by (simp add: GetBackend_candidates fallback_Inr)
  have "obj_Weight h q \<le> obj_Weight h p" if "live_backend h r q" for q
    using heaviest_max [OF top] that table_live [OF assms(1)] by auto
  moreover have "live_backend h r p" by (rule GetBackend_live [OF assms])
  moreover have "\<not> (\<exists>i \<in> set (candidates xx r key hint). live h r i \<noteq> None)"
    using None by (simp add: first_live_None)
  ultimately show ?thesis by (simp only: if_False) blast
next
  case (Some q)
  with assms(2) have "q = p" by (simp add: GetBackend_candidates)
  moreover have "\<exists>i \<in> set (candidates xx r key hint). live h r i \<noteq> None"
    using first_live_Some [OF Some] by auto
  ultimately show ?thesis
    using assms(1) first_live_hd [OF Some, of ks] by (auto simp: GetBackendsForRead_list)
qed

lemma write_target_heads_reads_witness:
  "hd (GetBackendsForRead (\<lambda>_. 0) sample_heap sample_router sample_keys ''user:profile:7'' []) = 1"
proof -
  have c: "candidates (\<lambda>_. 0) sample_router ''user:profile:7'' [] = [''redis-master'']"
    by (simp add: candidates_def sample_profile_rule)
  then have "GetBackend (\<lambda>_. 0) sample_heap sample_router sample_keys ''user:profile:7'' [] = Inr 1"
    by (simp add: GetBackend_candidates sample_live)
  from write_target_heads_reads [OF sample_table this] show ?thesis by (simp add: c sample_live)
qed

text \<open>
  C12: a read tries every live backend exactly once, whatever its key and hint: the hinted
  and matched ones first, then the others; no ID occurs twice.
\<close>

theorem reads_cover_live:
  assumes "table_ok (h, r, ks)"
  shows "set (GetBackendsForRead xx h r ks key hint) = {p. live_backend h r p} \<and>
    distinct (map (obj_ID h) (GetBackendsForRead xx h r ks key hint)) \<and>
    GetBackendsForRead xx h r ks key hint =
      List.map_filter (live h r) (firsts (candidates xx r key hint @ ks))"
  using assms reads_distinct_IDs [OF assms] reads_set [OF assms] by (simp add: GetBackendsForRead_list)

lemma reads_cover_live_witness:
  "length (GetBackendsForRead (\<lambda>_. 0) sample_heap sample_router sample_keys ''user:profile:7'' []) = 3"
proof -
  have "GetBackendsForRead (\<lambda>_. 0) sample_heap sample_router sample_keys ''user:profile:7'' [] = [1, 2, 0]"
    using reads_cover_live [OF sample_table, of "\<lambda>_. 0" "''user:profile:7''" "[]"]
    by (simp add: candidates_def sample_profile_rule sample_keys_def sample_live)
  then show ?thesis by simp
qed

text \<open>
  C34: a write finds no target exactly when no registered backend is healthy, that is when
  every read, of any key, has nothing to try; the error is \<open>ErrBackendUnhealthy\<close>.
\<close>

theorem no_target_iff_nothing_live:
  assumes "table_ok (h, r, ks)"
  shows "GetBackend xx h r ks key hint = Inl e \<longleftrightarrow>
    e = ErrBackendUnhealthy \<and> GetBackendsForRead xx h r ks key' hint' = []"
  using router_rt.no_target_no_reads [of "(h, r, ks)" xx key hint e key' hint'] assms by simp

lemma no_target_iff_nothing_live_witness:
  "GetBackend (\<lambda>_. 0) sample_heap sample_router sample_keys ''k'' [] \<noteq> Inl ErrBackendUnhealthy"
  using no_target_iff_nothing_live [OF sample_table, of "\<lambda>_. 0" "''k''" "[]" ErrBackendUnhealthy "''user:profile:7''" "[]"]
  by (simp add: GetBackendsForRead_list sample_table [simplified] candidates_def sample_profile_rule
      sample_keys_def sample_live)

section \<open>Rules\<close>

text \<open>
  C13: the priorities decide. After \<open>SetRules\<close>, if some rule serves the key (it matches, is
  not a blacklist rule and its backend is live), the write goes to the backend of a serving
  rule that no serving rule exceeds in priority, whatever the hint and however \<open>sort.Slice\<close>
  orders equal priorities.
\<close>

theorem highest_priority_wins:
  assumes "slice_sorter sorter" "rule0 \<in> set rules" "serves xx h r key rule0"
  shows "\<exists>rule \<in> set rules. \<exists>p.
    serves xx h r key rule \<and> live h r (rr_BackendID rule) = Some p \<and>
    GetBackend xx h (SetRules sorter rules r) ks key hint = Inr p \<and>
    (\<forall>rule' \<in> set rules. serves xx h r key rule' \<longrightarrow> rr_Priority rule' \<le> rr_Priority rule)"
proof -
  have w: "strict_weak higher_priority"
    using strict_weak_measure [of rr_Priority] by (simp add: higher_priority_def [abs_def])
  let ?find = "find (serves xx h r key) (sorter higher_priority rules)"
  obtain rule where f: "?find = Some rule"
    using assms slice_sorter.sorter_set [OF assms(1)] by (metis find_None_set not_None_eq)
  then have rule: "rule \<in> set rules" "serves xx h r key rule"
    using find_Some_set slice_sorter.sorter_set [OF assms(1)] by fastforce+
  then obtain p where p: "live h r (rr_BackendID rule) = Some p" by (auto simp: serves_def)
  then have "GetBackend xx h (SetRules sorter rules r) ks key hint = Inr p"
    using f by (simp add: GetBackend_def SetRules_frame list_of_key_def first_rule_find)
  moreover have "rr_Priority rule' \<le> rr_Priority rule" if "rule' \<in> set rules" "serves xx h r key rule'" for rule'
    using slice_sorter.first_is_least [OF assms(1) w f that] by (simp add: higher_priority_def)
  ultimately show ?thesis using rule p by blast
qed

lemma highest_priority_wins_witness:
  "GetBackend (\<lambda>_. 0) sample_heap (SetRules insertion_sort sample_rules sample_router) sample_keys
     ''user:profile:7'' ''gold'' = Inr 1"
proof -
  let ?rule = "sample_rule RoutingStrategyExact ''user:profile:*'' ''redis-master'' 100"
  have serving: "serves (\<lambda>_. 0) sample_heap sample_router ''user:profile:7'' rule \<longleftrightarrow> rule = ?rule"
    if "rule \<in> set sample_rules" for rule
    using that
    by (auto simp: serves_def sample_rules_def sample_rule_def matchRule_def HasPrefix_def TrimSuffix_def
        HasSuffix_def sample_live)
  have "?rule \<in> set sample_rules" by (simp add: sample_rules_def)
  with serving highest_priority_wins [OF insertion_sorter.slice_sorter_axioms, of ?rule sample_rules "\<lambda>_. 0"
      sample_heap sample_router "''user:profile:7''" sample_keys "''gold''"]
  show ?thesis by (auto simp: sample_rule_def sample_live)
qed

text \<open>
  C35: the blacklist rules do nothing. Taking them out of the rules changes neither the
  target of a write nor the list of a read, for any key: the code skips a matching
  blacklist rule and goes on, so a backend a key is barred from still serves it.
\<close>

theorem blacklist_has_no_effect:
  "let r' = r\<lparr>r_rules := filter (\<lambda>rule. rr_Strategy rule \<noteq> RoutingStrategyBlacklist) (r_rules r)\<rparr>
   in GetBackend xx h r' ks key hint = GetBackend xx h r ks key hint \<and>
      GetBackendsForRead xx h r' ks key hint = GetBackendsForRead xx h r ks key hint"
proof -
  let ?r' = "r\<lparr>r_rules := filter (\<lambda>rule. rr_Strategy rule \<noteq> RoutingStrategyBlacklist) (r_rules r)\<rparr>"
  have "rule_ids xx ?r' key = rule_ids xx r key"
    by (auto simp: rule_ids_def intro: arg_cong [of _ _ "map rr_BackendID"] filter_cong)
  moreover from this have "candidates xx ?r' key hint = candidates xx r key hint"
    by (simp add: candidates_def)
  ultimately show ?thesis
    by (simp add: Let_def GetBackend_candidates fallback_rules GetBackendsForRead_def add_live_rules add_rest_rules
        cong: option.case_cong)
qed

section \<open>Patterns\<close>

text \<open>
  C33: a wildcard or whitelist pattern made of literal bytes and stars matches exactly the
  keys the reference \<open>glob\<close> accepts, in which a star stands for any run of bytes without
  \<open>/\<close>: a namespace pattern does not reach keys below a slash.
\<close>

theorem matchWildcard_is_glob:
  assumes "stars_and_literals pat" "CHR ''*'' \<in> set pat"
  shows "matchWildcard pat key \<longleftrightarrow> glob pat key"
  using assms glob_refl
  by (auto simp: matchWildcard_def filepath_Match_glob strings_Contains_char)

lemma matchWildcard_is_glob_witness:
  "matchWildcard ''cache:*'' ''cache:a'' \<and> \<not> matchWildcard ''cache:*'' ''cache:a/b''"
  using matchWildcard_is_glob [of "''cache:*''" "''cache:a''"] matchWildcard_is_glob [of "''cache:*''" "''cache:a/b''"]
  by (simp add: stars_and_literals_def literal_char_def)

text \<open>
  The strategy \<open>exact\<close> is a prefix match: one trailing star of the pattern is dropped
  and every key that extends the rest matches, with or without the star, across \<open>/\<close>.
\<close>

theorem exact_is_prefix:
  "rr_Strategy rule = RoutingStrategyExact \<Longrightarrow>
   matchRule xx (rule\<lparr>rr_Pattern := p @ ''*''\<rparr>) key = prefix p key \<and>
   (\<not> suffix ''*'' p \<longrightarrow> matchRule xx (rule\<lparr>rr_Pattern := p\<rparr>) key = prefix p key)"
  by (simp add: matchRule_def HasPrefix_prefix TrimSuffix_other)

lemma exact_is_prefix_witness:
  "matchRule (\<lambda>_. 0) (sample_rule RoutingStrategyExact ''user:*'' ''local'' 1) ''user:a/b''"
  using exact_is_prefix [of "sample_rule RoutingStrategyExact [] ''local'' 1" "\<lambda>_. 0" "''user:''" "''user:a/b''"]
  by (simp add: sample_rule_def)

text \<open>
  Hash rules with one modulus partition the keys: for every key exactly one remainder
  in \<open>0 ..< m\<close> matches, whatever the hash function; \<open>HashKey\<close> is a number in that range too.
\<close>

theorem hash_rules_partition:
  assumes "rr_Strategy rule = RoutingStrategyHash" "rr_HashMod rule = m" "0 < m" "m < 2 ^ 63"
  shows "(\<exists>!rem. 0 \<le> rem \<and> rem < m \<and> matchRule xx (rule\<lparr>rr_HashRemainder := rem\<rparr>) key) \<and>
    0 \<le> HashKey key m \<and> HashKey key m < m"
proof -
  have bounds: "0 \<le> int_of_uint64 (u mod uint64_of_int m) \<and> int_of_uint64 (u mod uint64_of_int m) < m" for u
    using mod_uint64_bounds assms(3,4) by blast
  with assms have "\<exists>!rem. 0 \<le> rem \<and> rem < m \<and> matchRule xx (rule\<lparr>rr_HashRemainder := rem\<rparr>) key"
    by (auto simp: matchRule_def)
  with bounds assms(3) show ?thesis by (simp add: HashKey_def Let_def)
qed

lemma hash_rules_partition_witness:
  "\<exists>!rem. 0 \<le> rem \<and> rem < 2 \<and>
     matchRule (\<lambda>_. 7) (sample_rule RoutingStrategyHash ''*'' ''local'' 1\<lparr>rr_HashMod := 2, rr_HashRemainder := rem\<rparr>) ''k''"
  using hash_rules_partition [of "sample_rule RoutingStrategyHash ''*'' ''local'' 1\<lparr>rr_HashMod := 2\<rparr>" 2 "\<lambda>_. 7" "''k''"]
  by (simp add: sample_rule_def)

section \<open>Load balancing\<close>

text \<open>
  C31: whatever the strategy, the balancer returns a registered backend that is healthy now,
  fails exactly when none is, and changes nothing but its counter and the random source.
\<close>

theorem Next_sound:
  assumes "Intn_ok E" "length (LB_GetAll lb) < 2 ^ 63" "LB_Next E lb c = (res, lb', c')"
  shows "(case res of
      Inr p \<Rightarrow> p \<in> set (LB_GetAll lb) \<and> obj_Healthy (heap c) p
    | Inl e \<Rightarrow> e = ErrBackendUnhealthy \<and> (\<forall>p \<in> set (LB_GetAll lb). \<not> obj_Healthy (heap c) p)) \<and>
    LB_GetAll lb' = LB_GetAll lb \<and> heap c' = heap c"
proof (cases "getHealthyBackends (heap c) lb = []")
  case True
  with assms(3) show ?thesis
    by (auto simp: LB_Next_def Let_def LB_GetAll_def getHealthyBackends_def filter_empty_conv)
next
  case False
  let ?ps = "getHealthyBackends (heap c) lb"
  obtain p1 w1 where wr: "weightedRandom E (heap c) ?ps (world c) = (Inr p1, w1)" "p1 \<in> set ?ps"
    using weightedRandom_mem [OF False assms(1)] by blast
  obtain p2 w2 where lr: "lb_random E ?ps (world c) = (Inr p2, w2)" "p2 \<in> set ?ps"
    using lb_random_mem [OF False assms(1)] by blast
  obtain p3 lb3 where rr: "roundRobin lb ?ps = (Inr p3, lb3)" "p3 \<in> set ?ps" "lb_backends lb3 = lb_backends lb"
    using roundRobin_mem [OF False] assms(2) le_less_trans [OF length_filter_le]
    by (metis LB_GetAll_def getHealthyBackends_def)
  have "(\<exists>p \<in> set ?ps. res = Inr p) \<and> lb_backends lb' = lb_backends lb \<and> heap c' = heap c"
    using assms(3) False wr lr rr
    by (cases "lb_strategy lb") (auto simp: LB_Next_def Let_def)
  then show ?thesis by (auto simp: LB_GetAll_def getHealthyBackends_def)
qed

lemma Next_sound_witness:
  "\<exists>p lb' c'. LB_Next sim_env (sample_lb StrategyWeighted) sample_ctx = (Inr p, lb', c') \<and> p \<in> {0, 1, 2}"
proof -
  have "Intn_ok sim_env" by (simp add: Intn_ok_def)
  moreover obtain res lb' c' where
    n: "LB_Next sim_env (sample_lb StrategyWeighted) sample_ctx = (res, lb', c')"
    by (metis prod_cases3)
  ultimately show ?thesis
    using Next_sound [of sim_env "sample_lb StrategyWeighted" sample_ctx res lb' c']
    by (auto simp: sample_lb_def LB_GetAll_def sample_ctx_def split: sum.splits)
qed

text \<open>
  Round-robin is fair. With \<open>m\<close> healthy backends, \<open>m\<close> calls in a row return each of
  them once: a rotation of the list, from wherever the counter stands, as long as the
  64-bit counter does not wrap on the way.
\<close>

theorem round_robin_fair:
  assumes "lb_strategy lb = StrategyRoundRobin" "getHealthyBackends (heap c) lb = ps" "ps \<noteq> []"
    "length (LB_GetAll lb) < 2 ^ 63" "unat (lb_counter lb) + length ps < 2 ^ 64"
  shows "fst (Next_times E (length ps) lb c) = map Inr (rotate (unat (lb_counter lb) + 1) ps)"
proof -
  have "fst (Next_times E (length ps) lb c) =
      map Inr (map (\<lambda>i. ps ! ((unat (lb_counter lb) + 1 + i) mod length ps)) [0..<length ps])"
    using Next_times_RoundRobin [of lb c ps "length ps" E] assms by (simp add: LB_GetAll_def)
  then show ?thesis by (simp only: map_nth_rotate)
qed

lemma round_robin_fair_witness:
  "fst (Next_times sim_env 3 (sample_lb StrategyRoundRobin) sample_ctx) = [Inr 1, Inr 2, Inr 0]"
  using round_robin_fair [of "sample_lb StrategyRoundRobin" sample_ctx "[0, 1, 2]" sim_env]
  by (simp add: sample_lb_def sample_ctx_def getHealthyBackends_def LB_GetAll_def numeral_3_eq_3
      del: Next_times.simps)

text \<open>
  Weighted choice is proportional. Of the numbers \<open>0 ..< total\<close> the random source may
  return, exactly as many pick a backend as its weight (a weight below 1 counts as 1),
  provided the weights sum within an \<open>int\<close>.
\<close>

theorem weighted_random_proportional:
  assumes "distinct ps" "p \<in> set ps" "weight_sum h ps < 2 ^ 63"
  shows "card {r \<in> {0 ..< weight_sum h ps}.
      weightedRandom (E\<lparr>env_Intn := (\<lambda>n w. (if n = weight_sum h ps then r else -1, w))\<rparr>) h ps w = (Inr p, w)}
    = nat (effective_weight h p)"
proof -
  obtain a where a: "0 \<le> a" "a + effective_weight h p \<le> weight_sum h ps"
    "{r. 0 \<le> r \<and> weighted_pick h ps r = Some p} = {a ..< a + effective_weight h p}"
    using weighted_pick_interval [OF assms(1,2)] by blast
  have tot: "total_weight h ps 0 = weight_sum h ps" using total_weight_sum [of 0 h ps] assms(3) by simp
  have pos: "0 < weight_sum h ps" using a effective_weight_pos [of h p] by linarith
  have hit: "weighted_pick h ps r \<noteq> None" if "r < weight_sum h ps" for r
    using weighted_pick_None [of ps h r] that assms(2) by (cases "ps = []") force+
  have "{r \<in> {0 ..< weight_sum h ps}.
      weightedRandom (E\<lparr>env_Intn := (\<lambda>n w. (if n = weight_sum h ps then r else -1, w))\<rparr>) h ps w = (Inr p, w)}
    = {r. 0 \<le> r \<and> r < weight_sum h ps \<and> weighted_pick h ps r = Some p}"
    using assms(2) pos hit by (auto simp: weightedRandom_def Let_def tot split: option.splits)
  also have "\<dots> = {a ..< a + effective_weight h p}" using a by auto
  finally show ?thesis by simp
qed

lemma weighted_random_proportional_witness:
  "card {r \<in> {0 ..< 17}.
     weightedRandom (sim_env\<lparr>env_Intn := (\<lambda>n w. (if n = 17 then r else -1, w))\<rparr>) sample_heap [0, 1, 2] sim0 =
       (Inr 1, sim0)} = 5"
  using weighted_random_proportional [of "[0, 1, 2]" 1 sample_heap sim_env sim0]
  by (simp add: weight_sum_def effective_weight_def obj_Weight_def sample_heap_def sample_object_def
      Backend_ident_def Memory_ident_def)

end
