(* ===== verification/Circuit.thy ===== *)
theory Circuit
  imports Externals Config
begin

text \<open>
  Package \<open>internal/circuit\<close>: one breaker for each backend, held by a manager under the
  backend's ID. A nil \<open>*CircuitBreaker\<close> is \<open>None\<close>. The manager's metrics object is the one
  of the context. The counters are Go \<open>int\<close>s; the invariant \<open>breaker_ok\<close> bounds them, so
  they never wrap. What the cache service relies on is the locale \<open>call_gate\<close>.
\<close>

section \<open>State\<close>

datatype cb_state = StateClosed | StateOpen | StateHalfOpen | State_other int

fun state_int :: "cb_state \<Rightarrow> int" where
  "state_int StateClosed = 0"
| "state_int StateOpen = 1"
| "state_int StateHalfOpen = 2"
| "state_int (State_other n) = n"

record breaker =
  cb_id :: string
  cb_state :: cb_state
  cb_config :: CircuitBreakerConfig
  cb_failureCount :: int
  cb_successCount :: int
  cb_halfOpenCalls :: int
  cb_lastStateChange :: instant
  cb_timeout :: duration

type_synonym circuit_manager = "string \<Rightarrow> breaker option"

definition NewCircuitBreakerManager :: circuit_manager where
  "NewCircuitBreakerManager = Map.empty"

definition GetOrCreate ::
  "'w env \<Rightarrow> string \<Rightarrow> CircuitBreakerConfig option \<Rightarrow> circuit_manager \<Rightarrow> ('w, 'z) ctx_scheme \<Rightarrow>
   breaker option \<times> circuit_manager \<times> ('w, 'z) ctx_scheme" where
  "GetOrCreate E i cfg0 m c =
     (case m i of
        Some cb \<Rightarrow> (Some cb, m, c)
      | None \<Rightarrow>
          (case cfg0 of
             None \<Rightarrow> (None, m, c)
           | Some cfg \<Rightarrow>
               if \<not> cbc_Enabled cfg then (None, m, c)
               else
                 (let timeout = ParseDuration (cbc_Timeout cfg) (30 * Second);
                      (t, c') = time_Now E c;
                      cb = \<lparr>cb_id = i, cb_state = StateClosed, cb_config = cfg, cb_failureCount = 0,
                            cb_successCount = 0, cb_halfOpenCalls = 0, cb_lastStateChange = t,
                            cb_timeout = timeout\<rparr>
                  in (Some cb, m(i \<mapsto> cb), c'))))"

section \<open>Operations\<close>

definition setState ::
  "'w env \<Rightarrow> cb_state \<Rightarrow> breaker \<Rightarrow> ('w, 'z) ctx_scheme \<Rightarrow> breaker \<times> ('w, 'z) ctx_scheme" where
  "setState E st cb c =
     (let (t, c1) = time_Now E c;
          c2 = (if cb_state cb \<noteq> st then record_metric (SetCircuitBreakerState (cb_id cb) (state_int st)) c1 else c1)
      in (cb\<lparr>cb_state := st, cb_lastStateChange := t\<rparr>, c2))"

definition Allow ::
  "'w env \<Rightarrow> breaker option \<Rightarrow> ('w, 'z) ctx_scheme \<Rightarrow> bool \<times> breaker option \<times> ('w, 'z) ctx_scheme" where
  "Allow E b c =
     (case b of
        None \<Rightarrow> (True, None, c)
      | Some cb \<Rightarrow>
          (case cb_state cb of
             StateClosed \<Rightarrow> (True, b, c)
           | StateOpen \<Rightarrow>
               (let (d1, c1) = time_Since E (cb_lastStateChange cb) c in
                if cb_timeout cb < d1 then
                  (let (d2, c2) = time_Since E (cb_lastStateChange cb) c1 in
                   if cb_timeout cb < d2 then
                     (let (cb', c3) = setState E StateHalfOpen cb c2
                      in (cb_state cb' = StateHalfOpen, Some (cb'\<lparr>cb_halfOpenCalls := 0\<rparr>), c3))
                   else (cb_state cb = StateHalfOpen, b, c2))
                else (False, b, c1))
           | StateHalfOpen \<Rightarrow>
               if cb_halfOpenCalls cb < cbc_HalfOpenMaxCalls (cb_config cb)
               then (True, Some (cb\<lparr>cb_halfOpenCalls := wrap64 (cb_halfOpenCalls cb + 1)\<rparr>), c)
               else (False, b, c)
           | State_other _ \<Rightarrow> (True, b, c)))"

definition RecordSuccess ::
  "'w env \<Rightarrow> breaker option \<Rightarrow> ('w, 'z) ctx_scheme \<Rightarrow> breaker option \<times> ('w, 'z) ctx_scheme" where
  "RecordSuccess E b c =
     (case b of
        None \<Rightarrow> (None, c)
      | Some cb \<Rightarrow>
          (case cb_state cb of
             StateClosed \<Rightarrow> (Some (cb\<lparr>cb_failureCount := 0\<rparr>), c)
           | StateHalfOpen \<Rightarrow>
               (let cb1 = cb\<lparr>cb_successCount := wrap64 (cb_successCount cb + 1)\<rparr> in
                if cbc_SuccessThreshold (cb_config cb) \<le> cb_successCount cb1 then
                  (let (cb2, c') = setState E StateClosed cb1 c
                   in (Some (cb2\<lparr>cb_failureCount := 0, cb_successCount := 0, cb_halfOpenCalls := 0\<rparr>), c'))
                else (Some cb1, c))
           | _ \<Rightarrow> (b, c)))"

definition RecordFailure ::
  "'w env \<Rightarrow> breaker option \<Rightarrow> ('w, 'z) ctx_scheme \<Rightarrow> breaker option \<times> ('w, 'z) ctx_scheme" where
  "RecordFailure E b c =
     (case b of
        None \<Rightarrow> (None, c)
      | Some cb \<Rightarrow>
          (case cb_state cb of
             StateClosed \<Rightarrow>
               (let cb1 = cb\<lparr>cb_failureCount := wrap64 (cb_failureCount cb + 1)\<rparr> in
                if cbc_FailureThreshold (cb_config cb) \<le> cb_failureCount cb1
                then (let (cb2, c') = setState E StateOpen cb1 c in (Some cb2, c'))
                else (Some cb1, c))
           | StateHalfOpen \<Rightarrow>
               (let (cb1, c') = setState E StateOpen cb c
                in (Some (cb1\<lparr>cb_failureCount := cbc_FailureThreshold (cb_config cb), cb_successCount := 0,
                             cb_halfOpenCalls := 0\<rparr>), c'))
           | _ \<Rightarrow> (b, c)))"

definition Breaker_State :: "breaker option \<Rightarrow> cb_state" where
  "Breaker_State b = (case b of None \<Rightarrow> StateClosed | Some cb \<Rightarrow> cb_state cb)"

fun stateToString :: "cb_state \<Rightarrow> string" where
  "stateToString StateClosed = ''closed''"
| "stateToString StateOpen = ''open''"
| "stateToString StateHalfOpen = ''half-open''"
| "stateToString (State_other n) = ''unknown''"

text \<open>
  The manager shares its breakers by pointer: what a call does to a breaker is seen under
  its ID. \<open>fn\<close> works on the context and cannot reach the manager.
\<close>

definition put_back :: "string \<Rightarrow> breaker option \<Rightarrow> circuit_manager \<Rightarrow> circuit_manager" where
  "put_back i b m = (case b of None \<Rightarrow> m | Some cb \<Rightarrow> m(i \<mapsto> cb))"

definition Execute ::
  "'w env \<Rightarrow> string \<Rightarrow> (('w, 'z) ctx_scheme \<Rightarrow> go_error option \<times> ('w, 'z) ctx_scheme) \<Rightarrow>
   circuit_manager \<Rightarrow> ('w, 'z) ctx_scheme \<Rightarrow> go_error option \<times> circuit_manager \<times> ('w, 'z) ctx_scheme" where
  "Execute E i fn m c =
     (let (cb, m1, c1) = GetOrCreate E i None m c;
          (ok, cb1, c2) = Allow E cb c1
      in if \<not> ok then (Some CircuitErrCircuitOpen, put_back i cb1 m1, c2)
         else
           (let (err, c3) = fn c2 in
            case err of
              Some e \<Rightarrow> (let (cb2, c4) = RecordFailure E cb1 c3 in (Some e, put_back i cb2 m1, c4))
            | None \<Rightarrow> (let (cb2, c4) = RecordSuccess E cb1 c3 in (None, put_back i cb2 m1, c4))))"

definition Manager_Close :: "circuit_manager \<Rightarrow> circuit_manager" where
  "Manager_Close m = Map.empty"

section \<open>Invariant\<close>

text \<open>The counters of a state are in range and those of the other states are reset.\<close>

definition config_in_range :: "CircuitBreakerConfig \<Rightarrow> bool" where
  "config_in_range cfg \<longleftrightarrow>
     in_int64 (cbc_FailureThreshold cfg) \<and> in_int64 (cbc_SuccessThreshold cfg) \<and> in_int64 (cbc_HalfOpenMaxCalls cfg)"

definition breaker_ok :: "breaker \<Rightarrow> bool" where
  "breaker_ok cb \<longleftrightarrow>
     config_in_range (cb_config cb) \<and>
     (case cb_state cb of
        StateClosed \<Rightarrow>
          cb_successCount cb = 0 \<and> cb_halfOpenCalls cb = 0 \<and> 0 \<le> cb_failureCount cb \<and>
          (cb_failureCount cb = 0 \<or> cb_failureCount cb < cbc_FailureThreshold (cb_config cb))
      | StateOpen \<Rightarrow>
          cb_successCount cb = 0 \<and> cb_halfOpenCalls cb = 0 \<and>
          cbc_FailureThreshold (cb_config cb) \<le> cb_failureCount cb
      | StateHalfOpen \<Rightarrow>
          0 \<le> cb_successCount cb \<and>
          (cb_successCount cb = 0 \<or> cb_successCount cb < cbc_SuccessThreshold (cb_config cb)) \<and>
          0 \<le> cb_halfOpenCalls cb \<and>
          (cb_halfOpenCalls cb = 0 \<or> cb_halfOpenCalls cb \<le> cbc_HalfOpenMaxCalls (cb_config cb))
      | State_other _ \<Rightarrow> False)"

lemma in_range_suc: "0 \<le> x \<Longrightarrow> x = 0 \<or> x < y \<Longrightarrow> in_int64 y \<Longrightarrow> wrap64 (x + 1) = x + 1"
  by (rule wrap64_id) (auto simp: in_int64_def)

lemma setState_simps:
  assumes "setState E st cb c = (cb', c')"
  shows "cb_state cb' = st" "cb_config cb' = cb_config cb" "cb_failureCount cb' = cb_failureCount cb"
    "cb_successCount cb' = cb_successCount cb" "cb_halfOpenCalls cb' = cb_halfOpenCalls cb"
    "cb_timeout cb' = cb_timeout cb" "cb_id cb' = cb_id cb"
  using assms by (auto simp: setState_def Let_def split: prod.splits)

lemma breaker_ok_fresh:
  "cb_state cb = StateClosed \<Longrightarrow> cb_successCount cb = 0 \<Longrightarrow> cb_halfOpenCalls cb = 0 \<Longrightarrow>
   cb_failureCount cb = 0 \<Longrightarrow> config_in_range (cb_config cb) \<Longrightarrow> breaker_ok cb"
  by (simp add: breaker_ok_def)

definition manager_ok :: "circuit_manager \<Rightarrow> bool" where
  "manager_ok m \<longleftrightarrow> (\<forall>i cb. m i = Some cb \<longrightarrow> breaker_ok cb)"

lemma manager_ok_New [keeps]: "manager_ok NewCircuitBreakerManager" "manager_ok (Manager_Close m)"
  by (simp_all add: manager_ok_def NewCircuitBreakerManager_def Manager_Close_def)

lemma manager_ok_put [keeps]:
  "manager_ok m \<Longrightarrow> (\<And>cb. b = Some cb \<Longrightarrow> breaker_ok cb) \<Longrightarrow> manager_ok (put_back i b m)"
  by (auto simp: manager_ok_def put_back_def split: option.splits)

lemma GetOrCreate_ok [keeps]:
  assumes "GetOrCreate E i cfg0 m c = (b, m', c')" "manager_ok m" "\<And>cfg. cfg0 = Some cfg \<Longrightarrow> config_in_range cfg"
  shows "manager_ok m' \<and> m' i = b \<and> (\<forall>cb. b = Some cb \<longrightarrow> breaker_ok cb)"
  using assms
  by (auto simp: GetOrCreate_def Let_def manager_ok_def breaker_ok_fresh split: option.splits if_splits prod.splits)

lemma GetOrCreate_nil: "GetOrCreate E i None m c = (m i, m, c)"
  by (simp add: GetOrCreate_def split: option.splits)

lemma Allow_ok [keeps]:
  assumes "breaker_ok cb" "Allow E (Some cb) c = (ok, b', c')"
  shows "\<exists>cb'. b' = Some cb' \<and> breaker_ok cb' \<and> cb_config cb' = cb_config cb \<and> cb_timeout cb' = cb_timeout cb"
proof (cases "cb_state cb")
  case StateHalfOpen
  with assms in_range_suc [of "cb_halfOpenCalls cb" "cbc_HalfOpenMaxCalls (cb_config cb)"] show ?thesis
    by (auto simp: Allow_def breaker_ok_def config_in_range_def split: if_splits)
next
  case StateOpen
  with assms show ?thesis
    by (auto simp: Allow_def breaker_ok_def Let_def setState_simps split: if_splits prod.splits)
qed (use assms in \<open>auto simp: Allow_def breaker_ok_def\<close>)

lemma RecordSuccess_ok [keeps]:
  assumes "breaker_ok cb" "RecordSuccess E (Some cb) c = (b', c')"
  shows "\<exists>cb'. b' = Some cb' \<and> breaker_ok cb' \<and> cb_config cb' = cb_config cb \<and> cb_timeout cb' = cb_timeout cb"
proof (cases "cb_state cb")
  case StateHalfOpen
  with assms in_range_suc [of "cb_successCount cb" "cbc_SuccessThreshold (cb_config cb)"] show ?thesis
    by (auto simp: RecordSuccess_def breaker_ok_def config_in_range_def Let_def setState_simps
        split: if_splits prod.splits)
qed (use assms in \<open>auto simp: RecordSuccess_def breaker_ok_def\<close>)

lemma RecordFailure_ok [keeps]:
  assumes "breaker_ok cb" "RecordFailure E (Some cb) c = (b', c')"
  shows "\<exists>cb'. b' = Some cb' \<and> breaker_ok cb' \<and> cb_config cb' = cb_config cb \<and> cb_timeout cb' = cb_timeout cb"
proof (cases "cb_state cb")
  case StateClosed
  with assms in_range_suc [of "cb_failureCount cb" "cbc_FailureThreshold (cb_config cb)"] show ?thesis
    by (auto simp: RecordFailure_def breaker_ok_def config_in_range_def Let_def setState_simps
        split: if_splits prod.splits)
next
  case StateHalfOpen
  with assms show ?thesis
    by (auto simp: RecordFailure_def breaker_ok_def Let_def setState_simps split: prod.splits)
qed (use assms in \<open>auto simp: RecordFailure_def breaker_ok_def\<close>)

lemma nil_breaker [simp]:
  "Allow E None c = (True, None, c)" "RecordSuccess E None c = (None, c)" "RecordFailure E None c = (None, c)"
  by (simp_all add: Allow_def RecordSuccess_def RecordFailure_def)

lemma Execute_ok [keeps]:
  assumes "manager_ok m" "Execute E i fn m c = (err, m', c')"
  shows "manager_ok m'"
proof -
  obtain ok b1 c1 where a: "Allow E (m i) c = (ok, b1, c1)" by (metis prod_cases3)
  obtain err' c2 where f: "fn c1 = (err', c2)" by fastforce
  obtain b2 c3 where s: "RecordSuccess E b1 c2 = (b2, c3)" by fastforce
  obtain b3 c4 where r: "RecordFailure E b1 c2 = (b3, c4)" by fastforce
  have 1: "breaker_ok cb" if "b1 = Some cb" for cb
    using a that assms(1) Allow_ok [of _ E c ok b1 c1] by (cases "m i") (auto simp: manager_ok_def)
  have 2: "breaker_ok cb" if "b2 = Some cb" for cb
    using s that 1 RecordSuccess_ok [of _ E c2 b2 c3] by (cases b1) auto
  have 3: "breaker_ok cb" if "b3 = Some cb" for cb
    using r that 1 RecordFailure_ok [of _ E c2 b3 c4] by (cases b1) auto
  from assms(2) have "m' = put_back i b1 m \<or> m' = put_back i b2 m \<or> m' = put_back i b3 m"
    by (auto simp: Execute_def GetOrCreate_nil Let_def a f s r split: if_splits option.splits)
  then show ?thesis using assms(1) 1 2 3 manager_ok_put by metis
qed

section \<open>The interface\<close>

text \<open>
  A gate that no failure has closed: a call passes and its own result is the answer. The
  cache service calls it with a function that does nothing and never fails.
\<close>

locale call_gate =
  fixes clear :: "'g \<Rightarrow> bool"
    and run :: "string \<Rightarrow> ('c \<Rightarrow> go_error option \<times> 'c) \<Rightarrow> 'g \<Rightarrow> 'c \<Rightarrow> go_error option \<times> 'g \<times> 'c"
  assumes run_ok: "clear g \<Longrightarrow> fn c = (None, c1) \<Longrightarrow> \<exists>g'. run i fn g c = (None, g', c1) \<and> clear g'"
    and run_err: "clear g \<Longrightarrow> fn c = (Some e, c1) \<Longrightarrow> fst (run i fn g c) = Some e"
begin

lemma nil_call: "clear g \<Longrightarrow> \<exists>g'. run i (\<lambda>c. (None, c)) g c = (None, g', c) \<and> clear g'"
  using run_ok [of g "\<lambda>c. (None, c)" c c i] by simp

lemma clear_answers: "clear g \<Longrightarrow> fst (run i fn g c) = fst (fn c)"
  using run_ok [of g fn c "snd (fn c)" i] run_err [of g fn c _ "snd (fn c)" i] by (cases "fn c"; cases "fst (fn c)") auto

end

definition all_closed :: "circuit_manager \<Rightarrow> bool" where
  "all_closed m \<longleftrightarrow> (\<forall>i cb. m i = Some cb \<longrightarrow> cb_state cb = StateClosed)"

lemma Execute_closed_ok:
  assumes "m i = Some cb" "cb_state cb = StateClosed" "fn c = (None, c1)"
  shows "Execute E i fn m c = (None, m(i \<mapsto> cb\<lparr>cb_failureCount := 0\<rparr>), c1)"
  using assms by (simp add: Execute_def GetOrCreate_nil Allow_def RecordSuccess_def put_back_def)

lemma Execute_closed_fail:
  assumes "m i = Some cb" "cb_state cb = StateClosed" "fn c = (Some e, c1)"
    "breaker_ok cb"
  shows "\<exists>cb' c'. Execute E i fn m c = (Some e, m(i \<mapsto> cb'), c') \<and> cb_config cb' = cb_config cb \<and>
    cb_failureCount cb' = cb_failureCount cb + 1 \<and> breaker_ok cb' \<and>
    cb_state cb' =
      (if cbc_FailureThreshold (cb_config cb) \<le> cb_failureCount cb + 1 then StateOpen else StateClosed)"
proof -
  obtain b' c' where f: "RecordFailure E (Some cb) c1 = (b', c')" by fastforce
  obtain cb' where b': "b' = Some cb'" and ok: "breaker_ok cb'" "cb_config cb' = cb_config cb"
    using RecordFailure_ok [OF assms(4) f] by blast
  have "wrap64 (cb_failureCount cb + 1) = cb_failureCount cb + 1"
    using assms(2,4) in_range_suc by (auto simp: breaker_ok_def config_in_range_def)
  then have "cb_failureCount cb' = cb_failureCount cb + 1 \<and> cb_state cb' =
      (if cbc_FailureThreshold (cb_config cb) \<le> cb_failureCount cb + 1 then StateOpen else StateClosed)"
    using f b' assms(2)
    by (auto simp: RecordFailure_def Let_def setState_simps split: if_splits prod.splits)
  moreover have "Execute E i fn m c = (Some e, m(i \<mapsto> cb'), c')"
    using f b' assms by (simp add: Execute_def GetOrCreate_nil Allow_def put_back_def)
  ultimately show ?thesis using ok by blast
qed

lemma Execute_nil: "m i = None \<Longrightarrow> Execute E i fn m c = (fst (fn c), m, snd (fn c))"
  by (auto simp: Execute_def GetOrCreate_nil put_back_def split: prod.splits option.splits)

interpretation circuit_gate: call_gate all_closed "Execute E" for E :: "'w env"
proof
  fix m :: circuit_manager and fn :: "('w, 'z) ctx_scheme \<Rightarrow> go_error option \<times> ('w, 'z) ctx_scheme" and c c1 i
  assume clear: "all_closed m"
  show "\<exists>m'. Execute E i fn m c = (None, m', c1) \<and> all_closed m'" if "fn c = (None, c1)"
    using clear that
    by (cases "m i") (auto simp: Execute_nil Execute_closed_ok all_closed_def)
  show "fst (Execute E i fn m c) = Some e" if "fn c = (Some e, c1)" for e
    using clear that
    by (cases "m i") (auto simp: Execute_nil all_closed_def Execute_def GetOrCreate_nil Allow_def split: prod.splits)
qed

end
