(* ===== verification/Circuit_Properties.thy ===== *)
theory Circuit_Properties
  imports Circuit Reference_World
begin

text \<open>
  What the breakers promise over whole histories: the invariant of every reachable breaker
  and of its gauge, when a breaker opens, how many calls a half-open one lets through, and
  when it recovers.
\<close>

section \<open>Reachable breakers\<close>

text \<open>
  The gauge of a breaker is its state; before the first change there is no series, and the
  breaker is closed.
\<close>

fun gauge_shows :: "metrics option \<Rightarrow> string \<Rightarrow> cb_state \<Rightarrow> bool" where
  "gauge_shows None i st \<longleftrightarrow> True"
| "gauge_shows (Some mt) i st \<longleftrightarrow>
     m_circuit_state mt i = Some (state_int st) \<or> (m_circuit_state mt i = None \<and> st = StateClosed)"

definition gauge_ok :: "('w, 'z) ctx_scheme \<Rightarrow> breaker \<Rightarrow> bool" where
  "gauge_ok c cb \<longleftrightarrow> gauge_shows (mtr c) (cb_id cb) (cb_state cb)"

lemma gauge_shows_set [simp]: "gauge_shows (observe (SetCircuitBreakerState i (state_int st)) m) i st"
  by (cases m) (simp_all add: SetCircuitBreakerState_def)

text \<open>The life of one breaker: made by \<open>GetOrCreate\<close>, then asked and told in any order.\<close>

inductive breaker_life ::
  "'w env \<Rightarrow> string \<Rightarrow> CircuitBreakerConfig \<Rightarrow> breaker \<Rightarrow> ('w, 'z) ctx_scheme \<Rightarrow> bool"
  for E :: "'w env" and i :: string and cfg :: CircuitBreakerConfig
where
  made: "GetOrCreate E i (Some cfg) Map.empty c = (Some cb, m, c') \<Longrightarrow>
         (\<And>mt. mtr c = Some mt \<Longrightarrow> m_circuit_state mt i = None) \<Longrightarrow> breaker_life E i cfg cb c'"
| asked: "breaker_life E i cfg cb c \<Longrightarrow> Allow E (Some cb) c = (ok, Some cb', c') \<Longrightarrow> breaker_life E i cfg cb' c'"
| succeeded: "breaker_life E i cfg cb c \<Longrightarrow> RecordSuccess E (Some cb) c = (Some cb', c') \<Longrightarrow> breaker_life E i cfg cb' c'"
| failed: "breaker_life E i cfg cb c \<Longrightarrow> RecordFailure E (Some cb) c = (Some cb', c') \<Longrightarrow> breaker_life E i cfg cb' c'"

lemma setState_gauge:
  assumes "setState E st cb c = (cb', c')" "gauge_ok c cb"
  shows "gauge_ok c' cb'"
proof -
  obtain t c1 where t: "time_Now E c = (t, c1)" by fastforce
  then have "mtr c1 = mtr c" using time_Now_frame by blast
  with t assms show ?thesis
    by (auto simp: setState_def Let_def gauge_ok_def split: if_splits)
qed

lemma gauge_ok_cong:
  "mtr c' = mtr c \<Longrightarrow> cb_id cb' = cb_id cb \<Longrightarrow> cb_state cb' = cb_state cb \<Longrightarrow> gauge_ok c cb \<Longrightarrow> gauge_ok c' cb'"
  by (simp add: gauge_ok_def)

lemma Allow_gauge:
  assumes "Allow E (Some cb) c = (ok, Some cb', c')" "gauge_ok c cb"
  shows "gauge_ok c' cb' \<and> cb_id cb' = cb_id cb"
proof (cases "cb_state cb")
  case StateOpen
  obtain d1 c1 where d1: "time_Since E (cb_lastStateChange cb) c = (d1, c1)" by fastforce
  obtain d2 c2 where d2: "time_Since E (cb_lastStateChange cb) c1 = (d2, c2)" by fastforce
  obtain cb1 c3 where s: "setState E StateHalfOpen cb c2 = (cb1, c3)" by fastforce
  have g: "gauge_ok c1 cb" "gauge_ok c2 cb"
    using assms(2) time_Since_frame [OF d1] time_Since_frame [OF d2] by (simp_all add: gauge_ok_def)
  have g3: "gauge_ok c3 (cb1\<lparr>cb_halfOpenCalls := 0\<rparr>)"
    using setState_gauge [OF s g(2)] by (rule gauge_ok_cong [rotated 3]) simp_all
  from assms(1) StateOpen g g3 show ?thesis
    by (auto simp: Allow_def d1 d2 s setState_simps [OF s] split: if_splits)
qed (use assms in \<open>auto simp: Allow_def gauge_ok_def split: if_splits\<close>)

lemma RecordSuccess_gauge:
  assumes "RecordSuccess E (Some cb) c = (Some cb', c')" "gauge_ok c cb"
  shows "gauge_ok c' cb' \<and> cb_id cb' = cb_id cb"
proof (cases "cb_state cb")
  case StateHalfOpen
  let ?cb = "cb\<lparr>cb_successCount := wrap64 (cb_successCount cb + 1)\<rparr>"
  obtain cb1 c1 where s: "setState E StateClosed ?cb c = (cb1, c1)" by fastforce
  have "gauge_ok c ?cb" using assms(2) by (simp add: gauge_ok_def)
  from setState_gauge [OF s this] setState_simps [OF s] assms StateHalfOpen show ?thesis
    by (auto simp: RecordSuccess_def Let_def s gauge_ok_def split: if_splits)
qed (use assms in \<open>auto simp: RecordSuccess_def gauge_ok_def\<close>)

lemma RecordFailure_gauge:
  assumes "RecordFailure E (Some cb) c = (Some cb', c')" "gauge_ok c cb"
  shows "gauge_ok c' cb' \<and> cb_id cb' = cb_id cb"
proof (cases "cb_state cb")
  case StateClosed
  let ?cb = "cb\<lparr>cb_failureCount := wrap64 (cb_failureCount cb + 1)\<rparr>"
  obtain cb1 c1 where s: "setState E StateOpen ?cb c = (cb1, c1)" by fastforce
  have "gauge_ok c ?cb" using assms(2) by (simp add: gauge_ok_def)
  from setState_gauge [OF s this] setState_simps [OF s] assms StateClosed show ?thesis
    by (auto simp: RecordFailure_def Let_def s gauge_ok_def split: if_splits)
next
  case StateHalfOpen
  obtain cb1 c1 where s: "setState E StateOpen cb c = (cb1, c1)" by fastforce
  from setState_gauge [OF s assms(2)] setState_simps [OF s] assms StateHalfOpen show ?thesis
    by (auto simp: RecordFailure_def s gauge_ok_def)
qed (use assms in \<open>auto simp: RecordFailure_def gauge_ok_def\<close>)

text \<open>
  C16: whatever happens to a breaker, its counters stay in the range of its state (so no
  counter wraps), those of the other states are reset, its state is one of the three, and
  its gauge shows the state.
\<close>

theorem breaker_life_invariant:
  assumes "breaker_life E i cfg cb c" "config_in_range cfg"
  shows "breaker_ok cb \<and> cb_config cb = cfg \<and> cb_id cb = i \<and> gauge_ok c cb"
  using assms
proof (induction rule: breaker_life.induct)
  case (made c cb m c')
  then obtain t where "time_Now E c = (t, c')" "cbc_Enabled cfg"
    by (auto simp: GetOrCreate_def Let_def split: if_splits prod.splits)
  with made time_Now_frame show ?case
    by (cases "mtr c") (fastforce simp: GetOrCreate_def Let_def breaker_ok_def gauge_ok_def)+
next
  case (asked cb c ok cb' c')
  then show ?case using Allow_gauge [of E cb c ok cb' c'] Allow_ok [of cb E c ok "Some cb'" c'] by auto
next
  case (succeeded cb c cb' c')
  then show ?case using RecordSuccess_gauge [of E cb c cb' c'] RecordSuccess_ok [of cb E c "Some cb'" c'] by auto
next
  case (failed cb c cb' c')
  then show ?case using RecordFailure_gauge [of E cb c cb' c'] RecordFailure_ok [of cb E c "Some cb'" c'] by auto
qed

definition sample_cb_config :: CircuitBreakerConfig where
  "sample_cb_config =
     \<lparr>cbc_Enabled = True, cbc_FailureThreshold = 2, cbc_SuccessThreshold = 3, cbc_Timeout = '''',
      cbc_HalfOpenMaxCalls = 1\<rparr>"

definition sample_breaker :: "cb_state \<Rightarrow> int \<Rightarrow> breaker" where
  "sample_breaker st failures =
     \<lparr>cb_id = ''redis-master'', cb_state = st, cb_config = sample_cb_config, cb_failureCount = failures,
      cb_successCount = 0, cb_halfOpenCalls = 0, cb_lastStateChange = 0, cb_timeout = 30 * Second\<rparr>"

lemma sample_breaker_simps [simp]:
  "cb_state (sample_breaker st n) = st" "cb_failureCount (sample_breaker st n) = n"
  "cb_config (sample_breaker st n) = sample_cb_config"
  by (simp_all add: sample_breaker_def)

lemma sample_config_in_range: "config_in_range sample_cb_config"
  by (simp add: config_in_range_def sample_cb_config_def in_int64_def)

lemma breaker_life_invariant_witness:
  "gauge_ok (\<lparr>world = sim0\<lparr>sim_clock := Millisecond\<rparr>, mtr = Some initMetrics\<rparr> :: sim ctx)
     (sample_breaker StateClosed 1)"
proof -
  let ?c = "\<lparr>world = sim0, mtr = Some initMetrics\<rparr> :: sim ctx"
  let ?c1 = "\<lparr>world = sim0\<lparr>sim_clock := Millisecond\<rparr>, mtr = Some initMetrics\<rparr> :: sim ctx"
  have "GetOrCreate sim_env ''redis-master'' (Some sample_cb_config) Map.empty ?c =
      (Some (sample_breaker StateClosed 0), [''redis-master'' \<mapsto> sample_breaker StateClosed 0], ?c1)"
    by (simp add: GetOrCreate_def sample_breaker_def sample_cb_config_def time_Now_def sim0_def ParseDuration_def Let_def)
  then have "breaker_life sim_env ''redis-master'' sample_cb_config (sample_breaker StateClosed 0) ?c1"
    by (rule breaker_life.made) (auto simp: initMetrics_def)
  then have "breaker_life sim_env ''redis-master'' sample_cb_config (sample_breaker StateClosed 1) ?c1"
    by (rule breaker_life.failed)
      (simp add: RecordFailure_def sample_breaker_def sample_cb_config_def wrap64_id in_int64_def)
  from breaker_life_invariant [OF this sample_config_in_range] show ?thesis by simp
qed

section \<open>Opening\<close>

fun Executes ::
  "'w env \<Rightarrow> string \<Rightarrow> (('w, 'z) ctx_scheme \<Rightarrow> go_error option \<times> ('w, 'z) ctx_scheme) list \<Rightarrow>
   circuit_manager \<Rightarrow> ('w, 'z) ctx_scheme \<Rightarrow> go_error option list \<times> circuit_manager \<times> ('w, 'z) ctx_scheme" where
  "Executes E i [] m c = ([], m, c)"
| "Executes E i (fn # fns) m c =
     (let (r, m1, c1) = Execute E i fn m c; (rs, m2, c2) = Executes E i fns m1 c1 in (r # rs, m2, c2))"

lemma Executes_append:
  "Executes E i (fs @ gs) m c =
   (let (rs, m1, c1) = Executes E i fs m c; (ss, m2, c2) = Executes E i gs m1 c1 in (rs @ ss, m2, c2))"
  by (induction fs arbitrary: m c) (auto simp: Let_def split: prod.splits)

definition answering :: "go_error option \<Rightarrow> ('w, 'z) ctx_scheme \<Rightarrow> go_error option \<times> ('w, 'z) ctx_scheme" where
  "answering r c = (r, c)"

text \<open>The failures since the last success.\<close>

definition trailing_failures :: "go_error option list \<Rightarrow> nat" where
  "trailing_failures rs = length (takeWhile (\<lambda>r. r \<noteq> None) (rev rs))"

lemma trailing_failures_snoc [simp]:
  "trailing_failures (rs @ [r]) = (if r = None then 0 else Suc (trailing_failures rs))"
  by (simp add: trailing_failures_def)

lemma trailing_failures_Nil [simp]: "trailing_failures [] = 0"
  by (simp add: trailing_failures_def)

definition opening_count :: "breaker \<Rightarrow> nat" where
  "opening_count cb = nat (max 1 (cbc_FailureThreshold (cb_config cb)))"

lemma closed_run:
  assumes "m i = Some cb" "breaker_ok cb" "cb_state cb = StateClosed" "cb_failureCount cb = 0"
    "\<forall>k \<le> length rs. trailing_failures (take k rs) < opening_count cb"
  shows "\<exists>m' c' cb'. Executes E i (map answering rs) m c = (rs, m', c') \<and> m' i = Some cb' \<and>
    cb_state cb' = StateClosed \<and> breaker_ok cb' \<and> cb_config cb' = cb_config cb \<and>
    cb_failureCount cb' = int (trailing_failures rs)"
  using assms(5)
proof (induction rs rule: rev_induct)
  case Nil
  with assms show ?case by simp
next
  case (snoc r rs)
  have "\<forall>k \<le> length rs. trailing_failures (take k rs) < opening_count cb"
  proof (intro allI impI)
    fix k assume "k \<le> length rs"
    with snoc.prems [rule_format, of k] show "trailing_failures (take k rs) < opening_count cb" by simp
  qed
  with snoc.IH obtain m' c' cb' where IH: "Executes E i (map answering rs) m c = (rs, m', c')"
    "m' i = Some cb'" "cb_state cb' = StateClosed" "breaker_ok cb'" "cb_config cb' = cb_config cb"
    "cb_failureCount cb' = int (trailing_failures rs)" by blast
  have last: "trailing_failures (rs @ [r]) < opening_count cb"
    using snoc.prems by (metis order_refl take_all)
  show ?case
  proof (cases r)
    case None
    have "Execute E i (answering None) m' c' = (None, m'(i \<mapsto> cb'\<lparr>cb_failureCount := 0\<rparr>), c')"
      by (rule Execute_closed_ok [of m' i cb' "answering None" c' c' E, OF IH(2,3)]) (simp add: answering_def)
    moreover have "breaker_ok (cb'\<lparr>cb_failureCount := 0\<rparr>)"
      using IH(3,4) by (simp add: breaker_ok_def)
    ultimately show ?thesis using IH None by (simp add: Executes_append)
  next
    case (Some e)
    from Execute_closed_fail [of m' i cb' "answering (Some e)" c' e c' E, OF IH(2,3) _ IH(4)]
    obtain cb2 c2 where x: "Execute E i (answering (Some e)) m' c' = (Some e, m'(i \<mapsto> cb2), c2)"
      "cb_config cb2 = cb_config cb'" "cb_failureCount cb2 = cb_failureCount cb' + 1" "breaker_ok cb2"
      "cb_state cb2 = (if cbc_FailureThreshold (cb_config cb') \<le> cb_failureCount cb' + 1 then StateOpen else StateClosed)"
      by (auto simp: answering_def)
    have "\<not> cbc_FailureThreshold (cb_config cb') \<le> cb_failureCount cb' + 1"
      using last Some IH(5,6) by (auto simp: opening_count_def)
    with Some x IH show ?thesis by (simp add: Executes_append)
  qed
qed

text \<open>
  C17: a closed breaker opens exactly at the threshold. As long as no run of consecutive
  failures reaches it every call passes and gets its own result; the failure that completes
  the run (the first one if the threshold is below 1) opens the breaker, any earlier one
  does not. A success in between starts the count anew.
\<close>

theorem opens_at_threshold:
  assumes "m i = Some cb" "breaker_ok cb" "cb_state cb = StateClosed" "cb_failureCount cb = 0"
    "\<forall>k \<le> length rs. trailing_failures (take k rs) < opening_count cb"
    "Executes E i (map answering (rs @ [Some e])) m c = (answers, m', c')"
  shows "answers = rs @ [Some e] \<and>
    Breaker_State (m' i) =
      (if trailing_failures rs + 1 = opening_count cb then StateOpen else StateClosed)"
proof -
  from closed_run [of m i cb rs E c, OF assms(1-5)] obtain m1 c1 cb1 where run: "Executes E i (map answering rs) m c = (rs, m1, c1)"
    "m1 i = Some cb1" "cb_state cb1 = StateClosed" "breaker_ok cb1" "cb_config cb1 = cb_config cb"
    "cb_failureCount cb1 = int (trailing_failures rs)" by blast
  from Execute_closed_fail [of m1 i cb1 "answering (Some e)" c1 e c1 E, OF run(2,3) _ run(4)]
  obtain cb2 c2 where x: "Execute E i (answering (Some e)) m1 c1 = (Some e, m1(i \<mapsto> cb2), c2)"
    "cb_state cb2 = (if cbc_FailureThreshold (cb_config cb1) \<le> cb_failureCount cb1 + 1 then StateOpen else StateClosed)"
    by (auto simp: answering_def)
  have "trailing_failures rs < opening_count cb" using assms(5) by (metis order_refl take_all)
  then have "cbc_FailureThreshold (cb_config cb1) \<le> cb_failureCount cb1 + 1 \<longleftrightarrow>
      trailing_failures rs + 1 = opening_count cb"
    using run(5,6) by (auto simp: opening_count_def)
  with assms(6) run x show ?thesis by (auto simp: Executes_append Breaker_State_def)
qed

lemma sample_breaker_ok: "breaker_ok (sample_breaker StateClosed 0)"
  by (simp add: breaker_ok_def sample_breaker_def sample_config_in_range)

lemma opens_at_threshold_witness:
  "\<exists>answers m' c'.
     Executes sim_env ''r'' (map answering [Some RedisNil, None, Some RedisNil, Some RedisNil])
       [''r'' \<mapsto> sample_breaker StateClosed 0] (\<lparr>world = sim0, mtr = None\<rparr> :: sim ctx) = (answers, m', c') \<and>
     Breaker_State (m' ''r'') = StateOpen"
proof -
  let ?m = "[''r'' \<mapsto> sample_breaker StateClosed 0]"
  let ?rs = "[Some RedisNil, None, Some RedisNil]"
  obtain answers m' c' where x:
    "Executes sim_env ''r'' (map answering (?rs @ [Some RedisNil])) ?m (\<lparr>world = sim0, mtr = None\<rparr> :: sim ctx) =
      (answers, m', c')" by (metis prod_cases3)
  have n: "opening_count (sample_breaker StateClosed 0) = 2"
    by (simp add: opening_count_def sample_breaker_def sample_cb_config_def)
  have "\<forall>k \<le> length ?rs. trailing_failures (take k ?rs) < opening_count (sample_breaker StateClosed 0)"
    by (auto simp: n trailing_failures_def le_Suc_eq numeral_3_eq_3 takeWhile_eq_Nil_iff)
  from opens_at_threshold [OF _ sample_breaker_ok _ _ this x] have "Breaker_State (m' ''r'') = StateOpen"
    by (simp add: n trailing_failures_def)
  with x show ?thesis by auto
qed

section \<open>Half-open\<close>

lemma Execute_half_ok:
  assumes "m i = Some cb" "cb_state cb = StateHalfOpen" "breaker_ok cb"
    "cb_halfOpenCalls cb < cbc_HalfOpenMaxCalls (cb_config cb)"
  shows "\<exists>cb' c'. Execute E i (answering None) m c = (None, m(i \<mapsto> cb'), c') \<and> breaker_ok cb' \<and>
    cb_config cb' = cb_config cb \<and>
    (if cbc_SuccessThreshold (cb_config cb) \<le> cb_successCount cb + 1 then cb_state cb' = StateClosed
     else cb_state cb' = StateHalfOpen \<and> cb_successCount cb' = cb_successCount cb + 1 \<and>
       cb_halfOpenCalls cb' = cb_halfOpenCalls cb + 1)"
proof -
  have h: "wrap64 (cb_halfOpenCalls cb + 1) = cb_halfOpenCalls cb + 1"
    using assms(2-4) in_range_suc [of "cb_halfOpenCalls cb" "cbc_HalfOpenMaxCalls (cb_config cb)"]
    by (simp add: breaker_ok_def config_in_range_def)
  have s: "wrap64 (cb_successCount cb + 1) = cb_successCount cb + 1"
    using assms(2,3) in_range_suc [of "cb_successCount cb" "cbc_SuccessThreshold (cb_config cb)"]
    by (simp add: breaker_ok_def config_in_range_def)
  let ?cb1 = "cb\<lparr>cb_halfOpenCalls := cb_halfOpenCalls cb + 1\<rparr>"
  have a: "Allow E (Some cb) c = (True, Some ?cb1, c)" using assms(2,4) by (simp add: Allow_def h)
  obtain b' c' where r: "RecordSuccess E (Some ?cb1) c = (b', c')" by fastforce
  obtain cb' where b': "b' = Some cb'" "breaker_ok cb'" "cb_config cb' = cb_config cb"
    using Allow_ok [OF assms(3) a] RecordSuccess_ok [OF _ r] by auto
  have "if cbc_SuccessThreshold (cb_config cb) \<le> cb_successCount cb + 1 then cb_state cb' = StateClosed
     else cb_state cb' = StateHalfOpen \<and> cb_successCount cb' = cb_successCount cb + 1 \<and>
       cb_halfOpenCalls cb' = cb_halfOpenCalls cb + 1"
    using r b'(1) assms(2) s by (auto simp: RecordSuccess_def Let_def setState_simps split: if_splits prod.splits)
  moreover have "Execute E i (answering None) m c = (None, m(i \<mapsto> cb'), c')"
    using a r b'(1) assms(1) by (simp add: Execute_def GetOrCreate_nil put_back_def answering_def)
  ultimately show ?thesis using b' by blast
qed

lemma Execute_half_full:
  assumes "m i = Some cb" "cb_state cb = StateHalfOpen"
    "\<not> cb_halfOpenCalls cb < cbc_HalfOpenMaxCalls (cb_config cb)"
  shows "Execute E i fn m c = (Some CircuitErrCircuitOpen, m, c)"
  using assms by (simp add: Execute_def GetOrCreate_nil Allow_def put_back_def fun_upd_idem)

lemma closed_stays:
  assumes "m i = Some cb" "cb_state cb = StateClosed" "Executes E i (replicate n (answering None)) m c = (rs, m', c')"
  shows "Breaker_State (m' i) = StateClosed"
  using assms
proof (induction n arbitrary: m cb c rs)
  case 0
  then show ?case by (simp add: Breaker_State_def)
next
  case (Suc n)
  let ?m = "m(i \<mapsto> cb\<lparr>cb_failureCount := 0\<rparr>)"
  have "Execute E i (answering None) m c = (None, ?m, c)"
    by (rule Execute_closed_ok [of m i cb "answering None" c c E, OF Suc.prems(1,2)]) (simp add: answering_def)
  with Suc.prems(3) obtain rs' where "Executes E i (replicate n (answering None)) ?m c = (rs', m', c')"
    by (auto split: prod.splits)
  from Suc.IH [of ?m "cb\<lparr>cb_failureCount := 0\<rparr>" c rs', OF _ _ this] Suc.prems(2) show ?case by simp
qed

lemma half_run:
  assumes "m i = Some cb" "cb_state cb = StateHalfOpen" "breaker_ok cb" "1 \<le> cb_successCount cb"
    "Executes E i (replicate n (answering None)) m c = (rs, m', c')"
  shows "Breaker_State (m' i) =
    (if cbc_SuccessThreshold (cb_config cb) \<le> cb_successCount cb +
          min (int n) (max 0 (cbc_HalfOpenMaxCalls (cb_config cb) - cb_halfOpenCalls cb))
     then StateClosed else StateHalfOpen)"
  using assms
proof (induction n arbitrary: m cb c rs)
  case 0
  then show ?case by (auto simp: Breaker_State_def breaker_ok_def)
next
  case (Suc n)
  let ?T = "cbc_SuccessThreshold (cb_config cb)" and ?H = "cbc_HalfOpenMaxCalls (cb_config cb)"
  show ?case
  proof (cases "cb_halfOpenCalls cb < ?H")
    case False
    with Execute_half_full [of m i cb E "answering None" c, OF Suc.prems(1,2) False] Suc.prems
    obtain rs' where "Executes E i (replicate n (answering None)) m c = (rs', m', c')"
      by (auto split: prod.splits)
    from Suc.IH [OF Suc.prems(1-4) this] False show ?thesis by simp
  next
    case True
    from Execute_half_ok [of m i cb E c, OF Suc.prems(1-3) True] obtain cb' c1 where
      x: "Execute E i (answering None) m c = (None, m(i \<mapsto> cb'), c1)" "breaker_ok cb'"
      "cb_config cb' = cb_config cb"
      "if ?T \<le> cb_successCount cb + 1 then cb_state cb' = StateClosed
       else cb_state cb' = StateHalfOpen \<and> cb_successCount cb' = cb_successCount cb + 1 \<and>
         cb_halfOpenCalls cb' = cb_halfOpenCalls cb + 1" by blast
    with Suc.prems(5) obtain rs' where
      rest: "Executes E i (replicate n (answering None)) (m(i \<mapsto> cb')) c1 = (rs', m', c')"
      by (auto split: prod.splits)
    show ?thesis
    proof (cases "?T \<le> cb_successCount cb + 1")
      case T: True
      with x(4) closed_stays [of "m(i \<mapsto> cb')" i cb' E n c1, OF _ _ rest] True show ?thesis by simp
    next
      case T: False
      with x have "Breaker_State (m' i) =
          (if ?T \<le> cb_successCount cb + 1 + min (int n) (max 0 (?H - (cb_halfOpenCalls cb + 1)))
           then StateClosed else StateHalfOpen)"
        using Suc.IH [of "m(i \<mapsto> cb')" cb' c1 rs', OF _ _ _ _ rest] Suc.prems(4) by simp
      with True show ?thesis by (simp add: min_def max_def)
    qed
  qed
qed

text \<open>Both readings of the clock by the next \<open>Allow\<close> are past the timeout.\<close>

definition timeout_passed :: "'w env \<Rightarrow> breaker \<Rightarrow> ('w, 'z) ctx_scheme \<Rightarrow> bool" where
  "timeout_passed E cb c \<longleftrightarrow>
     (let (d1, c1) = time_Since E (cb_lastStateChange cb) c;
          (d2, c2) = time_Since E (cb_lastStateChange cb) c1
      in cb_timeout cb < d1 \<and> cb_timeout cb < d2)"

lemma Allow_half_opens:
  assumes "cb_state cb = StateOpen" "timeout_passed E cb c"
  shows "\<exists>cb' c'. Allow E (Some cb) c = (True, Some cb', c') \<and> cb_state cb' = StateHalfOpen \<and>
    cb_halfOpenCalls cb' = 0 \<and> cb_config cb' = cb_config cb \<and> cb_successCount cb' = cb_successCount cb"
  using assms
  by (auto simp: Allow_def timeout_passed_def Let_def setState_simps split: prod.splits)

text \<open>
  C15: when an open breaker recovers. Once its timeout has passed, \<open>n\<close> calls that all
  succeed close it exactly if \<open>n\<close> reaches the success threshold and the threshold is at most
  \<open>HalfOpenMaxCalls + 1\<close>. With a larger threshold it stays half-open for ever, because the
  half-open calls are never counted down: it then rejects every call.
\<close>

theorem recovery_iff:
  assumes "m i = Some cb" "breaker_ok cb" "cb_state cb = StateOpen" "timeout_passed E cb c" "0 < n"
    "Executes E i (replicate n (answering None)) m c = (rs, m', c')"
  shows "Breaker_State (m' i) =
    (if max 1 (cbc_SuccessThreshold (cb_config cb)) \<le>
        min (int n) (max 0 (cbc_HalfOpenMaxCalls (cb_config cb)) + 1)
     then StateClosed else StateHalfOpen)"
proof -
  let ?T = "cbc_SuccessThreshold (cb_config cb)" and ?H = "cbc_HalfOpenMaxCalls (cb_config cb)"
  obtain k where n: "n = Suc k" using assms(5) by (cases n) auto
  obtain cb1 c1 where a: "Allow E (Some cb) c = (True, Some cb1, c1)" "cb_state cb1 = StateHalfOpen"
    "cb_halfOpenCalls cb1 = 0" "cb_config cb1 = cb_config cb" "cb_successCount cb1 = cb_successCount cb"
    using Allow_half_opens [OF assms(3,4)] by blast
  have s0: "cb_successCount cb1 = 0" using assms(2,3) a(5) by (simp add: breaker_ok_def)
  have ok1: "breaker_ok cb1" using Allow_ok [OF assms(2) a(1)] by simp
  obtain b2 c2 where r: "RecordSuccess E (Some cb1) c1 = (b2, c2)" by fastforce
  then obtain cb2 where b2: "b2 = Some cb2" "breaker_ok cb2" "cb_config cb2 = cb_config cb"
    using RecordSuccess_ok [OF ok1 r] a(4) by auto
  have st: "if ?T \<le> 1 then cb_state cb2 = StateClosed
      else cb_state cb2 = StateHalfOpen \<and> cb_successCount cb2 = 1 \<and> cb_halfOpenCalls cb2 = 0"
    using r b2(1) a s0
    by (auto simp: RecordSuccess_def Let_def setState_simps wrap64_id in_int64_def split: if_splits prod.splits)
  have "Execute E i (answering None) m c = (None, m(i \<mapsto> cb2), c2)"
    using a(1) r b2(1) assms(1) by (simp add: Execute_def GetOrCreate_nil put_back_def answering_def)
  with assms(6) n obtain rs' where
    rest: "Executes E i (replicate k (answering None)) (m(i \<mapsto> cb2)) c2 = (rs', m', c')"
    by (auto split: prod.splits)
  show ?thesis
  proof (cases "?T \<le> 1")
    case True
    with st closed_stays [of "m(i \<mapsto> cb2)" i cb2 E k c2, OF _ _ rest] n show ?thesis by simp
  next
    case False
    with st b2 half_run [of "m(i \<mapsto> cb2)" i cb2 E k c2, OF _ _ _ _ rest]
    have "Breaker_State (m' i) = (if ?T \<le> 1 + min (int k) (max 0 ?H) then StateClosed else StateHalfOpen)"
      by simp
    with False n show ?thesis by (simp add: min_def max_def)
  qed
qed

lemma recovery_iff_witness:
  "\<exists>rs m' c'.
     Executes sim_env ''r'' (replicate 50 (answering None)) [''r'' \<mapsto> sample_breaker StateOpen 2]
       (\<lparr>world = sim0\<lparr>sim_clock := 31 * Second\<rparr>, mtr = None\<rparr> :: sim ctx) = (rs, m', c') \<and>
     Breaker_State (m' ''r'') = StateHalfOpen"
proof -
  let ?c = "\<lparr>world = sim0\<lparr>sim_clock := 31 * Second\<rparr>, mtr = None\<rparr> :: sim ctx"
  obtain rs m' c' where x:
    "Executes sim_env ''r'' (replicate 50 (answering None)) [''r'' \<mapsto> sample_breaker StateOpen 2] ?c = (rs, m', c')"
    by (metis prod_cases3)
  have p: "timeout_passed sim_env (sample_breaker StateOpen 2) ?c"
    by (simp add: timeout_passed_def time_Since_def clamp64_def time_Now_def sample_breaker_def)
  have ok: "breaker_ok (sample_breaker StateOpen 2)"
    by (simp add: breaker_ok_def sample_config_in_range) (simp add: sample_breaker_def sample_cb_config_def)
  from recovery_iff [OF _ ok _ p _ x] have "Breaker_State (m' ''r'') = StateHalfOpen"
    by (simp add: sample_cb_config_def)
  with x show ?thesis by auto
qed

end
