(* ===== verification/Health_Properties.thy ===== *)
theory Health_Properties
  imports Health Samples
begin

text \<open>
  What the health checker promises: its counting is the automaton \<open>watch\<close>, eviction and
  readmission come exactly at the thresholds, the flag of a backend checked over TCP is the
  eviction state while that of a pinged one is the last ping, and what the eviction gauge
  counts.
\<close>

section \<open>The reference automaton\<close>

text \<open>Evicted or not, and the lengths of the current runs of passed and failed checks.\<close>

type_synonym watch_state = "bool \<times> int \<times> int"

fun watch :: "int \<Rightarrow> int \<Rightarrow> watch_state \<Rightarrow> bool \<Rightarrow> watch_state" where
  "watch f s (ev, succ, fail) True = (ev \<and> wrap64 (succ + 1) < s, wrap64 (succ + 1), 0)"
| "watch f s (ev, succ, fail) False = (ev \<or> f \<le> wrap64 (fail + 1), 0, wrap64 (fail + 1))"

definition watch_of :: "health_checker \<Rightarrow> string \<Rightarrow> backendHealthStatus \<Rightarrow> watch_state" where
  "watch_of hc i st = (i \<in> hc_evicted hc, he_consecutiveSuccess st, he_consecutiveFailure st)"

text \<open>The answer the probe of the next check gets.\<close>

definition check_error :: "'w env \<Rightarrow> backendHealthStatus \<Rightarrow> ('w, 'z) heap_ctx_scheme \<Rightarrow> go_error option" where
  "check_error E st c = fst (probe E st (snd (time_Now E c)))"

lemma probe_frame:
  assumes "probe E st c = (err, c')"
  shows "mtr c' = mtr c \<and> heap_ctx.more c' = heap_ctx.more c \<and>
    (\<forall>p. p \<noteq> he_backend st \<longrightarrow> heap c' p = heap c p)"
  using assms
  by (auto simp: probe_def checkTCP_def Let_def obj_Ping_def obj_call_def split: HealthCheckType.splits if_splits prod.splits)

lemma time_Now_heap: "time_Now E c = (t, c') \<Longrightarrow> heap c' = heap c \<and> mtr c' = mtr c"
  for c :: "('w, 'z) heap_ctx_scheme"
  by (auto simp: time_Now_def split: prod.splits)

lemma time_Since_heap: "time_Since E s c = (t, c') \<Longrightarrow> heap c' = heap c \<and> mtr c' = mtr c"
  for c :: "('w, 'z) heap_ctx_scheme"
  by (auto simp: time_Since_def dest: time_Now_heap split: prod.splits)

text \<open>A check, opened into its probe and its outcome.\<close>

lemma checkBackend_cases:
  fixes c c' :: "('w, 'z) heap_ctx_scheme"
  assumes "hc_backends hc i = Some st" "checkBackend E i hc c = (hc', c')"
  shows "\<exists>(c1 :: ('w, 'z) heap_ctx_scheme) (c2 :: ('w, 'z) heap_ctx_scheme) c4 t. heap c1 = heap c \<and> mtr c1 = mtr c \<and> probe E st c1 = (check_error E st c, c2) \<and>
    heap c4 = heap c2 \<and> mtr c4 = mtr c2 \<and>
    (if check_error E st c = None
     then passed i (count_success t st) (hc\<lparr>hc_backends := (hc_backends hc)(i \<mapsto> count_success t st)\<rparr>) c4 = (hc', c')
     else failed i (count_failure t st) (hc\<lparr>hc_backends := (hc_backends hc)(i \<mapsto> count_failure t st)\<rparr>) c4 = (hc', c'))"
proof -
  obtain s c1 where n1: "time_Now E c = (s, c1)" by fastforce
  obtain err c2 where p: "probe E st c1 = (err, c2)" by fastforce
  obtain d c3 where n3: "time_Since E s c2 = (d, c3)" by fastforce
  obtain t c4 where n4: "time_Now E c3 = (t, c4)" by fastforce
  have err: "err = check_error E st c" by (simp add: check_error_def n1 p)
  have "if check_error E st c = None
     then passed i (count_success t st) (hc\<lparr>hc_backends := (hc_backends hc)(i \<mapsto> count_success t st)\<rparr>) c4 = (hc', c')
     else failed i (count_failure t st) (hc\<lparr>hc_backends := (hc_backends hc)(i \<mapsto> count_failure t st)\<rparr>) c4 = (hc', c')"
    using assms n1 p n3 n4 err by (simp add: checkBackend_def Let_def split: if_splits)
  moreover have "heap c4 = heap c2 \<and> mtr c4 = mtr c2"
    using time_Since_heap [OF n3] time_Now_heap [OF n4] by simp
  ultimately show ?thesis using time_Now_heap [OF n1] p [unfolded err] by blast
qed

lemma passed_result:
  assumes "passed i st hc c = (hc', c')"
  shows "hc_backends hc' = hc_backends hc \<and>
    hc_evicted hc' = (if he_successThreshold st \<le> he_consecutiveSuccess st then hc_evicted hc - {i} else hc_evicted hc)"
  using assms by (auto simp: passed_def split: if_splits)

lemma failed_result:
  assumes "failed i st hc c = (hc', c')"
  shows "hc_backends hc' = hc_backends hc \<and>
    hc_evicted hc' = (if he_failureThreshold st \<le> he_consecutiveFailure st then insert i (hc_evicted hc) else hc_evicted hc)"
  using assms by (auto simp: failed_def split: if_splits)

lemma count_simps [simp]:
  "he_failureThreshold (count_success t st) = he_failureThreshold st"
  "he_successThreshold (count_success t st) = he_successThreshold st"
  "he_backend (count_success t st) = he_backend st" "he_checkType (count_success t st) = he_checkType st"
  "he_consecutiveSuccess (count_success t st) = wrap64 (he_consecutiveSuccess st + 1)"
  "he_consecutiveFailure (count_success t st) = 0"
  "he_failureThreshold (count_failure t st) = he_failureThreshold st"
  "he_successThreshold (count_failure t st) = he_successThreshold st"
  "he_backend (count_failure t st) = he_backend st" "he_checkType (count_failure t st) = he_checkType st"
  "he_consecutiveFailure (count_failure t st) = wrap64 (he_consecutiveFailure st + 1)"
  "he_consecutiveSuccess (count_failure t st) = 0"
  by (simp_all add: count_success_def count_failure_def)

lemma checkBackend_watch:
  fixes c c' :: "('w, 'z) heap_ctx_scheme"
  assumes "hc_backends hc i = Some st" "checkBackend E i hc c = (hc', c')"
  shows "\<exists>st'. hc_backends hc' = (hc_backends hc)(i \<mapsto> st') \<and>
    he_failureThreshold st' = he_failureThreshold st \<and> he_successThreshold st' = he_successThreshold st \<and>
    he_backend st' = he_backend st \<and> he_checkType st' = he_checkType st \<and>
    watch_of hc' i st' =
      watch (he_failureThreshold st) (he_successThreshold st) (watch_of hc i st) (check_error E st c = None) \<and>
    (\<forall>j. j \<noteq> i \<longrightarrow> (j \<in> hc_evicted hc' \<longleftrightarrow> j \<in> hc_evicted hc))"
proof -
  obtain c4 t where x: "if check_error E st c = None
     then passed i (count_success t st) (hc\<lparr>hc_backends := (hc_backends hc)(i \<mapsto> count_success t st)\<rparr>) c4 = (hc', c')
     else failed i (count_failure t st) (hc\<lparr>hc_backends := (hc_backends hc)(i \<mapsto> count_failure t st)\<rparr>) c4 = (hc', c')"
    using checkBackend_cases [OF assms] by blast
  show ?thesis
  proof (cases "check_error E st c = None")
    case True
    with x passed_result [of i "count_success t st" _ c4 hc' c'] show ?thesis
      by (intro exI [of _ "count_success t st"]) (auto simp: watch_of_def)
  next
    case False
    with x failed_result [of i "count_failure t st" _ c4 hc' c'] show ?thesis
      by (intro exI [of _ "count_failure t st"]) (auto simp: watch_of_def)
  qed
qed

fun Checks ::
  "'w env \<Rightarrow> string \<Rightarrow> nat \<Rightarrow> health_checker \<Rightarrow> ('w, 'z) heap_ctx_scheme \<Rightarrow>
   bool list \<times> health_checker \<times> ('w, 'z) heap_ctx_scheme" where
  "Checks E i 0 hc c = ([], hc, c)"
| "Checks E i (Suc n) hc c =
     (case hc_backends hc i of
        None \<Rightarrow> ([], hc, c)
      | Some st \<Rightarrow>
          (let (hc1, c1) = checkBackend E i hc c; (oks, hc2, c2) = Checks E i n hc1 c1
           in ((check_error E st c = None) # oks, hc2, c2)))"

text \<open>
  C14: however many checks run on a backend and whatever they find, the checker's state for
  it is that of the automaton \<open>watch\<close> fed with the outcomes: counts of consecutive outcomes,
  eviction at one threshold, readmission at the other.
\<close>

theorem checks_refine_watch:
  assumes "hc_backends hc i = Some st" "Checks E i n hc c = (oks, hc', c')"
  shows "\<exists>st'. hc_backends hc' i = Some st' \<and> length oks = n \<and>
    he_failureThreshold st' = he_failureThreshold st \<and> he_successThreshold st' = he_successThreshold st \<and>
    watch_of hc' i st' = foldl (watch (he_failureThreshold st) (he_successThreshold st)) (watch_of hc i st) oks"
  using assms
proof (induction n arbitrary: hc c st oks)
  case 0
  then show ?case by simp
next
  case (Suc n)
  obtain hc1 c1 where b: "checkBackend E i hc c = (hc1, c1)" by fastforce
  obtain st1 where st1: "hc_backends hc1 i = Some st1" "he_failureThreshold st1 = he_failureThreshold st"
    "he_successThreshold st1 = he_successThreshold st"
    "watch_of hc1 i st1 =
      watch (he_failureThreshold st) (he_successThreshold st) (watch_of hc i st) (check_error E st c = None)"
    using checkBackend_watch [OF Suc.prems(1) b] by auto
  from Suc.prems b obtain oks1 where k: "Checks E i n hc1 c1 = (oks1, hc', c')"
    "oks = (check_error E st c = None) # oks1" by (auto simp: Let_def split: prod.splits)
  from Suc.IH [OF st1(1) k(1)] st1 k(2) show ?case by auto
qed

definition sample_check_config :: "HealthCheckType \<Rightarrow> HealthCheckConfig" where
  "sample_check_config ty =
     \<lparr>hcc_Enabled = True, hcc_Type = ty, hcc_Interval = '''', hcc_Timeout = '''', hcc_FailureThreshold = 0,
      hcc_SuccessThreshold = 0\<rparr>"

definition sample_checker :: "HealthCheckType \<Rightarrow> health_checker" where
  "sample_checker ty =
     \<lparr>hc_backends = [''local'' \<mapsto> new_status 0 (sample_check_config ty) 0], hc_evicted = {}\<rparr>"

lemma sample_checker_simps [simp]:
  "hc_backends (sample_checker ty) = [''local'' \<mapsto> new_status 0 (sample_check_config ty) 0]"
  "hc_evicted (sample_checker ty) = {}"
  by (simp_all add: sample_checker_def)

lemma sample_status_simps [simp]:
  "he_failureThreshold (new_status p (sample_check_config ty) j) = 3"
  "he_successThreshold (new_status p (sample_check_config ty) j) = 2"
  "he_consecutiveSuccess (new_status p cfg j) = 0" "he_consecutiveFailure (new_status p cfg j) = 0"
  "he_backend (new_status p cfg j) = p"
  by (simp_all add: new_status_def sample_check_config_def)

lemma checks_refine_watch_witness:
  "\<exists>oks hc' c' st'.
     Checks sim_env ''local'' 5 (sample_checker HealthCheckTypePing) sample_ctx = (oks, hc', c') \<and>
     hc_backends hc' ''local'' = Some st' \<and> watch_of hc' ''local'' st' = foldl (watch 3 2) (False, 0, 0) oks"
proof -
  obtain oks hc' c' where k: "Checks sim_env ''local'' 5 (sample_checker HealthCheckTypePing) sample_ctx = (oks, hc', c')"
    by (metis prod_cases3)
  from checks_refine_watch [OF _ k] show ?thesis using k by (auto simp: watch_of_def)
qed

section \<open>Thresholds\<close>

text \<open>The length of the run of \<open>b\<close> the outcomes end with.\<close>

definition run_of :: "bool \<Rightarrow> bool list \<Rightarrow> nat" where
  "run_of b bs = length (takeWhile (\<lambda>x. x = b) (rev bs))"

lemma run_of_snoc [simp]: "run_of b (bs @ [x]) = (if x = b then Suc (run_of b bs) else 0)"
  by (simp add: run_of_def)

lemma run_of_Nil [simp]: "run_of b [] = 0"
  by (simp add: run_of_def)

definition at_least_one :: "int \<Rightarrow> nat" where
  "at_least_one x = nat (max 1 x)"

lemma wrap64_run: "n < at_least_one x \<Longrightarrow> in_int64 x \<Longrightarrow> wrap64 (int n + 1) = int n + 1"
  by (rule wrap64_id) (auto simp: at_least_one_def in_int64_def)

lemma watch_not_yet:
  assumes "in_int64 f" "\<forall>k \<le> length oks. run_of False (take k oks) < at_least_one f"
  shows "\<exists>succ. foldl (watch f s) (False, succ0, 0) oks = (False, succ, int (run_of False oks))"
  using assms(2)
proof (induction oks rule: rev_induct)
  case Nil
  then show ?case by simp
next
  case (snoc ok oks)
  have below: "\<forall>k \<le> length oks. run_of False (take k oks) < at_least_one f"
  proof (intro allI impI)
    fix k assume "k \<le> length oks"
    with snoc.prems [rule_format, of k] show "run_of False (take k oks) < at_least_one f" by simp
  qed
  then obtain succ where IH: "foldl (watch f s) (False, succ0, 0) oks = (False, succ, int (run_of False oks))"
    using snoc.IH by blast
  have "run_of False (oks @ [ok]) < at_least_one f" using snoc.prems by (metis order_refl take_all)
  with IH wrap64_run [of "run_of False oks" f] below assms(1) show ?case
    by (cases ok) (auto simp: at_least_one_def)
qed

lemma watch_still_out:
  assumes "in_int64 s" "\<forall>k \<le> length oks. run_of True (take k oks) < at_least_one s"
  shows "\<exists>fail. foldl (watch f s) (True, 0, fail0) oks = (True, int (run_of True oks), fail)"
  using assms(2)
proof (induction oks rule: rev_induct)
  case Nil
  then show ?case by simp
next
  case (snoc ok oks)
  have below: "\<forall>k \<le> length oks. run_of True (take k oks) < at_least_one s"
  proof (intro allI impI)
    fix k assume "k \<le> length oks"
    with snoc.prems [rule_format, of k] show "run_of True (take k oks) < at_least_one s" by simp
  qed
  then obtain fail where IH: "foldl (watch f s) (True, 0, fail0) oks = (True, int (run_of True oks), fail)"
    using snoc.IH by blast
  have "run_of True (oks @ [ok]) < at_least_one s" using snoc.prems by (metis order_refl take_all)
  with IH wrap64_run [of "run_of True oks" s] below assms(1) show ?case
    by (cases ok) (auto simp: at_least_one_def)
qed

lemma Checks_watch:
  assumes "hc_backends hc i = Some st" "Checks E i n hc c = (oks, hc', c')"
  shows "\<exists>succ fail. foldl (watch (he_failureThreshold st) (he_successThreshold st)) (watch_of hc i st) oks =
    (IsEvicted hc' i, succ, fail)"
  using assms
proof (induction n arbitrary: hc c st oks)
  case 0
  then show ?case by (simp add: watch_of_def IsEvicted_def)
next
  case (Suc n)
  obtain hc1 c1 where b: "checkBackend E i hc c = (hc1, c1)" by fastforce
  obtain st1 where st1: "hc_backends hc1 i = Some st1" "he_failureThreshold st1 = he_failureThreshold st"
    "he_successThreshold st1 = he_successThreshold st"
    "watch_of hc1 i st1 =
      watch (he_failureThreshold st) (he_successThreshold st) (watch_of hc i st) (check_error E st c = None)"
    using checkBackend_watch [OF Suc.prems(1) b] by auto
  from Suc.prems b obtain oks1 where k: "Checks E i n hc1 c1 = (oks1, hc', c')"
    "oks = (check_error E st c = None) # oks1" by (auto simp: Let_def split: prod.splits)
  from Suc.IH [OF st1(1) k(1)] st1 k(2) show ?case by simp
qed

text \<open>A world in which nothing can be dialled, and one backend with an address.\<close>

definition dark_ctx :: "sim heap_ctx" where
  "dark_ctx =
     \<lparr>world = sim0\<lparr>sim_reachable := (\<lambda>_. False)\<rparr>, mtr = Some initMetrics,
      heap = sample_heap(0 := GRPCBackend
        \<lparr>gb_id = ''local'', gb_name = ''g'', gb_weight = 1, gb_healthy = True, gb_conn = 0,
         gb_addr = ''10.0.0.1:50051'', gb_timeout = Second, gb_defaultTTL = Second\<rparr>)\<rparr>"

lemmas run_checks_simps =
  checkBackend_def check_error_def probe_def checkTCP_def extractAddr_def Grpc_GetAddr_def
  time_Now_def time_Since_def new_status_def sample_check_config_def Let_def failed_def passed_def
  count_success_def count_failure_def obj_SetHealthy_def Backend_SetHealthy_def Grpc_SetHealthy_def
  ParseDuration_def wrap64_id in_int64_def

lemma dark_checks:
  "fst (Checks sim_env ''local'' 3 (sample_checker HealthCheckTypeTCP) dark_ctx) = [False, False, False]"
  by (simp add: numeral_3_eq_3 run_checks_simps dark_ctx_def)

lemma light_checks:
  "fst (Checks sim_env ''local'' 2 (sample_checker HealthCheckTypeTCP\<lparr>hc_evicted := {''local''}\<rparr>)
     (dark_ctx\<lparr>world := sim0\<rparr>)) = [True, True]"
  by (simp add: numeral_2_eq_2 run_checks_simps dark_ctx_def sim0_def)

lemma dark_evicted:
  "IsEvicted (fst (snd (Checks sim_env ''local'' 3 (sample_checker HealthCheckTypeTCP) dark_ctx))) ''local''"
  "hc_backends (fst (snd (Checks sim_env ''local'' 3 (sample_checker HealthCheckTypeTCP) dark_ctx))) ''local'' \<noteq> None"
  by (simp_all add: numeral_3_eq_3 run_checks_simps dark_ctx_def IsEvicted_def)

text \<open>
  C30: a backend is evicted exactly at its threshold. While it is not evicted and no run of
  failed checks has reached the threshold, the next check evicts it if and only if it fails
  and completes such a run; a passed check starts the count anew.
\<close>

theorem evicted_at_threshold:
  assumes "hc_backends hc i = Some st" "in_int64 (he_failureThreshold st)" "\<not> IsEvicted hc i"
    "he_consecutiveFailure st = 0" "Checks E i n hc c = (oks @ [ok], hc', c')"
    "\<forall>k \<le> length oks. run_of False (take k oks) < at_least_one (he_failureThreshold st)"
  shows "IsEvicted hc' i \<longleftrightarrow> run_of False (oks @ [ok]) = at_least_one (he_failureThreshold st)"
proof -
  let ?f = "he_failureThreshold st" and ?s = "he_successThreshold st"
  obtain succ where w: "foldl (watch ?f ?s) (watch_of hc i st) oks = (False, succ, int (run_of False oks))"
    using watch_not_yet [OF assms(2,6)] assms(3,4) by (auto simp: watch_of_def IsEvicted_def)
  have lt: "run_of False oks < at_least_one ?f" using assms(6) by (metis order_refl take_all)
  from Checks_watch [OF assms(1,5)] w show ?thesis
    using wrap64_run [OF lt assms(2)] lt by (cases ok) (auto simp: at_least_one_def)
qed

lemma evicted_at_threshold_witness:
  "IsEvicted (fst (snd (Checks sim_env ''local'' 3 (sample_checker HealthCheckTypeTCP) dark_ctx))) ''local''"
proof -
  obtain hc' c' where k: "Checks sim_env ''local'' 3 (sample_checker HealthCheckTypeTCP) dark_ctx =
      ([False, False] @ [False], hc', c')"
    using dark_checks by (cases "Checks sim_env ''local'' 3 (sample_checker HealthCheckTypeTCP) dark_ctx") auto
  have "IsEvicted hc' ''local'' \<longleftrightarrow> run_of False ([False, False] @ [False]) = at_least_one 3"
    using evicted_at_threshold [OF _ _ _ _ k, of "new_status 0 (sample_check_config HealthCheckTypeTCP) 0"]
    by (auto simp: IsEvicted_def in_int64_def at_least_one_def run_of_def le_Suc_eq)
  then show ?thesis unfolding k by (simp add: run_of_def at_least_one_def)
qed

text \<open>
  C9: an evicted backend is readmitted exactly at its success threshold: while no run of
  passed checks has reached it, the next check readmits the backend if and only if it
  passes and completes such a run.
\<close>

theorem readmitted_at_threshold:
  assumes "hc_backends hc i = Some st" "in_int64 (he_successThreshold st)" "IsEvicted hc i"
    "he_consecutiveSuccess st = 0" "Checks E i n hc c = (oks @ [ok], hc', c')"
    "\<forall>k \<le> length oks. run_of True (take k oks) < at_least_one (he_successThreshold st)"
  shows "IsEvicted hc' i \<longleftrightarrow> run_of True (oks @ [ok]) \<noteq> at_least_one (he_successThreshold st)"
proof -
  let ?f = "he_failureThreshold st" and ?s = "he_successThreshold st"
  obtain fail where w: "foldl (watch ?f ?s) (watch_of hc i st) oks = (True, int (run_of True oks), fail)"
    using watch_still_out [OF assms(2,6)] assms(3,4) by (auto simp: watch_of_def IsEvicted_def)
  have lt: "run_of True oks < at_least_one ?s" using assms(6) by (metis order_refl take_all)
  from Checks_watch [OF assms(1,5)] w show ?thesis
    using wrap64_run [OF lt assms(2)] lt by (cases ok) (auto simp: at_least_one_def)
qed

lemma readmitted_at_threshold_witness:
  "\<not> IsEvicted (fst (snd (Checks sim_env ''local'' 2
      (sample_checker HealthCheckTypeTCP\<lparr>hc_evicted := {''local''}\<rparr>) (dark_ctx\<lparr>world := sim0\<rparr>)))) ''local''"
proof -
  let ?run = "Checks sim_env ''local'' 2 (sample_checker HealthCheckTypeTCP\<lparr>hc_evicted := {''local''}\<rparr>)
      (dark_ctx\<lparr>world := sim0\<rparr>)"
  obtain hc' c' where k: "?run = ([True] @ [True], hc', c')"
    using light_checks by (cases ?run) auto
  have "IsEvicted hc' ''local'' \<longleftrightarrow> run_of True ([True] @ [True]) \<noteq> at_least_one 2"
    using readmitted_at_threshold [OF _ _ _ _ k, of "new_status 0 (sample_check_config HealthCheckTypeTCP) 0"]
    by (auto simp: IsEvicted_def in_int64_def at_least_one_def run_of_def le_Suc_eq)
  then show ?thesis unfolding k by (simp add: run_of_def at_least_one_def)
qed

section \<open>The health flag\<close>

lemma obj_Healthy_set [simp]:
  "obj_Healthy (heap (obj_SetHealthy p x c)) q = (if q = p then x else obj_Healthy (heap c) q)"
  by (simp add: obj_Healthy_def obj_SetHealthy_def dispatch_kv.set_healthy_health)

lemma metric_heap [simp]: "heap (record_metric f c) = heap c"
  by (simp add: record_metric_def)

lemma obj_Ping_health: "obj_Ping E p c = (err, c') \<Longrightarrow> obj_Healthy (heap c') p \<longleftrightarrow> err = None"
  by (auto simp: obj_Ping_def obj_call_def obj_Healthy_def dest: dispatch_kv.ping_health split: prod.splits)

text \<open>
  C36: for a backend checked by ping the thresholds have no effect on routing: after every
  check its health flag is the outcome of that one check, evicted or not, because \<open>Ping\<close>
  itself sets the flag the router reads. One failed ping takes the backend out, one good
  ping puts an evicted backend back.
\<close>

theorem ping_overrides_thresholds:
  assumes "hc_backends hc i = Some st" "he_checkType st \<noteq> HealthCheckTypeTCP"
    "checkBackend E i hc c = (hc', c')"
  shows "obj_Healthy (heap c') (he_backend st) \<longleftrightarrow> check_error E st c = None"
proof -
  obtain c1 :: "('a, 'b) heap_ctx_scheme" and c2 :: "('a, 'b) heap_ctx_scheme" and c4 t where
    x: "probe E st c1 = (check_error E st c, c2)" "heap c4 = heap c2"
    "if check_error E st c = None
     then passed i (count_success t st) (hc\<lparr>hc_backends := (hc_backends hc)(i \<mapsto> count_success t st)\<rparr>) c4 = (hc', c')
     else failed i (count_failure t st) (hc\<lparr>hc_backends := (hc_backends hc)(i \<mapsto> count_failure t st)\<rparr>) c4 = (hc', c')"
    using checkBackend_cases [OF assms(1,3)] by blast
  have "probe E st c1 = obj_Ping E (he_backend st) c1"
    using assms(2) by (simp add: probe_def split: HealthCheckType.splits)
  with x(1,2) have "obj_Healthy (heap c4) (he_backend st) \<longleftrightarrow> check_error E st c = None"
    using obj_Ping_health by fastforce
  with x(3) show ?thesis
    by (auto simp: passed_def failed_def split: if_splits)
qed

lemma ping_overrides_thresholds_witness:
  "obj_Healthy (heap (snd (checkBackend sim_env ''local''
      (sample_checker HealthCheckTypePing\<lparr>hc_evicted := {''local''}\<rparr>) sample_ctx))) 0"
proof -
  let ?hc = "sample_checker HealthCheckTypePing\<lparr>hc_evicted := {''local''}\<rparr>"
  let ?st = "new_status 0 (sample_check_config HealthCheckTypePing) 0"
  obtain hc' c' where k: "checkBackend sim_env ''local'' ?hc sample_ctx = (hc', c')" by fastforce
  have "check_error sim_env ?st sample_ctx = None"
    by (simp add: check_error_def probe_def new_status_def sample_check_config_def obj_Ping_def obj_call_def
        time_Now_def sample_ctx_def sample_heap_def sample_object_def Backend_Ping_def on_object_def Memory_Ping_def)
  with ping_overrides_thresholds [OF _ _ k, of ?st] have "obj_Healthy (heap c') 0"
    by (simp add: new_status_def sample_check_config_def)
  then show ?thesis unfolding k by simp
qed

text \<open>
  For a backend checked over TCP the flag follows the thresholds: once the flag says
  \<open>not evicted\<close> it does so after every check, and a check changes neither the flag nor the
  address of any other backend.
\<close>

theorem tcp_flag_is_eviction:
  assumes "hc_backends hc i = Some st" "he_checkType st = HealthCheckTypeTCP"
    "extractAddr (heap c (he_backend st)) \<noteq> []"
    "obj_Healthy (heap c) (he_backend st) \<longleftrightarrow> \<not> IsEvicted hc i"
    "checkBackend E i hc c = (hc', c')"
  shows "(obj_Healthy (heap c') (he_backend st) \<longleftrightarrow> \<not> IsEvicted hc' i) \<and>
    extractAddr (heap c' (he_backend st)) = extractAddr (heap c (he_backend st)) \<and>
    (\<forall>p. p \<noteq> he_backend st \<longrightarrow> heap c' p = heap c p)"
proof -
  obtain c1 :: "('a, 'b) heap_ctx_scheme" and c2 :: "('a, 'b) heap_ctx_scheme" and c4 t where
    x: "heap c1 = heap c" "probe E st c1 = (check_error E st c, c2)" "heap c4 = heap c2"
    "if check_error E st c = None
     then passed i (count_success t st) (hc\<lparr>hc_backends := (hc_backends hc)(i \<mapsto> count_success t st)\<rparr>) c4 = (hc', c')
     else failed i (count_failure t st) (hc\<lparr>hc_backends := (hc_backends hc)(i \<mapsto> count_failure t st)\<rparr>) c4 = (hc', c')"
    using checkBackend_cases [OF assms(1,5)] by blast
  have "heap c2 = heap c"
    using x(1,2) assms(2,3) by (auto simp: probe_def checkTCP_def Let_def split: prod.splits)
  moreover have addr: "extractAddr (Backend_SetHealthy b y) = extractAddr b" for b y
    by (cases b) (simp_all add: extractAddr_def Backend_SetHealthy_def Redis_SetHealthy_def Redis_GetAddr_def
        Http_SetHealthy_def Http_GetBaseURL_def Grpc_SetHealthy_def Grpc_GetAddr_def)
  ultimately show ?thesis
    using x(3,4) assms(4)
    by (auto simp: passed_def failed_def IsEvicted_def obj_SetHealthy_def addr obj_Healthy_def
        dispatch_kv.set_healthy_health split: if_splits)
qed

lemma tcp_flag_is_eviction_witness:
  "\<exists>hc' c'. checkBackend sim_env ''local'' (sample_checker HealthCheckTypeTCP) dark_ctx = (hc', c') \<and>
     (obj_Healthy (heap c') 0 \<longleftrightarrow> \<not> IsEvicted hc' ''local'')"
proof -
  let ?st = "new_status 0 (sample_check_config HealthCheckTypeTCP) 0"
  obtain hc' c' where k: "checkBackend sim_env ''local'' (sample_checker HealthCheckTypeTCP) dark_ctx = (hc', c')"
    by fastforce
  have "extractAddr (heap dark_ctx 0) = ''10.0.0.1:50051''"
    by (simp add: dark_ctx_def extractAddr_def Grpc_GetAddr_def)
  moreover have "obj_Healthy (heap dark_ctx) 0" by (simp add: dark_ctx_def obj_Healthy_def Backend_Healthy_def)
  moreover have "he_checkType ?st = HealthCheckTypeTCP" by (simp add: new_status_def sample_check_config_def)
  ultimately show ?thesis using tcp_flag_is_eviction [OF _ _ _ _ k, of ?st] k by (auto simp: IsEvicted_def)
qed

section \<open>The life of a checker\<close>

text \<open>
  Registrations, checks and removals in any order, with the number of times an ID was
  unregistered while it was evicted.
\<close>

inductive health_life ::
  "'w env \<Rightarrow> (string \<Rightarrow> duration \<Rightarrow> 'w \<Rightarrow> (go_error + nat) \<times> 'w) \<Rightarrow> (nat \<Rightarrow> 'w \<Rightarrow> 'w) \<Rightarrow>
   health_checker \<Rightarrow> ('w, 'z) heap_ctx_scheme \<Rightarrow> (string \<Rightarrow> nat) \<Rightarrow> bool"
  for E :: "'w env" and new_job :: "string \<Rightarrow> duration \<Rightarrow> 'w \<Rightarrow> (go_error + nat) \<times> 'w" and remove_job :: "nat \<Rightarrow> 'w \<Rightarrow> 'w"
where
  made: "HealthChecker_New None = Inr hc \<Longrightarrow> mtr c = Some initMetrics \<Longrightarrow>
         health_life E new_job remove_job hc c (\<lambda>_. 0)"
| registered: "health_life E new_job remove_job hc c lost \<Longrightarrow>
         Health_RegisterBackend new_job p cfg hc c = (err, hc', c') \<Longrightarrow>
         health_life E new_job remove_job hc' c' lost"
| checked: "health_life E new_job remove_job hc c lost \<Longrightarrow> checkBackend E i hc c = (hc', c') \<Longrightarrow>
         health_life E new_job remove_job hc' c' lost"
| removed: "health_life E new_job remove_job hc c lost \<Longrightarrow>
         Health_UnregisterBackend remove_job i hc c = (hc', c') \<Longrightarrow>
         health_life E new_job remove_job hc' c' (if IsEvicted hc i then lost(i := lost i + 1) else lost)"

definition status_ok :: "backendHealthStatus \<Rightarrow> bool" where
  "status_ok st \<longleftrightarrow>
     he_failureThreshold st \<noteq> 0 \<and> he_successThreshold st \<noteq> 0 \<and> he_checkType st \<noteq> HealthCheckTypeEmpty \<and>
     (he_consecutiveSuccess st = 0 \<or> he_consecutiveFailure st = 0)"

definition checker_ok :: "health_checker \<Rightarrow> bool" where
  "checker_ok hc \<longleftrightarrow>
     (\<forall>i. IsEvicted hc i \<longrightarrow> hc_backends hc i \<noteq> None) \<and>
     (\<forall>i st. hc_backends hc i = Some st \<longrightarrow> status_ok st)"

definition gauge_of :: "metrics option \<Rightarrow> string \<Rightarrow> int" where
  "gauge_of m i = (case m of None \<Rightarrow> 0 | Some mt \<Rightarrow> m_eviction_gauge mt i)"

lemma gauge_of_simps [simp]:
  "gauge_of (observe (SetBackendStatus j x) m) i = gauge_of m i"
  "gauge_of (observe (RecordRecovery j) (Some mt)) i = m_eviction_gauge mt i - (if i = j then 1 else 0)"
  "gauge_of (observe (RecordEviction j) (Some mt)) i = m_eviction_gauge mt i + (if i = j then 1 else 0)"
  by (cases m; simp add: gauge_of_def record_defs)+

lemma mtr_SetHealthy [simp]: "mtr (obj_SetHealthy p x c) = mtr c"
  by (simp add: obj_SetHealthy_def)

lemma status_ok_count: "status_ok st \<Longrightarrow> status_ok (count_success t st) \<and> status_ok (count_failure t st)"
  by (simp add: status_ok_def)

lemma checkBackend_ok:
  fixes c c' :: "('w, 'z) heap_ctx_scheme"
  assumes "checkBackend E i hc c = (hc', c')" "checker_ok hc"
  shows "checker_ok hc'"
proof (cases "hc_backends hc i")
  case None
  with assms show ?thesis by (simp add: checkBackend_def)
next
  case (Some st)
  obtain st' where s: "hc_backends hc' = (hc_backends hc)(i \<mapsto> st')" "he_checkType st' = he_checkType st"
    "he_failureThreshold st' = he_failureThreshold st" "he_successThreshold st' = he_successThreshold st"
    "watch_of hc' i st' =
      watch (he_failureThreshold st) (he_successThreshold st) (watch_of hc i st) (check_error E st c = None)"
    "\<forall>j. j \<noteq> i \<longrightarrow> (j \<in> hc_evicted hc' \<longleftrightarrow> j \<in> hc_evicted hc)"
    using checkBackend_watch [OF Some assms(1)] by blast
  have "he_consecutiveSuccess st' = 0 \<or> he_consecutiveFailure st' = 0"
    using s(5) by (cases "check_error E st c = None") (auto simp: watch_of_def)
  moreover have "status_ok st" using assms(2) Some by (simp add: checker_ok_def)
  ultimately have "status_ok st'" using s(2-4) by (simp add: status_ok_def)
  with s(1,6) assms(2) show ?thesis by (auto simp: checker_ok_def IsEvicted_def)
qed

lemma checkBackend_gauge:
  fixes c c' :: "('w, 'z) heap_ctx_scheme"
  assumes "checkBackend E i hc c = (hc', c')" "mtr c = Some mt"
  shows "\<exists>mt'. mtr c' = Some mt' \<and> m_eviction_gauge mt' j - (if IsEvicted hc' j then 1 else 0) =
    m_eviction_gauge mt j - (if IsEvicted hc j then 1 else 0)"
proof (cases "hc_backends hc i")
  case None
  with assms show ?thesis by (simp add: checkBackend_def)
next
  case (Some st)
  obtain c1 :: "('w, 'z) heap_ctx_scheme" and c2 :: "('w, 'z) heap_ctx_scheme" and c4 t where
    x: "mtr c1 = mtr c" "probe E st c1 = (check_error E st c, c2)" "mtr c4 = mtr c2"
    "if check_error E st c = None
     then passed i (count_success t st) (hc\<lparr>hc_backends := (hc_backends hc)(i \<mapsto> count_success t st)\<rparr>) c4 = (hc', c')
     else failed i (count_failure t st) (hc\<lparr>hc_backends := (hc_backends hc)(i \<mapsto> count_failure t st)\<rparr>) c4 = (hc', c')"
    using checkBackend_cases [OF Some assms(1)] by blast
  have "mtr c4 = Some mt" using x(1-3) probe_frame [OF x(2)] assms(2) by simp
  with x(4) show ?thesis
    by (auto simp: passed_def failed_def IsEvicted_def record_defs split: if_splits)
qed

text \<open>
  C32: in every life of a checker only registered backends are evicted, at least one of the
  two consecutive counts of a backend is 0, its thresholds are not 0; and the eviction gauge
  of an ID is 1 while it is evicted and 0 otherwise, plus one for every time it was
  unregistered while evicted: those evictions are never taken back.
\<close>

theorem health_life_invariant:
  assumes "health_life E new_job remove_job hc c lost"
  shows "checker_ok hc \<and>
    (\<exists>mt. mtr c = Some mt \<and> (\<forall>i. m_eviction_gauge mt i = (if IsEvicted hc i then 1 else 0) + int (lost i)))"
  using assms
proof (induction rule: health_life.induct)
  case (made hc c)
  then show ?case by (auto simp: HealthChecker_New_def checker_ok_def IsEvicted_def initMetrics_def)
next
  case (registered hc c lost p cfg err hc' c')
  then obtain mt where mt: "mtr c = Some mt"
    "\<forall>j. m_eviction_gauge mt j = (if IsEvicted hc j then 1 else 0) + int (lost j)" by blast
  have "mtr c' = mtr c \<and> hc_evicted hc' = hc_evicted hc \<and>
      (hc' = hc \<or> (\<exists>i cfg job. hc_backends hc' = (hc_backends hc)(i \<mapsto> new_status p cfg job)))"
    using registered.hyps(2)
    by (auto simp: Health_RegisterBackend_def Let_def split: option.splits if_splits prod.splits sum.splits) blast
  moreover have "status_ok (new_status p cfg job)" for cfg job by (simp add: status_ok_def new_status_def)
  ultimately have "checker_ok hc'"
    using registered.IH by (auto simp: checker_ok_def IsEvicted_def split: if_splits)
  moreover have "mtr c' = Some mt \<and> (\<forall>j. m_eviction_gauge mt j = (if IsEvicted hc' j then 1 else 0) + int (lost j))"
    using mt \<open>mtr c' = mtr c \<and> _\<close> by (simp add: IsEvicted_def)
  ultimately show ?case by blast
next
  case (checked hc c lost i hc' c')
  then obtain mt where mt: "mtr c = Some mt"
    "\<And>j. m_eviction_gauge mt j = (if IsEvicted hc j then 1 else 0) + int (lost j)" by blast
  obtain mt' where mt': "mtr c' = Some mt'" using checkBackend_gauge [OF checked.hyps(2) mt(1)] by blast
  have "m_eviction_gauge mt' j = (if IsEvicted hc' j then 1 else 0) + int (lost j)" for j
    using checkBackend_gauge [OF checked.hyps(2) mt(1), of j] mt(2) [of j] mt' by auto
  with mt' checkBackend_ok [OF checked.hyps(2)] checked.IH show ?case by blast
next
  case (removed hc c lost i hc' c')
  show ?case
  proof (cases "hc_backends hc i")
    case None
    with removed.IH have "\<not> IsEvicted hc i" by (auto simp: checker_ok_def)
    with removed None show ?thesis by (simp add: Health_UnregisterBackend_def)
  next
    case (Some st)
    with removed.hyps(2) have "hc' = hc\<lparr>hc_backends := (hc_backends hc)(i := None), hc_evicted := hc_evicted hc - {i}\<rparr>"
      "mtr c' = mtr c" by (auto simp: Health_UnregisterBackend_def)
    with removed.IH show ?thesis by (auto simp: checker_ok_def IsEvicted_def)
  qed
qed

lemma checks_life:
  assumes "health_life E new_job remove_job hc c lost" "Checks E i n hc c = (oks, hc', c')"
  shows "health_life E new_job remove_job hc' c' lost"
  using assms
proof (induction n arbitrary: oks hc c)
  case 0
  then show ?case by simp
next
  case (Suc n)
  show ?case
  proof (cases "hc_backends hc i")
    case None
    with Suc.prems show ?thesis by simp
  next
    case (Some st)
    obtain hc1 c1 where k: "checkBackend E i hc c = (hc1, c1)" by fastforce
    with Some Suc.prems(2) obtain oks1 where "Checks E i n hc1 c1 = (oks1, hc', c')" by (auto split: prod.splits)
    from Suc.IH [OF health_life.checked [OF Suc.prems(1) k] this] show ?thesis .
  qed
qed

text \<open>A backend is registered, fails three checks and is taken out of the table: the gauge stays at 1.\<close>

lemma health_life_invariant_witness:
  "\<exists>hc (c :: sim heap_ctx) mt. health_life sim_env (\<lambda>i d w. (Inr 0, w)) (\<lambda>j w. w) hc c ((\<lambda>_. 0)(''local'' := 1)) \<and>
     hc_backends hc ''local'' = None \<and> mtr c = Some mt \<and> m_eviction_gauge mt ''local'' = 1"
proof -
  let ?life = "health_life sim_env (\<lambda>i d w. (Inr 0, w)) (\<lambda>j w. w)" and ?none = "\<lparr>hc_backends = Map.empty, hc_evicted = {}\<rparr>"
  have "?life ?none dark_ctx (\<lambda>_. 0)"
    by (rule health_life.made) (simp_all add: HealthChecker_New_def dark_ctx_def)
  moreover have "Health_RegisterBackend (\<lambda>i d w. (Inr 0, w)) 0 (Some (sample_check_config HealthCheckTypeTCP)) ?none dark_ctx =
      (None, sample_checker HealthCheckTypeTCP, dark_ctx)"
    by (simp add: Health_RegisterBackend_def sample_checker_def sample_check_config_def obj_ID_def dark_ctx_def
        Backend_ident_def Grpc_ident_def)
  ultimately have l: "?life (sample_checker HealthCheckTypeTCP) dark_ctx (\<lambda>_. 0)" by (rule health_life.registered)
  obtain hc' c' where k: "Checks sim_env ''local'' 3 (sample_checker HealthCheckTypeTCP) dark_ctx = ([False, False, False], hc', c')"
    using dark_checks by (cases "Checks sim_env ''local'' 3 (sample_checker HealthCheckTypeTCP) dark_ctx") auto
  have out: "IsEvicted hc' ''local''" "hc_backends hc' ''local'' \<noteq> None"
    using dark_evicted k by simp_all
  obtain hc c where r: "Health_UnregisterBackend (\<lambda>j w. w) ''local'' hc' c' = (hc, c)" by fastforce
  have life: "?life hc c ((\<lambda>_. 0)(''local'' := 1))"
    using health_life.removed [OF checks_life [OF l k] r] out by simp
  moreover have "hc_backends hc ''local'' = None \<and> \<not> IsEvicted hc ''local''"
    using r out(2) by (auto simp: Health_UnregisterBackend_def IsEvicted_def split: option.splits)
  moreover obtain mt where "mtr c = Some mt"
      "m_eviction_gauge mt ''local'' = (if IsEvicted hc ''local'' then 1 else 0) + int (((\<lambda>_. 0)(''local'' := 1)) ''local'')"
    using health_life_invariant [OF life] by blast
  ultimately show ?thesis using life by (intro exI [of _ hc] exI [of _ c] exI [of _ mt] conjI) auto
qed

section \<open>The address\<close>

lemma str_cut_found:
  "sep \<noteq> [] \<Longrightarrow> hd sep \<notin> set a \<Longrightarrow> str_cut sep (a @ sep @ b) = Some (a, b)"
proof (induction a)
  case Nil
  then obtain x xs where sep: "sep = x # xs" by (cases sep) auto
  have "HasPrefix (x # xs @ b) (x # xs)" using HasPrefix_append [of "x # xs" b] by simp
  then show ?case by (simp add: sep)
next
  case (Cons x a)
  then have "\<not> HasPrefix (x # a @ sep @ b) sep" by (cases sep) (auto simp: HasPrefix_def)
  with Cons show ?case by simp
qed

lemma strings_Split_first:
  "sep \<noteq> [] \<Longrightarrow> hd sep \<notin> set a \<Longrightarrow> strings_Split (a @ sep @ b) sep = a # strings_Split b sep"
  by (simp add: strings_Split.simps [of "a @ sep @ b"] str_cut_found)

lemma str_cut_absent: "\<not> strings_Contains s sep \<Longrightarrow> str_cut sep s = None"
  by (induction s) auto

lemma strings_Contains_middle: "strings_Contains (a @ sep @ b) sep"
  by (auto simp: strings_Contains_sublist sublist_def)

text \<open>
  The address a TCP check of an HTTP backend dials is the host part of its base URL:
  what stands between the scheme and the first slash, port included if there is one.
\<close>

theorem http_address_is_host:
  assumes "Http_GetBaseURL h = scheme @ ''://'' @ host @ ''/'' @ path"
    "CHR '':'' \<notin> set scheme" "CHR ''/'' \<notin> set host" "\<not> strings_Contains (host @ ''/'' @ path) ''://''"
  shows "extractAddr (HTTPBackend h) = host"
proof -
  have "strings_Split (Http_GetBaseURL h) ''://'' = [scheme, host @ ''/'' @ path]"
    using assms str_cut_absent [OF assms(4)] strings_Split_first [of "''://''" scheme "host @ ''/'' @ path"]
    by (simp add: strings_Split.simps [of "host @ _"])
  moreover have "strings_Split (host @ ''/'' @ path) ''/'' ! 0 = host"
    using strings_Split_first [of "''/''" host path] assms(3) by simp
  moreover have "strings_Contains (Http_GetBaseURL h) ''://''" "strings_Contains (host @ ''/'' @ path) ''/''"
    by (simp_all only: assms(1) strings_Contains_middle)
  ultimately show ?thesis by (simp add: extractAddr_def Let_def)
qed

lemma http_address_is_host_witness:
  "\<exists>h. extractAddr (HTTPBackend h) = ''localhost:8080''"
proof -
  obtain h where h: "Http_GetBaseURL h = ''http'' @ ''://'' @ ''localhost:8080'' @ ''/'' @ ''kv/''"
    by (metis Http_GetBaseURL_def http_backend.select_convs(6))
  from http_address_is_host [OF h] show ?thesis by (auto simp: HasPrefix_def)
qed

end
