(* ===== verification/Cache_Service.thy ===== *)
theory Cache_Service
  imports Router Circuit
begin

text \<open>
  Package \<open>internal/cache\<close>: reads and writes over the local cache and the backends the
  router names. The context holds, beside the world, the metrics and the objects, the
  breakers and what other goroutines will do: the queue and the batch of the write-behind
  worker, the items that sleep before a retry, and the local writes started with \<open>go\<close>.
  The load balancer and the configuration the service is given are never used by it.

  The deadline of a request's context is the environment's concern: an operation on a
  backend that runs out of time returns an error.
\<close>

section \<open>State\<close>

record wb_item =
  wb_entry :: entry
  wb_retry :: int

record 'w cs_ctx = "'w heap_ctx" +
  breakers :: circuit_manager
  queue :: "wb_item list"
  batch :: "wb_item list"
  sleeping :: "wb_item list"
  local_sets :: "entry list"
  stopped :: bool

record cache_service =
  cs_router :: router
  cs_localCache :: "bref option"
  cs_defaultTTL :: duration
  cs_maxValueSize :: int
  cs_enableVersioning :: bool
  cs_mode :: ReadWriteMode

record get_options =
  go_Version :: u64
  go_RoutingHint :: string
  go_SkipCache :: bool

record set_options =
  so_Version :: u64
  so_RoutingHint :: string
  so_TTL :: duration
  so_Mode :: ReadWriteMode
  so_CheckVersion :: bool

record delete_options =
  do_RoutingHint :: string

definition CacheService_New :: "CacheConfig \<Rightarrow> router \<Rightarrow> bref option \<Rightarrow> cache_service" where
  "CacheService_New cfg r local =
     \<lparr>cs_router = r, cs_localCache = local,
      cs_defaultTTL = ParseDuration (cc_DefaultTTL cfg) (5 * Minute),
      cs_maxValueSize = (if cc_MaxValueSize cfg = 0 then 1 * 1024 * 1024 else cc_MaxValueSize cfg),
      cs_enableVersioning = cc_EnableVersioning cfg, cs_mode = cc_DefaultMode cfg\<rparr>"

definition queue_capacity :: nat where
  "queue_capacity = 10000"

section \<open>The calls it makes\<close>

text \<open>
  Routing reads the objects as they are now. The order of the router's map is drawn from the
  environment for every call; a call that does not range over the map ignores it.
\<close>

definition route_write ::
  "'w env \<Rightarrow> cache_service \<Rightarrow> string \<Rightarrow> string \<Rightarrow> ('w, 'z) cs_ctx_scheme \<Rightarrow>
   (go_error + bref) \<times> ('w, 'z) cs_ctx_scheme" where
  "route_write E cs key hint c =
     (let (ks, w) = env_iter E (map fst (r_backends (cs_router cs))) (world c)
      in (GetBackend (env_xxhash E) (heap c) (cs_router cs) ks key hint, c\<lparr>world := w\<rparr>))"

definition route_read ::
  "'w env \<Rightarrow> cache_service \<Rightarrow> string \<Rightarrow> string \<Rightarrow> ('w, 'z) cs_ctx_scheme \<Rightarrow>
   bref list \<times> ('w, 'z) cs_ctx_scheme" where
  "route_read E cs key hint c =
     (let (ks, w) = env_iter E (map fst (r_backends (cs_router cs))) (world c)
      in (GetBackendsForRead (env_xxhash E) (heap c) (cs_router cs) ks key hint, c\<lparr>world := w\<rparr>))"

text \<open>\<open>c.circuitManager.Execute(backend.ID(), func() error { return nil })\<close>\<close>

definition guard :: "'w env \<Rightarrow> bref \<Rightarrow> ('w, 'z) cs_ctx_scheme \<Rightarrow> go_error option \<times> ('w, 'z) cs_ctx_scheme" where
  "guard E p c =
     (let (err, m, c') = Execute E (obj_ID (heap c) p) (\<lambda>c. (None, c)) (breakers c) c
      in (err, c'\<lparr>breakers := m\<rparr>))"

text \<open>\<open>if c.metrics != nil { c.metrics.RecordLatency("cache", op, time.Since(start)) }\<close>\<close>

definition record_latency ::
  "'w env \<Rightarrow> string \<Rightarrow> instant \<Rightarrow> ('w, 'z) cs_ctx_scheme \<Rightarrow> ('w, 'z) cs_ctx_scheme" where
  "record_latency E op start c =
     (case mtr c of
        None \<Rightarrow> c
      | Some _ \<Rightarrow> (let (d, c1) = time_Since E start c in record_metric (RecordLatency ''cache'' op d) c1))"

definition spawn_local_set :: "entry \<Rightarrow> ('w, 'z) cs_ctx_scheme \<Rightarrow> ('w, 'z) cs_ctx_scheme" where
  "spawn_local_set e c = c\<lparr>local_sets := local_sets c @ [e]\<rparr>"

section \<open>Get\<close>

definition stale_version :: "cache_service \<Rightarrow> get_options \<Rightarrow> entry \<Rightarrow> bool" where
  "stale_version cs opts e \<longleftrightarrow> cs_enableVersioning cs \<and> 0 < go_Version opts \<and> entry_Version e \<noteq> go_Version opts"

text \<open>The lookup in the local cache: the answer if it has one, and the value size for the metrics.\<close>

definition get_local ::
  "'w env \<Rightarrow> cache_service \<Rightarrow> string \<Rightarrow> get_options \<Rightarrow> ('w, 'z) cs_ctx_scheme \<Rightarrow>
   (go_error + entry) option \<times> int \<times> ('w, 'z) cs_ctx_scheme" where
  "get_local E cs key opts c =
     (case cs_localCache cs of
        None \<Rightarrow> (None, 0, c)
      | Some p \<Rightarrow>
          if go_SkipCache opts then (None, 0, c)
          else
            (let (r, c1) = obj_Get E p key c in
             case r of
               Inl _ \<Rightarrow> (None, 0, c1)
             | Inr e \<Rightarrow>
                 (let c2 = record_metric (RecordRequest ''local'' ''get'' ''hit'') (record_metric (RecordHit ''local'') c1)
                  in (Some (if stale_version cs opts e then Inl ErrVersionMismatch else Inr e), value_size e, c2))))"

fun get_backends ::
  "'w env \<Rightarrow> cache_service \<Rightarrow> string \<Rightarrow> get_options \<Rightarrow> bref list \<Rightarrow> go_error option \<Rightarrow>
   ('w, 'z) cs_ctx_scheme \<Rightarrow> (go_error + entry) \<times> int \<times> ('w, 'z) cs_ctx_scheme" where
  "get_backends E cs key opts [] lastErr c =
     (case lastErr of
        Some err \<Rightarrow> (Inl err, 0, record_metric (RecordRequest ''cache'' ''get'' ''error'') c)
      | None \<Rightarrow> (Inl ErrKeyNotFound, 0, record_metric (RecordRequest ''cache'' ''get'' ''miss'') c))"
| "get_backends E cs key opts (p # ps) lastErr c =
     (let i = obj_ID (heap c) p; (gerr, c1) = guard E p c in
      case gerr of
        Some _ \<Rightarrow> get_backends E cs key opts ps (Some CircuitErrCircuitOpen) c1
      | None \<Rightarrow>
          (let (r, c2) = obj_Get E p key c1 in
           case r of
             Inr e \<Rightarrow>
               (let c3 = record_metric (RecordRequest i ''get'' ''success'') (record_metric (RecordHit i) c2) in
                if stale_version cs opts e then (Inl ErrVersionMismatch, value_size e, c3)
                else
                  (Inr e, value_size e,
                   if cs_localCache cs \<noteq> None \<and> \<not> go_SkipCache opts \<and> value_size e \<le> cs_maxValueSize cs
                   then spawn_local_set e c3 else c3))
           | Inl err \<Rightarrow>
               if err \<noteq> ErrKeyNotFound
               then get_backends E cs key opts ps (Some err) (record_metric (RecordError i ''get'' 500) c2)
               else get_backends E cs key opts ps lastErr (record_metric (RecordMiss i) c2)))"

definition zero_get_options :: get_options where
  "zero_get_options = \<lparr>go_Version = 0, go_RoutingHint = '''', go_SkipCache = False\<rparr>"

definition get_or_zero :: "get_options option \<Rightarrow> get_options" where
  "get_or_zero o0 = (case o0 of None \<Rightarrow> zero_get_options | Some opts \<Rightarrow> opts)"

definition get_body ::
  "'w env \<Rightarrow> cache_service \<Rightarrow> string \<Rightarrow> get_options \<Rightarrow> ('w, 'z) cs_ctx_scheme \<Rightarrow>
   (go_error + entry) \<times> int \<times> ('w, 'z) cs_ctx_scheme" where
  "get_body E cs key opts c =
     (let (found, size, c1) = get_local E cs key opts c in
      case found of
        Some r \<Rightarrow> (r, size, c1)
      | None \<Rightarrow>
          (let (ps, c2) = route_read E cs key (go_RoutingHint opts) (record_metric (RecordMiss ''local'') c1) in
           if ps = [] then
             (Inl ErrBackendUnhealthy, 0,
              record_metric (RecordRequest ''cache'' ''get'' ''error'')
                (record_metric (RecordError ''cache'' ''get'' 503) c2))
           else get_backends E cs key opts ps None c2))"

definition CacheService_Get ::
  "'w env \<Rightarrow> cache_service \<Rightarrow> string \<Rightarrow> get_options option \<Rightarrow> ('w, 'z) cs_ctx_scheme \<Rightarrow>
   (go_error + entry) \<times> ('w, 'z) cs_ctx_scheme" where
  "CacheService_Get E cs key opts0 c =
     (let (start, c0) = time_Now E c;
          (r, size, c1) = get_body E cs key (get_or_zero opts0) c0
      in (r, record_latency E ''get'' start (record_metric (RecordValueSize ''cache'' ''get'' size) c1)))"

section \<open>Set\<close>

fun getTTL :: "duration \<Rightarrow> duration list \<Rightarrow> duration" where
  "getTTL d [] = d"
| "getTTL d (t # ts) = (if 0 < t then t else getTTL d ts)"

text \<open>\<open>failed_with\<close> counts an error and a request that ended with it.\<close>

definition failed_with :: "string \<Rightarrow> string \<Rightarrow> int \<Rightarrow> string \<Rightarrow> ('w, 'z) cs_ctx_scheme \<Rightarrow> ('w, 'z) cs_ctx_scheme" where
  "failed_with i op code st c = record_metric (RecordRequest i op st) (record_metric (RecordError i op code) c)"

text \<open>The part \<open>setCacheAside\<close> and \<open>setWriteThrough\<close> have in common: route, guard, write.\<close>

definition write_backend ::
  "'w env \<Rightarrow> cache_service \<Rightarrow> entry \<Rightarrow> set_options \<Rightarrow> ('w, 'z) cs_ctx_scheme \<Rightarrow>
   (go_error + string) \<times> ('w, 'z) cs_ctx_scheme" where
  "write_backend E cs e opts c =
     (let (target, c1) = route_write E cs (entry_Key e) (so_RoutingHint opts) c in
      case target of
        Inl err \<Rightarrow> (Inl err, failed_with ''cache'' ''set'' 503 ''error'' c1)
      | Inr p \<Rightarrow>
          (let i = obj_ID (heap c1) p; (gerr, c2) = guard E p c1 in
           case gerr of
             Some _ \<Rightarrow> (Inl CircuitErrCircuitOpen, failed_with i ''set'' 503 ''circuit_open'' c2)
           | None \<Rightarrow>
               (let (err, c3) = obj_Set E p e c2 in
                case err of
                  Some err' \<Rightarrow> (Inl err', failed_with i ''set'' 500 ''error'' c3)
                | None \<Rightarrow> (Inr i, c3))))"

definition write_local :: "'w env \<Rightarrow> cache_service \<Rightarrow> entry \<Rightarrow> ('w, 'z) cs_ctx_scheme \<Rightarrow> ('w, 'z) cs_ctx_scheme" where
  "write_local E cs e c =
     (case cs_localCache cs of None \<Rightarrow> c | Some p \<Rightarrow> snd (obj_Set E p e c))"

definition setCacheAside ::
  "'w env \<Rightarrow> cache_service \<Rightarrow> entry \<Rightarrow> set_options \<Rightarrow> ('w, 'z) cs_ctx_scheme \<Rightarrow>
   go_error option \<times> ('w, 'z) cs_ctx_scheme" where
  "setCacheAside E cs e opts c =
     (let (r, c1) = write_backend E cs e opts (write_local E cs e c) in
      case r of
        Inl err \<Rightarrow> (Some err, c1)
      | Inr i \<Rightarrow> (None, record_metric (RecordRequest i ''set'' ''success'') c1))"

definition setWriteThrough ::
  "'w env \<Rightarrow> cache_service \<Rightarrow> entry \<Rightarrow> set_options \<Rightarrow> ('w, 'z) cs_ctx_scheme \<Rightarrow>
   go_error option \<times> ('w, 'z) cs_ctx_scheme" where
  "setWriteThrough E cs e opts c =
     (let (r, c1) = write_backend E cs e opts c in
      case r of
        Inl err \<Rightarrow> (Some err, c1)
      | Inr i \<Rightarrow>
          (None, record_metric (RecordRequest i ''set'' ''success'')
                   (if cs_localCache cs \<noteq> None then spawn_local_set e c1 else c1)))"

definition setWriteBehind ::
  "'w env \<Rightarrow> cache_service \<Rightarrow> entry \<Rightarrow> set_options \<Rightarrow> ('w, 'z) cs_ctx_scheme \<Rightarrow>
   go_error option \<times> ('w, 'z) cs_ctx_scheme" where
  "setWriteBehind E cs e opts c =
     (let c1 = write_local E cs e c in
      if length (queue c1) < queue_capacity then
        (None, record_metric (RecordRequest ''cache'' ''set'' ''queued'')
                 (c1\<lparr>queue := queue c1 @ [\<lparr>wb_entry = e, wb_retry = 0\<rparr>]\<rparr>))
      else setWriteThrough E cs e opts c1)"

definition setPassthrough ::
  "'w env \<Rightarrow> cache_service \<Rightarrow> entry \<Rightarrow> set_options \<Rightarrow> ('w, 'z) cs_ctx_scheme \<Rightarrow>
   go_error option \<times> ('w, 'z) cs_ctx_scheme" where
  "setPassthrough E cs e opts c =
     (let (target, c1) = route_write E cs (entry_Key e) (so_RoutingHint opts) c in
      case target of
        Inl err \<Rightarrow> (Some err, record_metric (RecordError ''cache'' ''set'' 503) c1)
      | Inr p \<Rightarrow>
          (let i = obj_ID (heap c1) p; (gerr, c2) = guard E p c1 in
           case gerr of
             Some _ \<Rightarrow> (Some CircuitErrCircuitOpen, c2)
           | None \<Rightarrow>
               (let (err, c3) = obj_Set E p e c2
                in (err, if err \<noteq> None then record_metric (RecordError i ''set'' 500) c3 else c3))))"

text \<open>The version check of \<open>Set\<close>: it looks in the local cache only.\<close>

definition set_conflict ::
  "'w env \<Rightarrow> cache_service \<Rightarrow> entry \<Rightarrow> set_options \<Rightarrow> ('w, 'z) cs_ctx_scheme \<Rightarrow> bool \<times> ('w, 'z) cs_ctx_scheme" where
  "set_conflict E cs e opts c =
     (if so_CheckVersion opts \<and> 0 < so_Version opts then
        (case cs_localCache cs of
           None \<Rightarrow> (False, c)
         | Some p \<Rightarrow>
             (let (r, c1) = obj_Get E p (entry_Key e) c in
              case r of
                Inr existing \<Rightarrow> (entry_Version existing \<noteq> so_Version opts, c1)
              | Inl _ \<Rightarrow> (False, c1)))
      else (False, c))"

definition zero_set_options :: set_options where
  "zero_set_options =
     \<lparr>so_Version = 0, so_RoutingHint = '''', so_TTL = 0, so_Mode = ReadWriteModeEmpty, so_CheckVersion = False\<rparr>"

definition set_or_zero :: "set_options option \<Rightarrow> set_options" where
  "set_or_zero o0 = (case o0 of None \<Rightarrow> zero_set_options | Some opts \<Rightarrow> opts)"

definition set_body ::
  "'w env \<Rightarrow> cache_service \<Rightarrow> entry \<Rightarrow> set_options \<Rightarrow> ('w, 'z) cs_ctx_scheme \<Rightarrow>
   go_error option \<times> ('w, 'z) cs_ctx_scheme" where
  "set_body E cs e opts c =
     (let mode = (if so_Mode opts = ReadWriteModeEmpty then cs_mode cs else so_Mode opts) in
      if cs_maxValueSize cs < value_size e then setPassthrough E cs e opts c
      else
        (let (conflict, c1) = set_conflict E cs e opts c in
         if conflict then (Some ErrVersionMismatch, failed_with ''cache'' ''set'' 409 ''version_mismatch'' c1)
         else
           (let e' = e\<lparr>entry_TTL := getTTL (cs_defaultTTL cs) [entry_TTL e, so_TTL opts]\<rparr> in
            case mode of
              ReadWriteModeWriteThrough \<Rightarrow> setWriteThrough E cs e' opts c1
            | ReadWriteModeWriteBehind \<Rightarrow> setWriteBehind E cs e' opts c1
            | _ \<Rightarrow> setCacheAside E cs e' opts c1)))"

definition CacheService_Set ::
  "'w env \<Rightarrow> cache_service \<Rightarrow> entry \<Rightarrow> set_options option \<Rightarrow> ('w, 'z) cs_ctx_scheme \<Rightarrow>
   go_error option \<times> ('w, 'z) cs_ctx_scheme" where
  "CacheService_Set E cs e opts0 c =
     (let (start, c0) = time_Now E c;
          (err, c1) = set_body E cs e (set_or_zero opts0)
                        (record_metric (RecordValueSize ''cache'' ''set'' (value_size e)) c0)
      in (err, record_latency E ''set'' start c1))"

section \<open>Delete\<close>

definition delete_local :: "'w env \<Rightarrow> cache_service \<Rightarrow> string \<Rightarrow> ('w, 'z) cs_ctx_scheme \<Rightarrow> ('w, 'z) cs_ctx_scheme" where
  "delete_local E cs key c =
     (case cs_localCache cs of None \<Rightarrow> c | Some p \<Rightarrow> snd (obj_Delete E p key c))"

definition delete_body ::
  "'w env \<Rightarrow> cache_service \<Rightarrow> string \<Rightarrow> string \<Rightarrow> ('w, 'z) cs_ctx_scheme \<Rightarrow>
   go_error option \<times> ('w, 'z) cs_ctx_scheme" where
  "delete_body E cs key hint c =
     (let (target, c1) = route_write E cs key hint (delete_local E cs key c) in
      case target of
        Inl err \<Rightarrow> (Some err, record_metric (RecordError ''cache'' ''delete'' 503) c1)
      | Inr p \<Rightarrow>
          (let i = obj_ID (heap c1) p; (gerr, c2) = guard E p c1 in
           case gerr of
             Some _ \<Rightarrow> (Some CircuitErrCircuitOpen, c2)
           | None \<Rightarrow>
               (let (err, c3) = obj_Delete E p key c2
                in (err, if err \<noteq> None then record_metric (RecordError i ''delete'' 500) c3 else c3))))"

definition CacheService_Delete ::
  "'w env \<Rightarrow> cache_service \<Rightarrow> string \<Rightarrow> delete_options option \<Rightarrow> ('w, 'z) cs_ctx_scheme \<Rightarrow>
   go_error option \<times> ('w, 'z) cs_ctx_scheme" where
  "CacheService_Delete E cs key opts0 c =
     (let (start, c0) = time_Now E c;
          hint = (case opts0 of None \<Rightarrow> '''' | Some opts \<Rightarrow> do_RoutingHint opts);
          (err, c1) = delete_body E cs key hint c0
      in (err, record_latency E ''delete'' start c1))"

definition InvalidateLocal :: "'w env \<Rightarrow> cache_service \<Rightarrow> string \<Rightarrow> ('w, 'z) cs_ctx_scheme \<Rightarrow> ('w, 'z) cs_ctx_scheme" where
  "InvalidateLocal E cs key c = delete_local E cs key c"

section \<open>The write-behind worker\<close>

text \<open>An item that failed goes to sleep for a retry, three times at most; then it is dropped.\<close>

definition retry_later :: "wb_item \<Rightarrow> ('w, 'z) cs_ctx_scheme \<Rightarrow> ('w, 'z) cs_ctx_scheme" where
  "retry_later item c =
     (if wb_retry item < 3
      then c\<lparr>sleeping := sleeping c @ [item\<lparr>wb_retry := wb_retry item + 1\<rparr>]\<rparr> else c)"

definition processWriteBehindItem ::
  "'w env \<Rightarrow> cache_service \<Rightarrow> wb_item \<Rightarrow> ('w, 'z) cs_ctx_scheme \<Rightarrow> ('w, 'z) cs_ctx_scheme" where
  "processWriteBehindItem E cs item c =
     (let (target, c1) = route_write E cs (entry_Key (wb_entry item)) '''' c in
      case target of
        Inl _ \<Rightarrow> retry_later item c1
      | Inr p \<Rightarrow>
          (let (err, c2) = obj_Set E p (wb_entry item) c1
           in if err \<noteq> None then retry_later item c2 else c2))"

fun processWriteBehindBatch ::
  "'w env \<Rightarrow> cache_service \<Rightarrow> wb_item list \<Rightarrow> ('w, 'z) cs_ctx_scheme \<Rightarrow> ('w, 'z) cs_ctx_scheme" where
  "processWriteBehindBatch E cs [] c = c"
| "processWriteBehindBatch E cs (item # items) c =
     processWriteBehindBatch E cs items (processWriteBehindItem E cs item c)"

text \<open>The three cases of the worker's \<open>select\<close>, each enabled when its channel is ready.\<close>

definition worker_take :: "'w env \<Rightarrow> cache_service \<Rightarrow> ('w, 'z) cs_ctx_scheme \<Rightarrow> ('w, 'z) cs_ctx_scheme" where
  "worker_take E cs c =
     (case queue c of
        [] \<Rightarrow> c
      | item # items \<Rightarrow>
          (let c1 = c\<lparr>queue := items, batch := batch c @ [item]\<rparr> in
           if 100 \<le> length (batch c1) then processWriteBehindBatch E cs (batch c1) (c1\<lparr>batch := []\<rparr>) else c1))"

definition worker_tick :: "'w env \<Rightarrow> cache_service \<Rightarrow> ('w, 'z) cs_ctx_scheme \<Rightarrow> ('w, 'z) cs_ctx_scheme" where
  "worker_tick E cs c =
     (if batch c \<noteq> [] then processWriteBehindBatch E cs (batch c) (c\<lparr>batch := []\<rparr>) else c)"

definition worker_stop :: "'w env \<Rightarrow> cache_service \<Rightarrow> ('w, 'z) cs_ctx_scheme \<Rightarrow> ('w, 'z) cs_ctx_scheme" where
  "worker_stop E cs c =
     (let items = batch c @ queue c
      in processWriteBehindBatch E cs items (c\<lparr>queue := [], batch := [], stopped := True\<rparr>))"

text \<open>
  \<open>Close\<close> closes \<open>stopChan\<close> and waits for the worker, which then takes the first case.
\<close>

definition CacheService_Close :: "'w env \<Rightarrow> cache_service \<Rightarrow> ('w, 'z) cs_ctx_scheme \<Rightarrow> ('w, 'z) cs_ctx_scheme" where
  "CacheService_Close E cs c = worker_stop E cs c"

text \<open>Other goroutines: a sleeper wakes and sends its item, a started local write runs.\<close>

definition remove_nth :: "nat \<Rightarrow> 'a list \<Rightarrow> 'a list" where
  "remove_nth n xs = take n xs @ drop (Suc n) xs"

definition wake :: "nat \<Rightarrow> ('w, 'z) cs_ctx_scheme \<Rightarrow> ('w, 'z) cs_ctx_scheme" where
  "wake n c =
     (if n < length (sleeping c) \<and> length (queue c) < queue_capacity
      then c\<lparr>queue := queue c @ [sleeping c ! n], sleeping := remove_nth n (sleeping c)\<rparr> else c)"

definition run_local_set :: "'w env \<Rightarrow> cache_service \<Rightarrow> nat \<Rightarrow> ('w, 'z) cs_ctx_scheme \<Rightarrow> ('w, 'z) cs_ctx_scheme" where
  "run_local_set E cs n c =
     (if n < length (local_sets c)
      then write_local E cs (local_sets c ! n) (c\<lparr>local_sets := remove_nth n (local_sets c)\<rparr>) else c)"

section \<open>What every operation leaves alone\<close>

text \<open>
  No operation of the service changes the identity or the health flag of an object, and none
  opens a breaker: the breakers are only ever asked to run a function that does nothing.
\<close>

definition quiet :: "('w, 'z) cs_ctx_scheme \<Rightarrow> ('w, 'z) cs_ctx_scheme \<Rightarrow> bool" where
  "quiet c c' \<longleftrightarrow>
     (\<forall>p. Backend_ident (heap c' p) = Backend_ident (heap c p) \<and>
          Backend_Healthy (heap c' p) = Backend_Healthy (heap c p)) \<and>
     (all_closed (breakers c) \<longrightarrow> all_closed (breakers c'))"

lemma quiet_refl [simp]: "quiet c c"
  by (simp add: quiet_def)

lemma quiet_trans: "quiet c c' \<Longrightarrow> quiet c' c'' \<Longrightarrow> quiet c c''"
  by (simp add: quiet_def)

lemma quiet_same [simp]: "heap c' = heap c \<Longrightarrow> breakers c' = breakers c \<Longrightarrow> quiet c c'"
  by (simp add: quiet_def)

lemma record_metric_cs [simp]:
  fixes c :: "('w, 'z) cs_ctx_scheme"
  shows "heap (record_metric f c) = heap c" "breakers (record_metric f c) = breakers c"
    "queue (record_metric f c) = queue c" "batch (record_metric f c) = batch c"
    "sleeping (record_metric f c) = sleeping c" "local_sets (record_metric f c) = local_sets c"
    "stopped (record_metric f c) = stopped c"
  by (simp_all add: record_metric_def)

lemma failed_with_cs [simp]:
  fixes c :: "('w, 'z) cs_ctx_scheme"
  shows "heap (failed_with i op code st c) = heap c" "breakers (failed_with i op code st c) = breakers c"
    "queue (failed_with i op code st c) = queue c" "batch (failed_with i op code st c) = batch c"
    "sleeping (failed_with i op code st c) = sleeping c" "local_sets (failed_with i op code st c) = local_sets c"
    "world (failed_with i op code st c) = world c"
    "stopped (failed_with i op code st c) = stopped c"
  by (simp_all add: failed_with_def)

text \<open>The parts of the context another goroutine reads.\<close>

definition same_work :: "('w, 'z) cs_ctx_scheme \<Rightarrow> ('w, 'z) cs_ctx_scheme \<Rightarrow> bool" where
  "same_work c c' \<longleftrightarrow>
     queue c' = queue c \<and> batch c' = batch c \<and> sleeping c' = sleeping c \<and> local_sets c' = local_sets c \<and>
     stopped c' = stopped c"

lemma same_work_refl [simp]: "same_work c c"
  by (simp add: same_work_def)

lemma same_work_metric [simp]:
  "same_work c c' \<Longrightarrow> same_work c (record_metric f c')" "same_work c c' \<Longrightarrow> same_work c (failed_with i op code st c')"
  by (simp_all add: same_work_def)

lemma same_work_trans: "same_work c c' \<Longrightarrow> same_work c' c'' \<Longrightarrow> same_work c c''"
  by (simp add: same_work_def)

lemma time_Now_cs:
  fixes c c' :: "('w, 'z) cs_ctx_scheme"
  shows "time_Now E c = (t, c') \<Longrightarrow> heap c' = heap c \<and> breakers c' = breakers c \<and> mtr c' = mtr c \<and> same_work c c'"
  by (auto simp: time_Now_def same_work_def split: prod.splits)

lemma time_Since_cs:
  fixes c c' :: "('w, 'z) cs_ctx_scheme"
  shows "time_Since E t0 c = (t, c') \<Longrightarrow> heap c' = heap c \<and> breakers c' = breakers c \<and> mtr c' = mtr c \<and> same_work c c'"
  by (auto simp: time_Since_def dest: time_Now_cs split: prod.splits)

lemma record_latency_cs [simp]:
  "heap (record_latency E op t0 c) = heap c" "breakers (record_latency E op t0 c) = breakers c"
  "same_work c (record_latency E op t0 c)"
  by (auto simp: record_latency_def same_work_def Let_def split: option.splits prod.splits dest!: time_Since_cs)

lemma route_write_cs:
  "route_write E cs key hint c = (r, c') \<Longrightarrow> heap c' = heap c \<and> breakers c' = breakers c \<and> mtr c' = mtr c \<and> same_work c c'"
  by (auto simp: route_write_def same_work_def split: prod.splits)

lemma route_read_cs:
  "route_read E cs key hint c = (r, c') \<Longrightarrow> heap c' = heap c \<and> breakers c' = breakers c \<and> mtr c' = mtr c \<and> same_work c c'"
  by (auto simp: route_read_def same_work_def split: prod.splits)

lemma obj_call_cs:
  fixes c c' :: "('w, 'z) cs_ctx_scheme"
  shows "obj_call op p c = (x, c') \<Longrightarrow>
    breakers c' = breakers c \<and> same_work c c' \<and> mtr c' = mtr c \<and> (\<forall>q. q \<noteq> p \<longrightarrow> heap c' q = heap c q)"
  by (auto simp: obj_call_def same_work_def split: prod.splits)

lemma obj_Get_cs:
  fixes c c' :: "('w, 'z) cs_ctx_scheme"
  shows "obj_Get E p k c = (r, c') \<Longrightarrow>
    quiet c c' \<and> same_work c c' \<and> mtr c' = mtr c \<and> breakers c' = breakers c \<and> (\<forall>q. q \<noteq> p \<longrightarrow> heap c' q = heap c q)"
  using obj_Get_view [of E p k c r c'] obj_call_cs [of "\<lambda>b. Backend_Get E b k" p c r c']
  by (auto simp: obj_Get_def quiet_def same_view_def)

lemma obj_Set_cs:
  fixes c c' :: "('w, 'z) cs_ctx_scheme"
  shows "obj_Set E p e c = (err, c') \<Longrightarrow>
    quiet c c' \<and> same_work c c' \<and> mtr c' = mtr c \<and> breakers c' = breakers c \<and> (\<forall>q. q \<noteq> p \<longrightarrow> heap c' q = heap c q)"
  using obj_Set_view [of E p e c err c'] obj_call_cs [of "\<lambda>b. Backend_Set E b e" p c err c']
  by (auto simp: obj_Set_def quiet_def same_view_def)

lemma obj_Delete_cs:
  fixes c c' :: "('w, 'z) cs_ctx_scheme"
  shows "obj_Delete E p k c = (err, c') \<Longrightarrow>
    quiet c c' \<and> same_work c c' \<and> mtr c' = mtr c \<and> breakers c' = breakers c \<and> (\<forall>q. q \<noteq> p \<longrightarrow> heap c' q = heap c q)"
  using obj_Delete_view [of E p k c err c'] obj_call_cs [of "\<lambda>b. Backend_Delete E b k" p c err c']
  by (auto simp: obj_Delete_def quiet_def same_view_def)

text \<open>\<open>Execute\<close> works on the context only through the clock and the metrics.\<close>

lemma Allow_cs:
  fixes c c' :: "('w, 'z) cs_ctx_scheme"
  assumes "Allow E b c = (ok, b', c')"
  shows "heap c' = heap c \<and> breakers c' = breakers c \<and> same_work c c'"
proof -
  have "heap c' = heap c \<and> breakers c' = breakers c \<and> same_work c c'" if "setState E st cb c = (cb', c')"
    for st cb cb' and c c' :: "('w, 'z) cs_ctx_scheme"
    using that by (auto simp: setState_def Let_def same_work_def dest!: time_Now_cs split: prod.splits if_splits)
  note st = this
  show ?thesis
    using assms
    by (auto simp: Allow_def Let_def same_work_def dest!: time_Since_cs st
        split: option.splits cb_state.splits prod.splits if_splits)
qed

lemma RecordSuccess_cs:
  fixes c c' :: "('w, 'z) cs_ctx_scheme"
  assumes "RecordSuccess E b c = (b', c')"
  shows "heap c' = heap c \<and> breakers c' = breakers c \<and> same_work c c'"
proof -
  have st: "heap c' = heap c \<and> breakers c' = breakers c \<and> same_work c c'" if "setState E st cb c = (cb', c')"
    for st cb cb' and c c' :: "('w, 'z) cs_ctx_scheme"
    using that by (auto simp: setState_def Let_def same_work_def dest!: time_Now_cs split: prod.splits if_splits)
  show ?thesis
    using assms
    by (auto simp: RecordSuccess_def Let_def dest!: st split: option.splits cb_state.splits prod.splits if_splits)
qed

lemma guard_cs:
  fixes c c' :: "('w, 'z) cs_ctx_scheme"
  assumes "guard E p c = (r, c')"
  shows "heap c' = heap c \<and> same_work c c'"
  using assms
  by (auto simp: guard_def Execute_def GetOrCreate_nil same_work_def
      dest!: Allow_cs RecordSuccess_cs split: prod.splits if_splits)

lemma guard_closed:
  assumes "all_closed (breakers c)"
  shows "\<exists>m. guard E p c = (None, c\<lparr>breakers := m\<rparr>) \<and> all_closed m"
  using circuit_gate.nil_call [OF assms, of E "obj_ID (heap c) p" c] by (auto simp: guard_def)

lemma guard_quiet:
  assumes "all_closed (breakers c)" "guard E p c = (r, c')"
  shows "r = None \<and> quiet c c' \<and> same_work c c' \<and> heap c' = heap c \<and> mtr c' = mtr c \<and> world c' = world c"
  using guard_closed [OF assms(1), of E p] assms(2) by (auto simp: quiet_def same_work_def)

end
