(* ===== verification/Cache_Properties.thy ===== *)
theory Cache_Properties
  imports Cache_Service Samples
begin

text \<open>
  What the cache service promises: what a read answers in terms of the backends it asks,
  what a write leaves where, that the breakers stay closed, and what the write-behind
  worker does with the writes it accepted.
\<close>

section \<open>Reads\<close>

text \<open>
  The reference: the answers of the backends of a list, asked in turn, and the answer of the
  read. The first entry found decides; without one the last error that is not a missing key
  is reported, and a missing key only if there is no such error.
\<close>

fun answers :: "'w env \<Rightarrow> string \<Rightarrow> bref list \<Rightarrow> (bref \<Rightarrow> backend) \<Rightarrow> 'w \<Rightarrow> (go_error + entry) list" where
  "answers E key [] h w = []"
| "answers E key (p # ps) h w = (let (r, b, w') = Backend_Get E (h p) key w in r # answers E key ps (h(p := b)) w')"

fun resolve :: "cache_service \<Rightarrow> get_options \<Rightarrow> go_error option \<Rightarrow> (go_error + entry) list \<Rightarrow> go_error + entry" where
  "resolve cs opts lastErr [] = Inl (case lastErr of None \<Rightarrow> ErrKeyNotFound | Some err \<Rightarrow> err)"
| "resolve cs opts lastErr (Inr e # rs) = (if stale_version cs opts e then Inl ErrVersionMismatch else Inr e)"
| "resolve cs opts lastErr (Inl err # rs) =
     resolve cs opts (if err = ErrKeyNotFound then lastErr else Some err) rs"

lemma get_backends_resolve:
  "all_closed (breakers c) \<Longrightarrow>
   fst (get_backends E cs key opts ps lastErr c) = resolve cs opts lastErr (answers E key ps (heap c) (world c))"
proof (induction ps arbitrary: lastErr c)
  case Nil
  then show ?case by (simp split: option.splits)
next
  case (Cons p ps)
  obtain m where g: "guard E p c = (None, c\<lparr>breakers := m\<rparr>)" "all_closed m"
    using guard_closed [OF Cons.prems] by blast
  obtain r b w' where b: "Backend_Get E (heap c p) key (world c) = (r, b, w')" by (metis prod_cases3)
  let ?c2 = "c\<lparr>breakers := m, world := w', heap := (heap c)(p := b)\<rparr>"
  have o: "obj_Get E p key (c\<lparr>breakers := m\<rparr>) = (r, ?c2)"
    using b by (simp add: obj_Get_def obj_call_def)
  have IH: "fst (get_backends E cs key opts ps l (record_metric f ?c2)) =
      resolve cs opts l (answers E key ps ((heap c)(p := b)) w')" for l f
    using Cons.IH [of "record_metric f ?c2" l] g(2) by (simp add: fun_upd_def)
  show ?case
    using g(1) o b IH by (cases r) (simp_all add: Let_def fun_upd_def)
qed

lemma get_resolves:
  assumes "all_closed (breakers c)" "time_Now E c = (t, c0)"
    "get_local E cs key (get_or_zero o0) c0 = (None, n, c1)"
    "route_read E cs key (go_RoutingHint (get_or_zero o0)) (record_metric (RecordMiss ''local'') c1) = (ps, c2)"
  shows "fst (CacheService_Get E cs key o0 c) =
    (if ps = [] then Inl ErrBackendUnhealthy
     else resolve cs (get_or_zero o0) None (answers E key ps (heap c2) (world c2)))"
proof -
  have "breakers c1 = breakers c0"
    using assms(3) by (auto simp: get_local_def Let_def dest!: obj_Get_cs split: option.splits if_splits prod.splits sum.splits)
  then have closed: "all_closed (breakers c2)"
    using assms(1) time_Now_cs [OF assms(2)] route_read_cs [OF assms(4)] by simp
  obtain r n3 c3 where g: "get_backends E cs key (get_or_zero o0) ps None c2 = (r, n3, c3)" by (metis prod_cases3)
  with get_backends_resolve [OF closed, of E cs key "get_or_zero o0" ps None]
  have "r = resolve cs (get_or_zero o0) None (answers E key ps (heap c2) (world c2))" by simp
  with assms(2-4) g show ?thesis by (simp add: CacheService_Get_def get_body_def Let_def)
qed

lemma resolve_not_found:
  "resolve cs opts lastErr rs = Inl ErrKeyNotFound \<longleftrightarrow>
   (\<forall>r \<in> set rs. r = Inl ErrKeyNotFound) \<and> (lastErr = None \<or> lastErr = Some ErrKeyNotFound)"
proof (induction rs arbitrary: lastErr)
  case Nil
  then show ?case by (cases lastErr) auto
next
  case (Cons r rs)
  then show ?case by (cases r) auto
qed

text \<open>
  C6: a read that the local cache does not answer gives what the reference makes of the
  answers of the live backends, asked in the router's order; with no live backend it is
  \<open>ErrBackendUnhealthy\<close>. It reports a missing key only when every live backend said that
  the key is missing: an error of one backend is never taken for a missing key.
\<close>

theorem read_refines_resolve:
  assumes "all_closed (breakers c)" "time_Now E c = (t, c0)"
    "get_local E cs key (get_or_zero o0) c0 = (None, n, c1)"
    "route_read E cs key (go_RoutingHint (get_or_zero o0)) (record_metric (RecordMiss ''local'') c1) = (ps, c2)"
  shows "fst (CacheService_Get E cs key o0 c) =
      (if ps = [] then Inl ErrBackendUnhealthy
       else resolve cs (get_or_zero o0) None (answers E key ps (heap c2) (world c2))) \<and>
    (fst (CacheService_Get E cs key o0 c) = Inl ErrKeyNotFound \<longleftrightarrow>
      ps \<noteq> [] \<and> (\<forall>r \<in> set (answers E key ps (heap c2) (world c2)). r = Inl ErrKeyNotFound))"
  using get_resolves [OF assms] by (simp add: resolve_not_found)

definition sample_service :: "bref option \<Rightarrow> cache_service" where
  "sample_service local =
     CacheService_New
       \<lparr>cc_DefaultMode = ReadWriteModeCacheAside, cc_DefaultTTL = '''', cc_MaxValueSize = 4,
        cc_EnableVersioning = True\<rparr> sample_router local"

definition sample_cs_ctx :: "sim cs_ctx" where
  "sample_cs_ctx =
     \<lparr>world = sim0, mtr = Some initMetrics, heap = sample_heap, breakers = Map.empty, queue = [], batch = [],
      sleeping = [], local_sets = [], stopped = False\<rparr>"

lemma sample_service_simps [simp]:
  "cs_router (sample_service local) = sample_router" "cs_localCache (sample_service local) = local"
  "cs_maxValueSize (sample_service local) = 4" "cs_enableVersioning (sample_service local)"
  "cs_mode (sample_service local) = ReadWriteModeCacheAside"
  by (simp_all add: sample_service_def CacheService_New_def)

lemma sample_cs_ctx_simps [simp]:
  "world sample_cs_ctx = sim0" "heap sample_cs_ctx = sample_heap" "breakers sample_cs_ctx = Map.empty"
  "queue sample_cs_ctx = []" "batch sample_cs_ctx = []" "sleeping sample_cs_ctx = []" "local_sets sample_cs_ctx = []"
  by (simp_all add: sample_cs_ctx_def)

lemma all_closed_empty [simp]: "all_closed Map.empty"
  by (simp add: all_closed_def)

lemma sample_get_miss:
  assumes "p \<in> {0, 1, 2}" "sim_cache w = (\<lambda>_ _. [])"
  shows "Backend_Get sim_env (sample_heap p) k w = (Inl ErrKeyNotFound, sample_heap p, w)"
  using assms
  by (auto simp: Backend_Get_def sample_heap_def sample_object_def on_object_def Memory_Get_def)

lemma sample_answers:
  assumes "set ps \<subseteq> {0, 1, 2}" "sim_cache w = (\<lambda>_ _. [])"
  shows "set (answers sim_env k ps sample_heap w) \<subseteq> {Inl ErrKeyNotFound}"
  using assms by (induction ps) (simp_all add: sample_get_miss)

lemma sample_reads:
  "GetBackendsForRead xx sample_heap sample_router [''local'', ''redis-master'', ''http-service''] ''user:profile:7'' [] =
     [1, 0, 2]"
proof -
  have "router_ok sample_heap sample_router" using sample_table by simp
  then show ?thesis
    by (simp add: GetBackendsForRead_list candidates_def sample_profile_rule sample_live)
qed

lemma read_refines_resolve_witness:
  "fst (CacheService_Get sim_env (sample_service None) ''user:profile:7'' None sample_cs_ctx) = Inl ErrKeyNotFound"
proof -
  let ?c0 = "sample_cs_ctx\<lparr>world := sim0\<lparr>sim_clock := Millisecond\<rparr>\<rparr>"
  let ?c2 = "record_metric (RecordMiss ''local'') ?c0"
  have t: "time_Now sim_env sample_cs_ctx = (0, ?c0)" by (simp add: time_Now_def) (simp add: sim0_def)
  have l: "get_local sim_env (sample_service None) ''user:profile:7'' (get_or_zero None) ?c0 = (None, 0, ?c0)"
    by (simp add: get_local_def)
  have r: "route_read sim_env (sample_service None) ''user:profile:7'' (go_RoutingHint (get_or_zero None)) ?c2 = ([1, 0, 2], ?c2)"
    using sample_reads by (simp add: route_read_def get_or_zero_def zero_get_options_def record_metric_def)
  have "\<forall>r \<in> set (answers sim_env ''user:profile:7'' [1, 0, 2] (heap ?c2) (world ?c2)). r = Inl ErrKeyNotFound"
    using sample_answers [of "[1, 0, 2]" "sim0\<lparr>sim_clock := Millisecond\<rparr>" "''user:profile:7''"]
    by (auto simp: sim0_def simp del: answers.simps)
  with read_refines_resolve [OF _ t l r, THEN conjunct2] show ?thesis by (simp del: answers.simps)
qed

lemma get_entry_facts:
  assumes "CacheService_Get E cs key o0 c = (Inr e, c')"
  shows "entry_Key e = key \<and> \<not> stale_version cs (get_or_zero o0) e \<and> entry_TTL e = 0"
proof -
  have backends: "entry_Key e = key \<and> \<not> stale_version cs opts e \<and> entry_TTL e = 0"
    if "get_backends E cs key opts ps lastErr c1 = (Inr e, n, c2)" for opts ps lastErr n and c1 c2 :: "('a, 'b) cs_ctx_scheme"
    using that
  proof (induction E cs key opts ps lastErr c1 rule: get_backends.induct)
    case (1 E cs key opts lastErr c)
    then show ?case by (auto split: option.splits)
  next
    case (2 E cs key opts p ps lastErr c)
    obtain g c1 where g: "guard E p c = (g, c1)" by fastforce
    obtain r c2' where o: "obj_Get E p key c1 = (r, c2')" by fastforce
    show ?case
    proof (cases g)
      case None
      with 2 g o show ?thesis
        by (cases r) (auto simp: Let_def dest: obj_Get_entry split: if_splits)
    next
      case (Some err)
      with 2 g show ?thesis by (simp add: Let_def)
    qed
  qed
  have local: "entry_Key e = key \<and> \<not> stale_version cs opts e \<and> entry_TTL e = 0"
    if "get_local E cs key opts c1 = (Some (Inr e), n, c2)" for opts n and c1 c2 :: "('a, 'b) cs_ctx_scheme"
    using that
    by (auto simp: get_local_def Let_def dest!: obj_Get_entry split: prod.splits option.splits sum.splits if_splits)
  show ?thesis
    using assms
    by (auto simp: CacheService_Get_def get_body_def Let_def dest!: backends local
        split: prod.splits option.splits if_splits)
qed

text \<open>
  An entry a read returns is for the key that was asked, carries the version the caller
  insisted on (when versioning is on and a version was given), and never a TTL: the
  remaining lifetime is lost on every path.
\<close>

theorem get_returns_asked_key:
  assumes "CacheService_Get E cs key o0 c = (Inr e, c')"
  shows "entry_Key e = key \<and> \<not> stale_version cs (get_or_zero o0) e \<and> entry_TTL e = 0"
  by (rule get_entry_facts [OF assms])

lemma get_returns_asked_key_witness:
  "\<exists>e c'. CacheService_Get sim_env (sample_service (Some 0)) ''k'' (Some (zero_get_options\<lparr>go_Version := 0\<rparr>))
      (sample_cs_ctx\<lparr>world := sim0\<lparr>sim_cache := (\<lambda>_. (\<lambda>_. [])(''k'' := [AnyBytes [7]]))\<rparr>\<rparr>) = (Inr e, c') \<and> entry_Key e = ''k''"
proof -
  let ?c = "sample_cs_ctx\<lparr>world := sim0\<lparr>sim_cache := (\<lambda>_. (\<lambda>_. [])(''k'' := [AnyBytes [7]]))\<rparr>\<rparr>"
  let ?get = "CacheService_Get sim_env (sample_service (Some 0)) ''k'' (Some (zero_get_options\<lparr>go_Version := 0\<rparr>)) ?c"
  have "\<exists>e. fst ?get = Inr e"
    by (simp add: CacheService_Get_def get_body_def get_local_def time_Now_def Let_def get_or_zero_def
        zero_get_options_def obj_Get_def obj_call_def Backend_Get_def on_object_def Memory_Get_def sample_heap_def
        sample_object_def stale_version_def)
  then obtain e c' where "?get = (Inr e, c')" by (metis prod.collapse)
  with get_returns_asked_key [OF this] show ?thesis by blast
qed

section \<open>The breakers stay closed\<close>

text \<open>One operation of the service or of its goroutines, whatever they are asked.\<close>

inductive service_step ::
  "'w env \<Rightarrow> cache_service \<Rightarrow> ('w, 'z) cs_ctx_scheme \<Rightarrow> ('w, 'z) cs_ctx_scheme \<Rightarrow> bool"
  for E :: "'w env" and cs :: cache_service
where
  did_get: "CacheService_Get E cs key o0 c = (r, c') \<Longrightarrow> service_step E cs c c'"
| did_set: "CacheService_Set E cs e o1 c = (err, c') \<Longrightarrow> service_step E cs c c'"
| did_delete: "CacheService_Delete E cs key o2 c = (err, c') \<Longrightarrow> service_step E cs c c'"
| invalidated: "service_step E cs c (InvalidateLocal E cs key c)"
| took: "\<not> stopped c \<Longrightarrow> service_step E cs c (worker_take E cs c)"
| ticked: "\<not> stopped c \<Longrightarrow> service_step E cs c (worker_tick E cs c)"
| closed: "\<not> stopped c \<Longrightarrow> service_step E cs c (CacheService_Close E cs c)"
| woke: "service_step E cs c (wake n c)"
| ran: "service_step E cs c (run_local_set E cs n c)"

lemma quiet_metric: "quiet c c' \<Longrightarrow> quiet c (record_metric f c')"
  by (simp add: quiet_def)

lemma quiet_failed: "quiet c c' \<Longrightarrow> quiet c (failed_with i op code st c')"
  by (simp add: quiet_def)

lemma quiet_spawn: "quiet c c' \<Longrightarrow> quiet c (spawn_local_set e c')"
  by (simp add: quiet_def spawn_local_set_def)

lemma quiet_queue: "quiet c c' \<Longrightarrow> quiet c (c'\<lparr>queue := q\<rparr>)"
  by (simp add: quiet_def)

lemma quiet_latency: "quiet c c' \<Longrightarrow> quiet c (record_latency E op t c')"
  by (simp add: quiet_def)

lemma get_local_quiet: "get_local E cs key opts c = (r, n, c') \<Longrightarrow> quiet c c'"
  by (auto simp: get_local_def Let_def quiet_metric dest!: obj_Get_cs split: option.splits if_splits prod.splits sum.splits)

lemma get_backends_quiet:
  "all_closed (breakers c) \<Longrightarrow> get_backends E cs key opts ps lastErr c = (r, n, c') \<Longrightarrow> quiet c c'"
proof (induction ps arbitrary: lastErr c)
  case Nil
  then show ?case by (auto simp: quiet_metric split: option.splits)
next
  case (Cons p ps)
  obtain c1 where g: "guard E p c = (None, c1)" and q1: "quiet c c1" "all_closed (breakers c1)"
    using guard_closed [OF Cons.prems(1), of E p] by (auto simp: quiet_def)
  obtain x c2 where o: "obj_Get E p key c1 = (x, c2)" by fastforce
  have q2: "quiet c c2" "all_closed (breakers c2)"
    using obj_Get_cs [OF o] q1 quiet_trans by (auto simp: quiet_def)
  have rest: "quiet c c'" if "get_backends E cs key opts ps l (record_metric f c2) = (r, n, c')" for l f
    using Cons.IH [OF _ that] q2 quiet_trans [of c c2 c'] by (simp add: quiet_def)
  show ?case
  proof (cases x)
    case (Inl err)
    with Cons.prems(2) g o rest show ?thesis by (auto simp: Let_def split: if_splits)
  next
    case (Inr e)
    have "quiet c (spawn_local_set e c3)" if "quiet c c3" for c3
      using that by (simp add: quiet_def spawn_local_set_def)
    with Inr Cons.prems(2) g o q2(1) show ?thesis by (auto simp: Let_def quiet_metric split: if_splits)
  qed
qed

lemma get_quiet:
  assumes "all_closed (breakers c)" "CacheService_Get E cs key o0 c = (r, c')"
  shows "quiet c c'"
proof -
  obtain t c0 where t: "time_Now E c = (t, c0)" by fastforce
  have q0: "quiet c c0" "all_closed (breakers c0)" using time_Now_cs [OF t] assms(1) by simp_all
  obtain found n c1 where l: "get_local E cs key (get_or_zero o0) c0 = (found, n, c1)" by (metis prod_cases3)
  have q1: "quiet c c1" "all_closed (breakers c1)"
    using get_local_quiet [OF l] q0 quiet_trans by (auto simp: quiet_def)
  let ?c1 = "record_metric (RecordMiss ''local'') c1"
  obtain ps c2 where r: "route_read E cs key (go_RoutingHint (get_or_zero o0)) ?c1 = (ps, c2)" by fastforce
  have q2: "quiet c c2" "all_closed (breakers c2)"
    using route_read_cs [OF r] q1 by (simp_all add: quiet_def)
  obtain r3 n3 c3 where b: "get_backends E cs key (get_or_zero o0) ps None c2 = (r3, n3, c3)" by (metis prod_cases3)
  have q3: "quiet c c3" using get_backends_quiet [OF q2(2) b] q2(1) quiet_trans by blast
  have out: "quiet c (record_latency E op s (record_metric f d))" if "quiet c d" for op s f d
    using that by (simp add: quiet_def)
  show ?thesis
    using assms(2) t l r b q1 q2 q3 by (auto simp: CacheService_Get_def get_body_def Let_def intro!: out quiet_metric split: option.splits if_splits)
qed

text \<open>No backend answers with the breakers' error.\<close>

lemma Backend_no_circuit_error:
  "Backend_Get E b k w = (Inl err, b', w') \<Longrightarrow> err \<noteq> CircuitErrCircuitOpen"
  "Backend_Set E b e w = (Some err, b', w') \<Longrightarrow> err \<noteq> CircuitErrCircuitOpen"
  "Backend_Delete E b k w = (Some err, b', w') \<Longrightarrow> err \<noteq> CircuitErrCircuitOpen"
  by (cases b; auto simp: dispatch_defs memory_defs redis_defs http_defs grpc_defs Let_def
      split: prod.splits option.splits sum.splits any_value.splits if_splits)+

lemma obj_no_circuit_error:
  "obj_Get E p k c = (Inl err, c') \<Longrightarrow> err \<noteq> CircuitErrCircuitOpen"
  "obj_Set E p e c = (Some err, c') \<Longrightarrow> err \<noteq> CircuitErrCircuitOpen"
  "obj_Delete E p k c = (Some err, c') \<Longrightarrow> err \<noteq> CircuitErrCircuitOpen"
  by (auto simp: obj_Get_def obj_Set_def obj_Delete_def obj_call_def dest: Backend_no_circuit_error split: prod.splits)

lemma route_write_error: "route_write E cs key hint c = (Inl err, c') \<Longrightarrow> err = ErrBackendUnhealthy"
  by (auto simp: route_write_def GetBackend_candidates getFallbackBackend_def split: prod.splits option.splits)

lemma write_backend_calm:
  assumes "all_closed (breakers c)" "write_backend E cs e opts c = (r, c')"
  shows "quiet c c' \<and> same_work c c' \<and> r \<noteq> Inl CircuitErrCircuitOpen"
proof -
  obtain target c1 where t: "route_write E cs (entry_Key e) (so_RoutingHint opts) c = (target, c1)" by fastforce
  have q1: "quiet c c1" "same_work c c1" "all_closed (breakers c1)" using route_write_cs [OF t] assms(1) by simp_all
  show ?thesis
  proof (cases target)
    case (Inl err)
    then have "err = ErrBackendUnhealthy" using t route_write_error by blast
    with Inl assms(2) t q1 show ?thesis by (auto simp: write_backend_def quiet_failed)
  next
    case (Inr p)
    obtain c2 where g: "guard E p c1 = (None, c2)" using guard_closed [OF q1(3), of E p] by blast
    have q2: "quiet c c2" "same_work c c2" using guard_quiet [OF q1(3) g] q1 quiet_trans same_work_trans by blast+
    obtain err c3 where o: "obj_Set E p e c2 = (err, c3)" by fastforce
    have q3: "quiet c c3" "same_work c c3" using obj_Set_cs [OF o] q2 quiet_trans same_work_trans by blast+
    with Inr assms(2) t g o obj_no_circuit_error(2) [of E p e c2 _ c3] show ?thesis
      by (auto simp: write_backend_def Let_def quiet_failed split: option.splits)
  qed
qed

lemma write_local_quiet: "quiet c (write_local E cs e c) \<and> same_work c (write_local E cs e c)"
proof (cases "cs_localCache cs")
  case (Some p)
  obtain err c' where "obj_Set E p e c = (err, c')" by fastforce
  with Some obj_Set_cs show ?thesis by (fastforce simp: write_local_def)
qed (simp add: write_local_def)

lemma delete_local_quiet: "quiet c (delete_local E cs key c) \<and> same_work c (delete_local E cs key c)"
proof (cases "cs_localCache cs")
  case (Some p)
  obtain err c' where "obj_Delete E p key c = (err, c')" by fastforce
  with Some obj_Delete_cs show ?thesis by (fastforce simp: delete_local_def)
qed (simp add: delete_local_def)

lemma quiet_closed: "quiet c c' \<Longrightarrow> all_closed (breakers c) \<Longrightarrow> all_closed (breakers c')"
  by (simp add: quiet_def)

lemma setWriteThrough_calm:
  assumes "all_closed (breakers c)" "setWriteThrough E cs e opts c = (err, c')"
  shows "quiet c c' \<and> err \<noteq> Some CircuitErrCircuitOpen"
proof -
  obtain r c1 where w: "write_backend E cs e opts c = (r, c1)" by fastforce
  from write_backend_calm [OF assms(1) w] assms(2) w show ?thesis
    by (auto simp: setWriteThrough_def quiet_metric quiet_spawn split: sum.splits)
qed

lemma setCacheAside_calm:
  assumes "all_closed (breakers c)" "setCacheAside E cs e opts c = (err, c')"
  shows "quiet c c' \<and> err \<noteq> Some CircuitErrCircuitOpen"
proof -
  obtain r c1 where w: "write_backend E cs e opts (write_local E cs e c) = (r, c1)" by fastforce
  have q: "quiet c (write_local E cs e c)" using write_local_quiet by blast
  from write_backend_calm [OF quiet_closed [OF q assms(1)] w] assms(2) w q show ?thesis
    by (auto simp: setCacheAside_def quiet_metric split: sum.splits intro: quiet_trans [OF q] quiet_metric)
qed

lemma setWriteBehind_calm:
  assumes "all_closed (breakers c)" "setWriteBehind E cs e opts c = (err, c')"
  shows "quiet c c' \<and> err \<noteq> Some CircuitErrCircuitOpen"
proof -
  let ?c1 = "write_local E cs e c"
  have q: "quiet c ?c1" using write_local_quiet by blast
  show ?thesis
  proof (cases "length (queue ?c1) < queue_capacity")
    case True
    with assms(2) q show ?thesis by (auto simp: setWriteBehind_def Let_def quiet_metric quiet_queue)
  next
    case False
    with assms(2) have "setWriteThrough E cs e opts ?c1 = (err, c')" by (simp add: setWriteBehind_def Let_def)
    from setWriteThrough_calm [OF quiet_closed [OF q assms(1)] this] q quiet_trans show ?thesis by blast
  qed
qed

lemma setPassthrough_calm:
  assumes "all_closed (breakers c)" "setPassthrough E cs e opts c = (err, c')"
  shows "quiet c c' \<and> same_work c c' \<and> err \<noteq> Some CircuitErrCircuitOpen"
proof -
  obtain target c1 where t: "route_write E cs (entry_Key e) (so_RoutingHint opts) c = (target, c1)" by fastforce
  have q1: "quiet c c1" "same_work c c1" "all_closed (breakers c1)" using route_write_cs [OF t] assms(1) by simp_all
  show ?thesis
  proof (cases target)
    case (Inl err')
    then have "err' = ErrBackendUnhealthy" using t route_write_error by blast
    with Inl assms(2) t q1 show ?thesis by (auto simp: setPassthrough_def quiet_metric)
  next
    case (Inr p)
    obtain c2 where g: "guard E p c1 = (None, c2)" using guard_closed [OF q1(3), of E p] by blast
    have q2: "quiet c c2" "same_work c c2" using guard_quiet [OF q1(3) g] q1 quiet_trans same_work_trans by blast+
    obtain err1 c3 where o: "obj_Set E p e c2 = (err1, c3)" by fastforce
    have q3: "quiet c c3" "same_work c c3" using obj_Set_cs [OF o] q2 quiet_trans same_work_trans by blast+
    with Inr assms(2) t g o obj_no_circuit_error(2) [of E p e c2 _ c3] show ?thesis
      by (auto simp: setPassthrough_def Let_def quiet_metric split: if_splits)
  qed
qed

lemma set_conflict_calm:
  "set_conflict E cs e opts c = (b, c') \<Longrightarrow> quiet c c' \<and> same_work c c'"
  by (auto simp: set_conflict_def dest!: obj_Get_cs split: if_splits option.splits prod.splits sum.splits)

lemma set_calm:
  assumes "all_closed (breakers c)" "CacheService_Set E cs e o1 c = (err, c')"
  shows "quiet c c' \<and> err \<noteq> Some CircuitErrCircuitOpen"
proof -
  let ?opts = "set_or_zero o1"
  obtain t c0 where t: "time_Now E c = (t, c0)" by fastforce
  let ?c0 = "record_metric (RecordValueSize ''cache'' ''set'' (value_size e)) c0"
  have q0: "quiet c ?c0" "all_closed (breakers ?c0)" using time_Now_cs [OF t] assms(1) by simp_all
  obtain err1 c1 where b: "set_body E cs e ?opts ?c0 = (err1, c1)" by fastforce
  obtain conflict c2 where k: "set_conflict E cs e ?opts ?c0 = (conflict, c2)" by fastforce
  have q2: "quiet ?c0 c2" "all_closed (breakers c2)" using set_conflict_calm [OF k] q0(2) by (auto simp: quiet_def)
  have "quiet ?c0 c1 \<and> err1 \<noteq> Some CircuitErrCircuitOpen"
  proof (cases "cs_maxValueSize cs < value_size e")
    case True
    with b have "setPassthrough E cs e ?opts ?c0 = (err1, c1)" by (simp add: set_body_def)
    from setPassthrough_calm [OF q0(2) this] show ?thesis by blast
  next
    case small: False
    show ?thesis
    proof (cases conflict)
      case True
      with small b k q2(1) show ?thesis by (auto simp: set_body_def quiet_failed)
    next
      case False
      let ?e = "e\<lparr>entry_TTL := getTTL (cs_defaultTTL cs) [entry_TTL e, so_TTL ?opts]\<rparr>"
      from False small b k have "setWriteThrough E cs ?e ?opts c2 = (err1, c1) \<or>
          setWriteBehind E cs ?e ?opts c2 = (err1, c1) \<or> setCacheAside E cs ?e ?opts c2 = (err1, c1)"
        by (simp add: set_body_def Let_def del: getTTL.simps split: ReadWriteMode.splits)
      then have "quiet c2 c1 \<and> err1 \<noteq> Some CircuitErrCircuitOpen"
        using setWriteThrough_calm [OF q2(2)] setWriteBehind_calm [OF q2(2)] setCacheAside_calm [OF q2(2)] by blast
      then show ?thesis using q2(1) quiet_trans by blast
    qed
  qed
  then have "quiet c c1 \<and> err1 \<noteq> Some CircuitErrCircuitOpen" using q0(1) quiet_trans by blast
  then show ?thesis using assms(2) t b by (auto simp: CacheService_Set_def Let_def quiet_latency)
qed

lemma delete_calm:
  assumes "all_closed (breakers c)" "CacheService_Delete E cs key o2 c = (err, c')"
  shows "quiet c c' \<and> err \<noteq> Some CircuitErrCircuitOpen"
proof -
  let ?hint = "case o2 of None \<Rightarrow> '''' | Some opts \<Rightarrow> do_RoutingHint opts"
  obtain t c0 where t: "time_Now E c = (t, c0)" by fastforce
  let ?c1 = "delete_local E cs key c0"
  have q1: "quiet c ?c1" using time_Now_cs [OF t] delete_local_quiet [of c0 E cs key] by (simp add: quiet_def)
  obtain target c2 where r: "route_write E cs key ?hint ?c1 = (target, c2)" by fastforce
  have q2: "quiet c c2" "all_closed (breakers c2)" using route_write_cs [OF r] q1 assms(1) by (auto simp: quiet_def)
  obtain err1 c3 where b: "delete_body E cs key ?hint c0 = (err1, c3)" by fastforce
  have "quiet c c3 \<and> err1 \<noteq> Some CircuitErrCircuitOpen"
  proof (cases target)
    case (Inl e)
    then have "e = ErrBackendUnhealthy" using r route_write_error by blast
    with Inl b r q2 show ?thesis by (auto simp: delete_body_def quiet_metric)
  next
    case (Inr p)
    obtain c4 where g: "guard E p c2 = (None, c4)" using guard_closed [OF q2(2), of E p] by blast
    have q4: "quiet c c4" using guard_quiet [OF q2(2) g] q2 quiet_trans by blast
    obtain err2 c5 where o: "obj_Delete E p key c4 = (err2, c5)" by fastforce
    have "quiet c c5" using obj_Delete_cs [OF o] q4 quiet_trans by blast
    with Inr b r g o obj_no_circuit_error(3) [of E p key c4 _ c5] show ?thesis
      by (auto simp: delete_body_def Let_def quiet_metric split: if_splits)
  qed
  then show ?thesis using assms(2) t b by (auto simp: CacheService_Delete_def Let_def quiet_latency)
qed

section \<open>What is waiting\<close>

text \<open>One operation adds at most one write to the queue and starts at most one local write.\<close>

definition grows :: "cache_service \<Rightarrow> ('w, 'z) cs_ctx_scheme \<Rightarrow> ('w, 'z) cs_ctx_scheme \<Rightarrow> bool" where
  "grows cs c c' \<longleftrightarrow>
     batch c' = batch c \<and> sleeping c' = sleeping c \<and> stopped c' = stopped c \<and>
     (queue c' = queue c \<or>
      (length (queue c) < queue_capacity \<and>
       (\<exists>e. queue c' = queue c @ [\<lparr>wb_entry = e, wb_retry = 0\<rparr>] \<and> value_size e \<le> cs_maxValueSize cs))) \<and>
     (local_sets c' = local_sets c \<or>
      (\<exists>e. local_sets c' = local_sets c @ [e] \<and> value_size e \<le> cs_maxValueSize cs))"

lemma grows_same: "same_work c c' \<Longrightarrow> grows cs c c'"
  by (simp add: grows_def same_work_def)

lemma same_grows: "same_work c c' \<Longrightarrow> grows cs c' c'' \<Longrightarrow> grows cs c c''"
  by (simp add: grows_def same_work_def)

lemma grows_cong [simp]:
  "grows cs c (record_metric f c') = grows cs c c'" "grows cs c (failed_with i op code st c') = grows cs c c'"
  "grows cs c (record_latency E op t c') = grows cs c c'"
  using record_latency_cs(3) [of c' E op t] by (simp_all add: grows_def same_work_def)

lemma grows_spawn:
  "same_work c c' \<Longrightarrow> value_size e \<le> cs_maxValueSize cs \<Longrightarrow> grows cs c (spawn_local_set e c')"
  by (simp add: grows_def same_work_def spawn_local_set_def)

lemma get_backends_grows:
  "get_backends E cs key opts ps lastErr c = (r, n, c') \<Longrightarrow> grows cs c c'"
proof (induction ps arbitrary: lastErr c)
  case Nil
  then show ?case by (auto simp: grows_same split: option.splits)
next
  case (Cons p ps)
  obtain g c1 where g: "guard E p c = (g, c1)" by fastforce
  obtain x c2 where o: "obj_Get E p key c1 = (x, c2)" by fastforce
  have w1: "same_work c c1" using guard_cs [OF g] by simp
  then have w2: "same_work c c2" using obj_Get_cs [OF o] same_work_trans by blast
  have rest: "grows cs c c'" if "get_backends E cs key opts ps l d = (r, n, c')" "same_work c d" for l d
    using Cons.IH [OF that(1)] that(2) same_grows by blast
  show ?case
  proof (cases g)
    case (Some e)
    with Cons.prems g w1 rest show ?thesis by (auto simp: Let_def)
  next
    case None
    show ?thesis
    proof (cases x)
      case (Inl err)
      with None Cons.prems g o w2 rest [OF _ same_work_metric(1)] show ?thesis by (auto simp: Let_def split: if_splits)
    next
      case (Inr e)
      with None Cons.prems g o w2 show ?thesis
        by (auto simp: Let_def grows_same intro!: grows_spawn same_work_metric split: if_splits)
    qed
  qed
qed

lemma get_local_work: "get_local E cs key opts c = (r, n, c') \<Longrightarrow> same_work c c'"
  by (auto simp: get_local_def Let_def dest!: obj_Get_cs split: option.splits if_splits prod.splits sum.splits)

lemma get_grows:
  assumes "CacheService_Get E cs key o0 c = (r, c')"
  shows "grows cs c c'"
proof -
  obtain t c0 where t: "time_Now E c = (t, c0)" by fastforce
  obtain found n c1 where l: "get_local E cs key (get_or_zero o0) c0 = (found, n, c1)" by (metis prod_cases3)
  have w1: "same_work c c1" using time_Now_cs [OF t] get_local_work [OF l] same_work_trans by blast
  let ?c1 = "record_metric (RecordMiss ''local'') c1"
  obtain ps c2 where r: "route_read E cs key (go_RoutingHint (get_or_zero o0)) ?c1 = (ps, c2)" by fastforce
  have w2: "same_work c c2" using route_read_cs [OF r] w1 same_work_metric(1) same_work_trans by blast
  obtain r3 n3 c3 where b: "get_backends E cs key (get_or_zero o0) ps None c2 = (r3, n3, c3)" by (metis prod_cases3)
  have g3: "grows cs c c3" using get_backends_grows [OF b] w2 same_grows by blast
  show ?thesis
    using assms t l r b grows_same [OF w1] grows_same [OF w2] g3
    by (auto simp: CacheService_Get_def get_body_def Let_def split: option.splits if_splits)
qed

lemma write_backend_work:
  assumes "write_backend E cs e opts c = (r, c')"
  shows "same_work c c'"
proof -
  obtain target c1 where t: "route_write E cs (entry_Key e) (so_RoutingHint opts) c = (target, c1)" by fastforce
  have w1: "same_work c c1" using route_write_cs [OF t] by simp
  show ?thesis
  proof (cases target)
    case (Inl err)
    with assms t w1 show ?thesis by (auto simp: write_backend_def)
  next
    case (Inr p)
    obtain g c2 where g: "guard E p c1 = (g, c2)" by fastforce
    obtain err c3 where o: "obj_Set E p e c2 = (err, c3)" by fastforce
    have w2: "same_work c c2" using guard_cs [OF g] w1 same_work_trans by blast
    then have "same_work c c3" using obj_Set_cs [OF o] same_work_trans by blast
    with Inr assms t g o w2 show ?thesis
      by (auto simp: write_backend_def Let_def split: option.splits)
  qed
qed

lemma setWriteThrough_grows:
  assumes "setWriteThrough E cs e opts c = (err, c')" "value_size e \<le> cs_maxValueSize cs"
  shows "grows cs c c'"
proof -
  obtain r c1 where w: "write_backend E cs e opts c = (r, c1)" by fastforce
  from write_backend_work [OF w] assms w show ?thesis
    by (auto simp: setWriteThrough_def grows_same grows_spawn split: sum.splits if_splits)
qed

lemma setCacheAside_grows:
  assumes "setCacheAside E cs e opts c = (err, c')"
  shows "grows cs c c'"
proof -
  obtain r c1 where w: "write_backend E cs e opts (write_local E cs e c) = (r, c1)" by fastforce
  have "same_work c c1" using write_backend_work [OF w] write_local_quiet same_work_trans by blast
  with assms w show ?thesis by (auto simp: setCacheAside_def grows_same split: sum.splits)
qed

lemma setWriteBehind_grows:
  assumes "setWriteBehind E cs e opts c = (err, c')" "value_size e \<le> cs_maxValueSize cs"
  shows "grows cs c c'"
proof -
  let ?c1 = "write_local E cs e c"
  have w: "same_work c ?c1" using write_local_quiet by blast
  show ?thesis
  proof (cases "length (queue ?c1) < queue_capacity")
    case True
    with assms w show ?thesis by (auto simp: setWriteBehind_def Let_def grows_def same_work_def)
  next
    case False
    with assms have "setWriteThrough E cs e opts ?c1 = (err, c')" by (simp add: setWriteBehind_def Let_def)
    from setWriteThrough_grows [OF this assms(2)] w same_grows show ?thesis by blast
  qed
qed

lemma setPassthrough_work:
  assumes "setPassthrough E cs e opts c = (err, c')"
  shows "same_work c c'"
proof -
  obtain target c1 where t: "route_write E cs (entry_Key e) (so_RoutingHint opts) c = (target, c1)" by fastforce
  have w1: "same_work c c1" using route_write_cs [OF t] by simp
  show ?thesis
  proof (cases target)
    case (Inl err')
    with assms t w1 show ?thesis by (auto simp: setPassthrough_def)
  next
    case (Inr p)
    obtain g c2 where g: "guard E p c1 = (g, c2)" by fastforce
    obtain err1 c3 where o: "obj_Set E p e c2 = (err1, c3)" by fastforce
    have w2: "same_work c c2" using guard_cs [OF g] w1 same_work_trans by blast
    then have "same_work c c3" using obj_Set_cs [OF o] same_work_trans by blast
    with Inr assms t g o w2 show ?thesis
      by (auto simp: setPassthrough_def Let_def split: option.splits if_splits)
  qed
qed

lemma set_grows:
  assumes "CacheService_Set E cs e o1 c = (err, c')"
  shows "grows cs c c'"
proof -
  let ?opts = "set_or_zero o1"
  obtain t c0 where t: "time_Now E c = (t, c0)" by fastforce
  let ?c0 = "record_metric (RecordValueSize ''cache'' ''set'' (value_size e)) c0"
  have w0: "same_work c ?c0" using time_Now_cs [OF t] by simp
  obtain err1 c1 where b: "set_body E cs e ?opts ?c0 = (err1, c1)" by fastforce
  obtain conflict c2 where k: "set_conflict E cs e ?opts ?c0 = (conflict, c2)" by fastforce
  have w2: "same_work c c2" using set_conflict_calm [OF k] w0 same_work_trans by blast
  let ?e = "e\<lparr>entry_TTL := getTTL (cs_defaultTTL cs) [entry_TTL e, so_TTL ?opts]\<rparr>"
  have vs: "value_size ?e = value_size e" by (simp add: value_size_def)
  have "grows cs c c1"
  proof (cases "cs_maxValueSize cs < value_size e")
    case True
    with b have "setPassthrough E cs e ?opts ?c0 = (err1, c1)" by (simp add: set_body_def)
    from setPassthrough_work [OF this] w0 show ?thesis using grows_same same_work_trans by blast
  next
    case small: False
    show ?thesis
    proof (cases conflict)
      case True
      with small b k w2 show ?thesis by (auto simp: set_body_def grows_same)
    next
      case False
      from False small b k have "setWriteThrough E cs ?e ?opts c2 = (err1, c1) \<or>
          setWriteBehind E cs ?e ?opts c2 = (err1, c1) \<or> setCacheAside E cs ?e ?opts c2 = (err1, c1)"
        by (simp add: set_body_def Let_def del: getTTL.simps split: ReadWriteMode.splits)
      moreover have "value_size ?e \<le> cs_maxValueSize cs" using small vs by simp
      ultimately have "grows cs c2 c1"
        by (elim disjE) (blast intro: setWriteThrough_grows setWriteBehind_grows setCacheAside_grows)+
      then show ?thesis using w2 same_grows by blast
    qed
  qed
  then show ?thesis using assms t b by (auto simp: CacheService_Set_def Let_def)
qed

lemma delete_work:
  assumes "CacheService_Delete E cs key o2 c = (err, c')"
  shows "same_work c c'"
proof -
  let ?hint = "case o2 of None \<Rightarrow> '''' | Some opts \<Rightarrow> do_RoutingHint opts"
  obtain t c0 where t: "time_Now E c = (t, c0)" by fastforce
  let ?c1 = "delete_local E cs key c0"
  have w1: "same_work c ?c1" using time_Now_cs [OF t] delete_local_quiet [of c0 E cs key] same_work_trans by blast
  obtain target c2 where r: "route_write E cs key ?hint ?c1 = (target, c2)" by fastforce
  have w2: "same_work c c2" using route_write_cs [OF r] w1 same_work_trans by blast
  obtain err1 c3 where b: "delete_body E cs key ?hint c0 = (err1, c3)" by fastforce
  have "same_work c c3"
  proof (cases target)
    case (Inl e)
    with b r w2 show ?thesis by (auto simp: delete_body_def)
  next
    case (Inr p)
    obtain g c4 where g: "guard E p c2 = (g, c4)" by fastforce
    have w4: "same_work c c4" using guard_cs [OF g] w2 same_work_trans by blast
    obtain err2 c5 where o: "obj_Delete E p key c4 = (err2, c5)" by fastforce
    have "same_work c c5" using obj_Delete_cs [OF o] w4 same_work_trans by blast
    with Inr b r g o w4 show ?thesis by (auto simp: delete_body_def Let_def split: option.splits if_splits)
  qed
  then show ?thesis using assms t b record_latency_cs(3) [of c3 E "''delete''" t] same_work_trans
    by (auto simp: CacheService_Delete_def Let_def)
qed

end
