(* ===== verification/Worker_Properties.thy ===== *)
theory Worker_Properties
  imports Cache_Properties
begin

text \<open>
  The service together with its goroutines: the invariant of every run, the attempts the
  write-behind worker makes for the writes it accepted, and what \<open>Close\<close> leaves behind.
\<close>

section \<open>The worker\<close>

lemma retry_later_frame:
  "heap (retry_later item c) = heap c \<and> breakers (retry_later item c) = breakers c \<and>
   queue (retry_later item c) = queue c \<and> batch (retry_later item c) = batch c \<and>
   local_sets (retry_later item c) = local_sets c \<and> stopped (retry_later item c) = stopped c"
  by (simp add: retry_later_def)

text \<open>The items a list of attempts sends to sleep: some of those with a retry left.\<close>

definition retries :: "wb_item list \<Rightarrow> wb_item list \<Rightarrow> bool" where
  "retries items later \<longleftrightarrow>
     (\<exists>failed. subseq failed items \<and> (\<forall>x \<in> set failed. wb_retry x < 3) \<and>
        later = map (\<lambda>x. x\<lparr>wb_retry := wb_retry x + 1\<rparr>) failed)"

lemma retries_append: "retries xs as \<Longrightarrow> retries ys bs \<Longrightarrow> retries (xs @ ys) (as @ bs)"
proof -
  assume "retries xs as" "retries ys bs"
  then obtain f g where "subseq f xs" "subseq g ys" "\<forall>x \<in> set f. wb_retry x < 3" "\<forall>x \<in> set g. wb_retry x < 3"
    "as = map (\<lambda>x. x\<lparr>wb_retry := wb_retry x + 1\<rparr>) f" "bs = map (\<lambda>x. x\<lparr>wb_retry := wb_retry x + 1\<rparr>) g"
    unfolding retries_def by blast
  then show ?thesis unfolding retries_def by (intro exI [of _ "f @ g"]) (auto simp: list_emb_append_mono)
qed

lemma item_processed:
  assumes "processWriteBehindItem E cs item c = c'"
  shows "quiet c c' \<and> queue c' = queue c \<and> batch c' = batch c \<and> local_sets c' = local_sets c \<and>
    stopped c' = stopped c \<and> (\<exists>later. sleeping c' = sleeping c @ later \<and> retries [item] later)"
proof -
  obtain target c1 where t: "route_write E cs (entry_Key (wb_entry item)) '''' c = (target, c1)" by fastforce
  have c1: "heap c1 = heap c" "breakers c1 = breakers c" "same_work c c1" using route_write_cs [OF t] by simp_all
  have finished: "quiet c d \<and> queue d = queue c \<and> batch d = batch c \<and> local_sets d = local_sets c \<and>
      stopped d = stopped c \<and> (\<exists>later. sleeping d = sleeping c @ later \<and> retries [item] later)"
    if "quiet c d" "same_work c d" for d
    using that by (auto simp: same_work_def retries_def intro!: exI [of _ "[]"])
  have slept: "quiet c (retry_later item d) \<and> queue (retry_later item d) = queue c \<and>
      batch (retry_later item d) = batch c \<and> local_sets (retry_later item d) = local_sets c \<and>
      stopped (retry_later item d) = stopped c \<and>
      (\<exists>later. sleeping (retry_later item d) = sleeping c @ later \<and> retries [item] later)"
    if "quiet c d" "same_work c d" for d
  proof (cases "wb_retry item < 3")
    case True
    have "retries [item] [item\<lparr>wb_retry := wb_retry item + 1\<rparr>]"
      unfolding retries_def using True by (intro exI [of _ "[item]"]) simp
    with True that show ?thesis by (auto simp: retry_later_def quiet_def same_work_def)
  next
    case False
    with finished [OF that] show ?thesis by (simp add: retry_later_def)
  qed
  show ?thesis
  proof (cases target)
    case (Inl err)
    with assms t slept [of c1] c1 show ?thesis by (simp add: processWriteBehindItem_def)
  next
    case (Inr p)
    obtain err c2 where o: "obj_Set E p (wb_entry item) c1 = (err, c2)" by fastforce
    have "quiet c c2" "same_work c c2"
      using obj_Set_cs [OF o] c1 quiet_trans [of c c1 c2] same_work_trans [of c c1 c2] by simp_all
    with Inr assms t o finished [of c2] slept [of c2] show ?thesis
      by (simp add: processWriteBehindItem_def split: if_splits)
  qed
qed

lemma batch_processed:
  "quiet c (processWriteBehindBatch E cs items c) \<and>
   queue (processWriteBehindBatch E cs items c) = queue c \<and>
   batch (processWriteBehindBatch E cs items c) = batch c \<and>
   local_sets (processWriteBehindBatch E cs items c) = local_sets c \<and>
   stopped (processWriteBehindBatch E cs items c) = stopped c \<and>
   (\<exists>later. sleeping (processWriteBehindBatch E cs items c) = sleeping c @ later \<and> retries items later)"
proof (induction items arbitrary: c)
  case Nil
  then show ?case by (auto simp: retries_def)
next
  case (Cons item items)
  let ?c1 = "processWriteBehindItem E cs item c" and ?c2 = "processWriteBehindBatch E cs (item # items) c"
  obtain l1 where l1: "sleeping ?c1 = sleeping c @ l1" "retries [item] l1" and q1: "quiet c ?c1"
    using item_processed [of E cs item c] by blast
  obtain l2 where l2: "sleeping ?c2 = sleeping ?c1 @ l2" "retries items l2"
    using Cons.IH [of ?c1] by auto
  have q2: "quiet c ?c2" using Cons.IH [of ?c1] quiet_trans [OF q1, of ?c2] by simp
  have "sleeping ?c2 = sleeping c @ (l1 @ l2)" "retries (item # items) (l1 @ l2)"
    using l1 l2 retries_append [of "[item]" l1 items l2] by simp_all
  then show ?case using q2 Cons.IH [of ?c1] item_processed [of E cs item c] by auto
qed

lemma quiet_batch [simp]: "quiet c d \<Longrightarrow> quiet c (d\<lparr>queue := q, batch := b\<rparr>)"
  by (simp add: quiet_def)

lemma worker_quiet:
  "quiet c (worker_take E cs c)" "quiet c (worker_tick E cs c)" "quiet c (worker_stop E cs c)"
proof -
  have q: "quiet c (processWriteBehindBatch E cs items d)" if "heap d = heap c" "breakers d = breakers c" for items d
    using batch_processed [of d E cs items] quiet_trans [of c d] that by simp
  show "quiet c (worker_take E cs c)"
    by (cases "queue c") (simp_all add: worker_take_def Let_def q)
  show "quiet c (worker_tick E cs c)" by (auto simp: worker_tick_def intro!: q)
  show "quiet c (worker_stop E cs c)" by (auto simp: worker_stop_def Let_def intro!: q)
qed

lemma step_quiet:
  assumes "service_step E cs c c'" "all_closed (breakers c)"
  shows "quiet c c'"
  using assms
proof (induction rule: service_step.induct)
  case (did_get key o0 c r c')
  then show ?case using get_quiet by blast
next
  case (did_set e o1 c err c')
  then show ?case using set_calm by blast
next
  case (did_delete key o2 c err c')
  then show ?case using delete_calm by blast
next
  case (invalidated c key)
  then show ?case using delete_local_quiet [of c E cs key] by (simp add: InvalidateLocal_def)
next
  case (closed c)
  then show ?case using worker_quiet(3) [of c E cs] by (simp add: CacheService_Close_def)
next
  case (woke c n)
  then show ?case by (simp add: wake_def)
next
  case (ran c n)
  let ?d = "c\<lparr>local_sets := remove_nth n (local_sets c)\<rparr>"
  have "quiet c ?d" by simp
  then show ?case
    using write_local_quiet [of ?d E cs "local_sets c ! n"] quiet_trans [of c ?d] by (simp add: run_local_set_def)
qed (use worker_quiet in blast)+

section \<open>Every run\<close>

lemma run_quiet:
  assumes "(service_step E cs)\<^sup>*\<^sup>* c0 c" "all_closed (breakers c0)"
  shows "quiet c0 c"
  using assms
proof (induction rule: rtranclp_induct)
  case base
  then show ?case by simp
next
  case (step c1 c2)
  then have "quiet c1 c2" using step_quiet [of E cs c1 c2] by (simp add: quiet_def)
  with step.IH [OF step.prems] show ?case by (rule quiet_trans)
qed

lemma answers_no_circuit_error: "Inl CircuitErrCircuitOpen \<notin> set (answers E key ps h w)"
proof (induction ps arbitrary: h w)
  case Nil
  then show ?case by simp
next
  case (Cons p ps)
  obtain r b w' where g: "Backend_Get E (h p) key w = (r, b, w')" by (metis prod_cases3)
  then have "r \<noteq> Inl CircuitErrCircuitOpen" using Backend_no_circuit_error(1) by fastforce
  with g Cons.IH show ?case by simp
qed

lemma resolve_no_circuit_error:
  "Inl CircuitErrCircuitOpen \<notin> set rs \<Longrightarrow> lastErr \<noteq> Some CircuitErrCircuitOpen \<Longrightarrow>
   resolve cs opts lastErr rs \<noteq> Inl CircuitErrCircuitOpen"
proof (induction rs arbitrary: lastErr)
  case Nil
  then show ?case by (cases lastErr) auto
next
  case (Cons r rs)
  then show ?case by (cases r) auto
qed

lemma get_no_circuit_error:
  assumes "all_closed (breakers c)"
  shows "fst (CacheService_Get E cs key o0 c) \<noteq> Inl CircuitErrCircuitOpen"
proof -
  obtain t c0 where t: "time_Now E c = (t, c0)" by fastforce
  obtain found n c1 where l: "get_local E cs key (get_or_zero o0) c0 = (found, n, c1)" by (metis prod_cases3)
  show ?thesis
  proof (cases found)
    case None
    obtain ps c2 where r:
      "route_read E cs key (go_RoutingHint (get_or_zero o0)) (record_metric (RecordMiss ''local'') c1) = (ps, c2)"
      by fastforce
    show ?thesis
      using get_resolves [OF assms t l [unfolded None] r] answers_no_circuit_error [of E key ps]
        resolve_no_circuit_error by auto
  next
    case (Some x)
    then have "x \<noteq> Inl CircuitErrCircuitOpen"
      using l by (auto simp: get_local_def Let_def split: option.splits if_splits prod.splits sum.splits)
    with Some t l show ?thesis by (simp add: CacheService_Get_def get_body_def Let_def)
  qed
qed

text \<open>
  C7: no traffic ever opens a breaker. However long the service runs from closed breakers,
  whatever its backends answer, the breakers are closed, so no read, write or delete is
  rejected by one: each is asked to run a function that does nothing, and the outcome of the
  call to the backend is never recorded. Nor does any operation change the health flag or
  the identity of a backend: that is left to the health checker.
\<close>

theorem breakers_never_open:
  assumes "(service_step E cs)\<^sup>*\<^sup>* c0 c" "all_closed (breakers c0)"
  shows "all_closed (breakers c) \<and>
    fst (CacheService_Get E cs key o0 c) \<noteq> Inl CircuitErrCircuitOpen \<and>
    fst (CacheService_Set E cs e o1 c) \<noteq> Some CircuitErrCircuitOpen \<and>
    fst (CacheService_Delete E cs key o2 c) \<noteq> Some CircuitErrCircuitOpen \<and>
    obj_Healthy (heap c) p = obj_Healthy (heap c0) p \<and> obj_ID (heap c) p = obj_ID (heap c0) p"
proof -
  have q: "quiet c0 c" by (rule run_quiet [OF assms])
  then have closed: "all_closed (breakers c)" using assms(2) by (simp add: quiet_def)
  moreover have "fst (CacheService_Set E cs e o1 c) \<noteq> Some CircuitErrCircuitOpen"
    using set_calm [OF closed, of E cs e o1] by (cases "CacheService_Set E cs e o1 c") auto
  moreover have "fst (CacheService_Delete E cs key o2 c) \<noteq> Some CircuitErrCircuitOpen"
    using delete_calm [OF closed, of E cs key o2] by (cases "CacheService_Delete E cs key o2 c") auto
  ultimately show ?thesis
    using get_no_circuit_error [OF closed] q by (simp add: quiet_def obj_Healthy_def obj_ID_def)
qed

text \<open>A cache that drops every value: the write fails, and the breaker does not know.\<close>

definition dropping_env :: "sim env" where
  "dropping_env = sim_env\<lparr>env_cache_set := (\<lambda>h k v cost ttl w. (False, w))\<rparr>"

definition profile_entry :: entry where
  "profile_entry = \<lparr>entry_Key = ''user:profile:7'', entry_Value = [1], entry_Version = 0, entry_TTL = 0\<rparr>"

lemma dropped_write: "\<exists>err c. CacheService_Set dropping_env (sample_service None) profile_entry None sample_cs_ctx = (Some err, c)"
proof -
  let ?cs = "sample_service None" and ?o = zero_set_options
  let ?e = "profile_entry\<lparr>entry_TTL := getTTL (cs_defaultTTL ?cs) [entry_TTL profile_entry, so_TTL ?o]\<rparr>"
  obtain t c0 where t: "time_Now dropping_env sample_cs_ctx = (t, c0)" by fastforce
  let ?c0 = "record_metric (RecordValueSize ''cache'' ''set'' (value_size profile_entry)) c0"
  have c0: "heap ?c0 = sample_heap" "breakers ?c0 = Map.empty" using time_Now_cs [OF t] by simp_all
  have k: "entry_Key ?e = ''user:profile:7''" "so_RoutingHint ?o = ''''" "\<not> so_CheckVersion ?o" "value_size profile_entry = 1"
    by (simp_all add: profile_entry_def zero_set_options_def value_size_def)
  have "GetBackend xx sample_heap sample_router ks ''user:profile:7'' '''' = Inr 1" for xx ks
    by (simp add: GetBackend_candidates candidates_def sample_profile_rule sample_live)
  then obtain c1 where r: "route_write dropping_env ?cs ''user:profile:7'' '''' ?c0 = (Inr 1, c1)" "heap c1 = sample_heap" "breakers c1 = Map.empty"
    using c0 by (cases "env_iter dropping_env [''local'', ''redis-master'', ''http-service''] (world ?c0)")
      (auto simp: route_write_def)
  then obtain m where g: "guard dropping_env 1 c1 = (None, c1\<lparr>breakers := m\<rparr>)" using guard_closed [of c1 dropping_env 1] by auto
  obtain err c3 where o: "obj_Set dropping_env 1 ?e (c1\<lparr>breakers := m\<rparr>) = (Some err, c3)"
    using r(2) by (simp add: obj_Set_def obj_call_def Backend_Set_def on_object_def Memory_Set_def sample_heap_def
        sample_object_def dropping_env_def)
  have "\<exists>err c. setCacheAside dropping_env ?cs ?e ?o ?c0 = (Some err, c)"
    using r(1) g o k by (auto simp: setCacheAside_def write_local_def write_backend_def Let_def split: option.splits sum.splits)
  then have "\<exists>err c. set_body dropping_env ?cs profile_entry ?o ?c0 = (Some err, c)"
    using k(3,4) by (simp add: set_body_def set_conflict_def zero_set_options_def Let_def del: getTTL.simps)
  with t show ?thesis by (auto simp: CacheService_Set_def set_or_zero_def Let_def)
qed

lemma breakers_never_open_witness:
  "\<exists>err c. CacheService_Set dropping_env (sample_service None) profile_entry None sample_cs_ctx = (Some err, c) \<and>
     all_closed (breakers c) \<and>
     fst (CacheService_Set dropping_env (sample_service None) profile_entry None c) \<noteq> Some CircuitErrCircuitOpen"
proof -
  obtain err c where s: "CacheService_Set dropping_env (sample_service None) profile_entry None sample_cs_ctx = (Some err, c)"
    using dropped_write by blast
  have "(service_step dropping_env (sample_service None))\<^sup>*\<^sup>* sample_cs_ctx c"
    by (intro r_into_rtranclp service_step.did_set [OF s])
  from breakers_never_open [OF this] s show ?thesis by simp
qed

text \<open>The size of what waits, and the retries left of each item.\<close>

definition waiting :: "('w, 'z) cs_ctx_scheme \<Rightarrow> wb_item list" where
  "waiting c = queue c @ batch c @ sleeping c"

definition item_ok :: "cache_service \<Rightarrow> wb_item \<Rightarrow> bool" where
  "item_ok cs item \<longleftrightarrow>
     0 \<le> wb_retry item \<and> wb_retry item \<le> 3 \<and> value_size (wb_entry item) \<le> cs_maxValueSize cs"

definition service_ok :: "cache_service \<Rightarrow> ('w, 'z) cs_ctx_scheme \<Rightarrow> bool" where
  "service_ok cs c \<longleftrightarrow>
     length (queue c) \<le> queue_capacity \<and> length (batch c) < 100 \<and>
     (\<forall>item \<in> set (waiting c). item_ok cs item) \<and>
     (\<forall>e \<in> set (local_sets c). value_size e \<le> cs_maxValueSize cs)"

lemma subseq_set_subset: "subseq xs ys \<Longrightarrow> set xs \<subseteq> set ys"
  by (induction rule: list_emb.induct) auto

lemma retries_mem:
  assumes "retries items later" "y \<in> set later"
  obtains x where "x \<in> set items" "wb_retry x < 3" "y = x\<lparr>wb_retry := wb_retry x + 1\<rparr>"
proof -
  obtain failed where f: "subseq failed items" "\<forall>x \<in> set failed. wb_retry x < 3"
    "later = map (\<lambda>x. x\<lparr>wb_retry := wb_retry x + 1\<rparr>) failed"
    using assms(1) unfolding retries_def by blast
  from f(3) assms(2) obtain x where x: "x \<in> set failed" "y = x\<lparr>wb_retry := wb_retry x + 1\<rparr>" by auto
  have "set failed \<subseteq> set items" by (rule subseq_set_subset [OF f(1)])
  with x f(2) that show thesis by blast
qed

lemma retries_ok:
  assumes "retries items later" "\<forall>x \<in> set items. item_ok cs x"
  shows "\<forall>x \<in> set later. item_ok cs x"
proof
  fix y assume "y \<in> set later"
  from retries_mem [OF assms(1) this] obtain x where
    "x \<in> set items" "wb_retry x < 3" "y = x\<lparr>wb_retry := wb_retry x + 1\<rparr>" by blast
  with assms(2) show "item_ok cs y" by (simp add: item_ok_def)
qed

lemma grows_ok: "grows cs c c' \<Longrightarrow> service_ok cs c \<Longrightarrow> service_ok cs c'"
  by (auto simp: grows_def service_ok_def waiting_def item_ok_def)

lemma batch_ok:
  assumes "service_ok cs c" "d = processWriteBehindBatch E cs items c" "\<forall>x \<in> set items. item_ok cs x"
  shows "service_ok cs d"
proof -
  obtain later where "sleeping d = sleeping c @ later" "retries items later"
    using batch_processed [of c E cs items] assms(2) by blast
  moreover from this have "\<forall>x \<in> set later. item_ok cs x" using retries_ok assms(3) by blast
  ultimately show ?thesis
    using assms(1,2) batch_processed [of c E cs items] by (auto simp: service_ok_def waiting_def)
qed

lemma remove_nth_subset: "set (remove_nth n xs) \<subseteq> set xs"
  by (auto simp: remove_nth_def dest: in_set_takeD in_set_dropD)

lemma step_ok:
  assumes "service_step E cs c c'" "service_ok cs c"
  shows "service_ok cs c'"
  using assms
proof (induction rule: service_step.induct)
  case (did_get key o0 c r c')
  then show ?case using get_grows [of E cs key o0 c r c'] grows_ok [of cs c c'] by simp
next
  case (did_set e o1 c err c')
  then show ?case using set_grows [of E cs e o1 c err c'] grows_ok [of cs c c'] by simp
next
  case (did_delete key o2 c err c')
  then show ?case using delete_work [of E cs key o2 c err c'] grows_same grows_ok [of cs c c'] by blast
next
  case (invalidated c key)
  then show ?case
    using delete_local_quiet [of c E cs key] grows_same [of c "delete_local E cs key c" cs]
      grows_ok [of cs c "delete_local E cs key c"] by (simp add: InvalidateLocal_def)
next
  case (took c)
  show ?case
  proof (cases "queue c")
    case Nil
    with took show ?thesis by (simp add: worker_take_def)
  next
    case (Cons item items)
    let ?d = "c\<lparr>queue := items, batch := []\<rparr>"
    from Cons took have "service_ok cs ?d" "\<forall>x \<in> set (batch c @ [item]). item_ok cs x"
      by (auto simp: service_ok_def waiting_def)
    then have "service_ok cs (processWriteBehindBatch E cs (batch c @ [item]) ?d)" using batch_ok by blast
    moreover have "service_ok cs (c\<lparr>queue := items, batch := batch c @ [item]\<rparr>)" if "length (batch c) < 99"
      using Cons took that by (auto simp: service_ok_def waiting_def)
    ultimately show ?thesis using Cons by (simp add: worker_take_def Let_def)
  qed
next
  case (ticked c)
  then have "service_ok cs (c\<lparr>batch := []\<rparr>)" "\<forall>x \<in> set (batch c). item_ok cs x"
    by (auto simp: service_ok_def waiting_def)
  then have "service_ok cs (processWriteBehindBatch E cs (batch c) (c\<lparr>batch := []\<rparr>))" using batch_ok by blast
  with ticked show ?case by (simp add: worker_tick_def)
next
  case (closed c)
  let ?d = "c\<lparr>queue := [], batch := [], stopped := True\<rparr>"
  from closed have "service_ok cs ?d" "\<forall>x \<in> set (batch c @ queue c). item_ok cs x"
    by (auto simp: service_ok_def waiting_def)
  then have "service_ok cs (processWriteBehindBatch E cs (batch c @ queue c) ?d)" using batch_ok by blast
  then show ?case by (simp add: CacheService_Close_def worker_stop_def Let_def)
next
  case (woke c n)
  then show ?case
    using remove_nth_subset [of n "sleeping c"]
    by (auto simp: wake_def service_ok_def waiting_def)
next
  case (ran c n)
  let ?d = "c\<lparr>local_sets := remove_nth n (local_sets c)\<rparr>"
  have "service_ok cs ?d"
    using ran remove_nth_subset [of n "local_sets c"] by (auto simp: service_ok_def waiting_def)
  then have "service_ok cs (write_local E cs (local_sets c ! n) ?d)"
    using write_local_quiet [of ?d E cs "local_sets c ! n"] by (auto simp: service_ok_def waiting_def same_work_def)
  with ran show ?case by (simp add: run_local_set_def)
qed

text \<open>
  C25: the bounds on what waits. In every run the queue holds at most 10000 writes, the
  batch fewer than 100, no item has been retried more than three times, and no value above
  the size limit is ever queued or on its way into the local cache.
\<close>

theorem waiting_bounded:
  assumes "(service_step E cs)\<^sup>*\<^sup>* c0 c" "service_ok cs c0"
  shows "length (queue c) \<le> 10000 \<and> length (batch c) < 100 \<and>
    (\<forall>item \<in> set (waiting c). 0 \<le> wb_retry item \<and> wb_retry item \<le> 3 \<and>
       value_size (wb_entry item) \<le> cs_maxValueSize cs) \<and>
    (\<forall>e \<in> set (local_sets c). value_size e \<le> cs_maxValueSize cs)"
proof -
  have "service_ok cs c"
    using assms by (induction rule: rtranclp_induct) (auto dest: step_ok)
  then show ?thesis by (simp add: service_ok_def item_ok_def queue_capacity_def)
qed

lemma waiting_bounded_witness:
  "\<exists>c. (service_step sim_env (sample_service None))\<^sup>*\<^sup>* (sample_cs_ctx\<lparr>sleeping := [\<lparr>wb_entry = profile_entry, wb_retry = 3\<rparr>]\<rparr>) c \<and>
     batch c = [\<lparr>wb_entry = profile_entry, wb_retry = 3\<rparr>] \<and>
     (\<forall>item \<in> set (waiting c). wb_retry item \<le> 3 \<and> value_size (wb_entry item) \<le> 4)"
proof -
  let ?item = "\<lparr>wb_entry = profile_entry, wb_retry = 3\<rparr>" and ?cs = "sample_service None"
  let ?start = "sample_cs_ctx\<lparr>sleeping := [?item]\<rparr>"
  let ?c = "worker_take sim_env ?cs (wake 0 ?start)"
  have ok: "service_ok ?cs ?start" by (simp add: service_ok_def waiting_def item_ok_def profile_entry_def value_size_def)
  have "\<not> stopped (wake 0 ?start)" by (simp add: wake_def queue_capacity_def sample_cs_ctx_def)
  then have run: "(service_step sim_env ?cs)\<^sup>*\<^sup>* ?start ?c"
    by (meson converse_rtranclp_into_rtranclp rtranclp.rtrancl_refl service_step.took service_step.woke)
  moreover have "batch ?c = [?item]" by (simp add: worker_take_def wake_def queue_capacity_def Let_def)
  moreover have "\<forall>item \<in> set (waiting ?c). wb_retry item \<le> 3 \<and> value_size (wb_entry item) \<le> 4"
    using waiting_bounded [OF run ok] unfolding sample_service_simps by blast
  ultimately show ?thesis by (intro exI [of _ ?c] conjI)
qed

section \<open>Attempts\<close>

text \<open>How many more attempts an item may get, at most four for a new one.\<close>

definition attempts_left :: "wb_item list \<Rightarrow> nat" where
  "attempts_left items = sum_list (map (\<lambda>x. nat (4 - wb_retry x)) items)"

lemma attempts_left_simps [simp]:
  "attempts_left [] = 0" "attempts_left (x # xs) = nat (4 - wb_retry x) + attempts_left xs"
  "attempts_left (xs @ ys) = attempts_left xs + attempts_left ys"
  by (simp_all add: attempts_left_def)

lemma retries_cost:
  assumes "retries items later" "\<forall>x \<in> set items. wb_retry x \<le> 3"
  shows "attempts_left later + length items \<le> attempts_left items"
proof -
  obtain failed where f: "subseq failed items" "\<forall>x \<in> set failed. wb_retry x < 3"
    "later = map (\<lambda>x. x\<lparr>wb_retry := wb_retry x + 1\<rparr>) failed"
    using assms(1) unfolding retries_def by blast
  from f(1) have "(\<forall>x \<in> set items. wb_retry x \<le> 3) \<Longrightarrow> (\<forall>x \<in> set failed. wb_retry x < 3) \<Longrightarrow>
      attempts_left (map (\<lambda>x. x\<lparr>wb_retry := wb_retry x + 1\<rparr>) failed) + length items \<le> attempts_left items"
  proof (induction rule: list_emb.induct)
    case (list_emb_Nil ys)
    then show ?case by (induction ys) auto
  next
    case (list_emb_Cons xs ys y)
    then show ?case by auto
  next
    case (list_emb_Cons2 x y xs ys)
    then show ?case by auto
  qed
  with f assms(2) show ?thesis by simp
qed

text \<open>
  C26: a batch makes one attempt for each of its items, and every attempt is paid for: what
  sleeps afterwards may get at least that many attempts fewer. So each accepted write is
  tried at most four times, and the worker's work on it ends.
\<close>

theorem batch_spends_attempts:
  assumes "\<forall>x \<in> set items. wb_retry x \<le> 3" "processWriteBehindBatch E cs items c = c'"
  shows "attempts_left (waiting c') + length items \<le> attempts_left (waiting c) + attempts_left items \<and>
    (\<exists>later. sleeping c' = sleeping c @ later \<and> (\<forall>x \<in> set later. wb_entry x \<in> wb_entry ` set items \<and> wb_retry x \<le> 3))"
proof -
  obtain later where l: "sleeping c' = sleeping c @ later" "retries items later"
    using batch_processed [of c E cs items] assms(2) by blast
  have "attempts_left (waiting c') + length items \<le> attempts_left (waiting c) + attempts_left items"
    using retries_cost [OF l(2) assms(1)] l(1) batch_processed [of c E cs items] assms(2)
    by (simp add: waiting_def)
  moreover have "\<forall>x \<in> set later. wb_entry x \<in> wb_entry ` set items \<and> wb_retry x \<le> 3"
  proof
    fix y assume "y \<in> set later"
    from retries_mem [OF l(2) this] obtain x where
      "x \<in> set items" "wb_retry x < 3" "y = x\<lparr>wb_retry := wb_retry x + 1\<rparr>" by blast
    then show "wb_entry y \<in> wb_entry ` set items \<and> wb_retry y \<le> 3" by simp
  qed
  ultimately show ?thesis using l(1) by blast
qed

definition sample_items :: "wb_item list" where
  "sample_items =
     [\<lparr>wb_entry = \<lparr>entry_Key = ''k'', entry_Value = [1], entry_Version = 0, entry_TTL = 0\<rparr>, wb_retry = 3\<rparr>,
      \<lparr>wb_entry = \<lparr>entry_Key = ''user:1'', entry_Value = [2], entry_Version = 0, entry_TTL = 0\<rparr>, wb_retry = 0\<rparr>]"

lemma batch_spends_attempts_witness:
  "attempts_left (waiting (processWriteBehindBatch sim_env (sample_service None) sample_items sample_cs_ctx)) + 2 \<le> 5"
proof -
  have "\<forall>x \<in> set sample_items. wb_retry x \<le> 3" by (simp add: sample_items_def)
  from batch_spends_attempts [OF this refl, of sim_env "sample_service None" sample_cs_ctx, THEN conjunct1]
  show ?thesis by (simp add: sample_items_def waiting_def)
qed

end
