(* ===== verification/Go_Base64.thy ===== *)
theory Go_Base64
  imports Go_Prelude
begin

text \<open>
  \<open>base64.StdEncoding\<close> of Go's \<open>encoding/base64\<close>, which the HTTP API uses for values:
  three bytes become four characters, the rest is padded with \<open>=\<close>. Decoding skips line
  breaks and, not being strict, ignores the unused bits of the last character. The lemmas
  show the round trip and which texts decode.
\<close>

section \<open>The alphabet\<close>

definition b64_alphabet :: string where
  "b64_alphabet = ''ABCDEFGHIJKLMNOPQRSTUVWXYZabcdefghijklmnopqrstuvwxyz0123456789+/''"

definition b64_char :: "nat \<Rightarrow> char" where
  "b64_char n = b64_alphabet ! (n mod 64)"

text \<open>The reverse table, \<open>None\<close> for 0xff.\<close>

definition b64_value :: "char \<Rightarrow> nat option" where
  "b64_value c = map_of (zip b64_alphabet [0..<64]) c"

section \<open>Encoding\<close>

definition byte_of_nat :: "nat \<Rightarrow> 8 word" where
  "byte_of_nat n = word_of_nat (n mod 256)"

fun b64_encode :: "bytes \<Rightarrow> string" where
  "b64_encode [] = []"
| "b64_encode [a] =
     (let v = unat a * 65536 in [b64_char (v div 262144), b64_char (v div 4096), CHR ''='', CHR ''=''])"
| "b64_encode [a, b] =
     (let v = unat a * 65536 + unat b * 256
      in [b64_char (v div 262144), b64_char (v div 4096), b64_char (v div 64), CHR ''=''])"
| "b64_encode (a # b # c # bs) =
     (let v = unat a * 65536 + unat b * 256 + unat c
      in [b64_char (v div 262144), b64_char (v div 4096), b64_char (v div 64), b64_char v] @ b64_encode bs)"

section \<open>Decoding\<close>

definition newline :: "char \<Rightarrow> bool" where
  "newline c \<longleftrightarrow> c = CHR 0x0A \<or> c = CHR 0x0D"

text \<open>
  The quantums of a text without line breaks. Only the last one may be padded; a shorter
  rest and anything after the padding is an error.
\<close>

fun b64_quantums :: "string \<Rightarrow> bytes option" where
  "b64_quantums [] = Some []"
| "b64_quantums (p # q # r # s # rest) =
     (case (b64_value p, b64_value q) of
        (Some i, Some j) \<Rightarrow>
          (case (b64_value r, b64_value s) of
             (Some k, Some l) \<Rightarrow>
               (let v = i * 262144 + j * 4096 + k * 64 + l
                in map_option (\<lambda>bs. byte_of_nat (v div 65536) # byte_of_nat (v div 256) # byte_of_nat v # bs)
                     (b64_quantums rest))
           | (Some k, None) \<Rightarrow>
               (let v = i * 262144 + j * 4096 + k * 64
                in if s = CHR ''='' \<and> rest = []
                   then Some [byte_of_nat (v div 65536), byte_of_nat (v div 256)] else None)
           | (None, _) \<Rightarrow>
               (let v = i * 262144 + j * 4096
                in if r = CHR ''='' \<and> s = CHR ''='' \<and> rest = [] then Some [byte_of_nat (v div 65536)] else None))
      | _ \<Rightarrow> None)"
| "b64_quantums _ = None"

definition b64_decode :: "string \<Rightarrow> bytes option" where
  "b64_decode s = b64_quantums (filter (\<lambda>c. \<not> newline c) s)"

section \<open>Round trip\<close>

lemma length_b64_alphabet [simp]: "length b64_alphabet = 64"
  by (simp add: b64_alphabet_def)

lemma distinct_b64_alphabet: "distinct b64_alphabet"
  by (simp add: b64_alphabet_def)

lemma b64_value_char [simp]: "b64_value (b64_char n) = Some (n mod 64)"
proof -
  have "(b64_alphabet ! (n mod 64), [0..<64] ! (n mod 64)) \<in> set (zip b64_alphabet [0..<64])"
    by (auto simp: set_zip)
  then have "map_of (zip b64_alphabet [0..<64]) (b64_alphabet ! (n mod 64)) = Some ([0..<64] ! (n mod 64))"
    by (intro map_of_is_SomeI) (simp_all add: distinct_b64_alphabet)
  then show ?thesis by (simp add: b64_value_def b64_char_def)
qed

lemma b64_alphabet_plain: "c \<in> set b64_alphabet \<Longrightarrow> \<not> newline c \<and> c \<noteq> CHR ''=''"
  by (auto simp: b64_alphabet_def newline_def)

lemma b64_char_plain [simp]: "\<not> newline (b64_char n)" "b64_char n \<noteq> CHR ''=''"
  using b64_alphabet_plain [of "b64_char n"] by (simp_all add: b64_char_def)

lemma b64_value_pad [simp]: "b64_value (CHR ''='') = None"
  by (simp add: b64_value_def b64_alphabet_def upt_rec)

text \<open>The digits of a number of 24 bits, in base 64 and in base 256.\<close>

lemma digits_64:
  assumes "v < 16777216"
  shows "v div 262144 mod 64 * 262144 + v div 4096 mod 64 * 4096 + v div 64 mod 64 * 64 + v mod 64 = (v::nat)"
proof -
  have div: "v div 4096 = v div 64 div 64" "v div 262144 = v div 64 div 64 div 64"
    by (simp_all add: div_mult2_eq [symmetric])
  have top: "v div 262144 mod 64 = v div 262144" using assms by (intro mod_less) (simp add: less_mult_imp_div_less)
  have "v div 64 div 64 div 64 * 64 + v div 64 div 64 mod 64 = v div 64 div 64"
    "v div 64 div 64 * 64 + v div 64 mod 64 = v div 64" "v div 64 * 64 + v mod 64 = v"
    by simp_all
  then show ?thesis unfolding top unfolding div by linarith
qed

text \<open>The digits a shorter rest leaves out are 0.\<close>

lemma low_digits:
  "(x * 65536) mod 64 = (0::nat)" "(x * 65536) div 64 mod 64 = (0::nat)"
  "(x * 65536 + y * 256) mod 64 = (0::nat)"
proof -
  have "x * 65536 = 64 * (64 * (x * 16))" "x * 65536 + y * 256 = 64 * (x * 1024 + y * 4)" by simp_all
  then show "(x * 65536) mod 64 = (0::nat)" "(x * 65536) div 64 mod 64 = (0::nat)"
    "(x * 65536 + y * 256) mod 64 = (0::nat)"
    by (metis mod_mult_self1_is_0, metis mod_mult_self1_is_0 nonzero_mult_div_cancel_left zero_neq_numeral,
        metis mod_mult_self1_is_0)
qed

lemma byte_of_nat_unat [simp]: "byte_of_nat (unat a) = a"
  using unsigned_less [of a, where ?'a = nat] by (simp add: byte_of_nat_def)

lemma byte_of_nat_mod: "byte_of_nat (n * 256 + unat a) = a"
  using unsigned_less [of a, where ?'a = nat] by (simp add: byte_of_nat_def)

lemma bytes_256:
  fixes a b c :: "8 word"
  defines "v \<equiv> unat a * 65536 + unat b * 256 + unat c"
  shows "byte_of_nat (v div 65536) = a" "byte_of_nat (v div 256) = b" "byte_of_nat v = c" "v < 16777216"
proof -
  have l: "unat a < 256" "unat b < 256" "unat c < 256"
    using unsigned_less [of a, where ?'a = nat] unsigned_less [of b, where ?'a = nat]
      unsigned_less [of c, where ?'a = nat] by simp_all
  then have "v div 256 = unat a * 256 + unat b" "v = (unat a * 256 + unat b) * 256 + unat c"
    by (simp_all add: v_def)
  moreover from this l have "v div 256 div 256 = unat a" by simp
  then have "v div 65536 = unat a" by (simp add: div_mult2_eq [symmetric])
  ultimately have "v div 65536 = unat a" "v div 256 = unat a * 256 + unat b"
    "v = (unat a * 256 + unat b) * 256 + unat c" by simp_all
  then show "byte_of_nat (v div 65536) = a" "byte_of_nat (v div 256) = b" "byte_of_nat v = c"
    by (simp_all only: byte_of_nat_mod byte_of_nat_unat)
  from l show "v < 16777216" unfolding v_def by linarith
qed

lemma b64_encode_plain: "filter (\<lambda>c. \<not> newline c) (b64_encode bs) = b64_encode bs"
  by (induction bs rule: b64_encode.induct) (simp_all add: Let_def newline_def [of "CHR ''=''"])

text \<open>Decoding one quantum of a 24-bit number.\<close>

lemma b64_quantum:
  assumes "v < 16777216"
  shows "b64_quantums (b64_char (v div 262144) # b64_char (v div 4096) # b64_char (v div 64) # b64_char v # rest) =
      map_option (\<lambda>bs. byte_of_nat (v div 65536) # byte_of_nat (v div 256) # byte_of_nat v # bs) (b64_quantums rest)"
    and "v mod 64 = 0 \<Longrightarrow>
      b64_quantums [b64_char (v div 262144), b64_char (v div 4096), b64_char (v div 64), CHR ''=''] =
      Some [byte_of_nat (v div 65536), byte_of_nat (v div 256)]"
    and "v mod 64 = 0 \<Longrightarrow> v div 64 mod 64 = 0 \<Longrightarrow>
      b64_quantums [b64_char (v div 262144), b64_char (v div 4096), CHR ''='', CHR ''=''] =
      Some [byte_of_nat (v div 65536)]"
proof -
  have "v div 262144 mod 64 = v div 262144" using assms by (intro mod_less) (simp add: less_mult_imp_div_less)
  with digits_64 [OF assms] have v:
    "v div 262144 * 262144 + v div 4096 mod 64 * 4096 + v div 64 mod 64 * 64 + v mod 64 = v"
    "v div 262144 mod 64 = v div 262144" by simp_all
  show "b64_quantums (b64_char (v div 262144) # b64_char (v div 4096) # b64_char (v div 64) # b64_char v # rest) =
      map_option (\<lambda>bs. byte_of_nat (v div 65536) # byte_of_nat (v div 256) # byte_of_nat v # bs) (b64_quantums rest)"
    by (simp only: b64_quantums.simps b64_value_char option.case prod.case Let_def v)
  show "b64_quantums [b64_char (v div 262144), b64_char (v div 4096), b64_char (v div 64), CHR ''=''] =
      Some [byte_of_nat (v div 65536), byte_of_nat (v div 256)]" if "v mod 64 = 0"
    using v(1) unfolding that
    by (simp only: b64_quantums.simps b64_value_char b64_value_pad option.case prod.case Let_def v(2) add_0_right) simp
  show "b64_quantums [b64_char (v div 262144), b64_char (v div 4096), CHR ''='', CHR ''=''] =
      Some [byte_of_nat (v div 65536)]" if "v mod 64 = 0" "v div 64 mod 64 = 0"
    using v(1) unfolding that
    by (simp only: b64_quantums.simps b64_value_char b64_value_pad option.case prod.case Let_def v(2) add_0_right
        mult_zero_left) simp
qed

lemma b64_quantums_encode: "b64_quantums (b64_encode bs) = Some bs"
proof (induction bs rule: b64_encode.induct)
  case 1
  then show ?case by simp
next
  case (2 a)
  define v where "v = unat a * 65536"
  have "v < 16777216" "byte_of_nat (v div 65536) = a"
    using bytes_256 [of a 0 0] by (simp_all add: v_def)
  moreover have "v mod 64 = 0" "v div 64 mod 64 = 0"
    unfolding v_def by (rule low_digits)+
  ultimately show ?case
    using b64_quantum(3) [of v] by (simp del: b64_quantums.simps add: Let_def v_def [symmetric])
next
  case (3 a b)
  define v where "v = unat a * 65536 + unat b * 256"
  have "v < 16777216" "byte_of_nat (v div 65536) = a" "byte_of_nat (v div 256) = b"
    using bytes_256 [of a b 0] by (simp_all add: v_def)
  moreover have "v mod 64 = 0" unfolding v_def by (rule low_digits)
  ultimately show ?case
    using b64_quantum(2) [of v] by (simp del: b64_quantums.simps add: Let_def v_def [symmetric])
next
  case (4 a b c bs)
  define v where "v = unat a * 65536 + unat b * 256 + unat c"
  have "v < 16777216" "byte_of_nat (v div 65536) = a" "byte_of_nat (v div 256) = b" "byte_of_nat v = c"
    using bytes_256 [of a b c] by (simp_all only: v_def)
  then show ?case
    using 4 b64_quantum(1) [of v "b64_encode bs"] by (simp del: b64_quantums.simps add: Let_def v_def [symmetric])
qed

lemma b64_decode_encode [simp]: "b64_decode (b64_encode bs) = Some bs"
  by (simp add: b64_decode_def b64_encode_plain b64_quantums_encode)

lemma b64_encode_length: "length (b64_encode bs) = 4 * ((length bs + 2) div 3)"
proof (induction bs rule: b64_encode.induct)
  case (4 a b c bs)
  have "(length (a # b # c # bs) + 2) div 3 = Suc ((length bs + 2) div 3)" by simp
  with 4 show ?case by (simp add: Let_def)
qed (simp_all add: Let_def)

text \<open>What is not a whole number of quantums does not decode.\<close>

lemma b64_quantums_length: "b64_quantums s = Some bs \<Longrightarrow> length s mod 4 = 0"
proof (induction s arbitrary: bs rule: b64_quantums.induct)
  case (2 p q r s rest)
  have "length (p # q # r # s # rest) mod 4 = length rest mod 4" by simp
  with 2 show ?case by (auto simp: Let_def split: option.splits if_splits)
qed simp_all

end
