(* ===== verification/Api.thy ===== *)
theory Api
  imports Cache_Service Health Go_Base64
begin

text \<open>
  Package \<open>internal/api\<close>: the HTTP handlers over the cache service, the health checker and the
  configuration, and the middleware around them. gin is a parameter: how it decodes a
  request body (\<open>bind\<close>) and how it matches a path against the registered routes
  (\<open>gin_match\<close>); a request is what gin hands to a handler, a query the values of
  \<open>net/url\<close>. A response is the status and the value that is marshalled.
\<close>

section \<open>Requests and responses\<close>

type_synonym url_values = "string \<Rightarrow> string list"

record gin_request =
  rq_Method :: string
  rq_Path :: string
  rq_Key :: string
  rq_Query :: url_values
  rq_RoutingHint :: string
  rq_Body :: string

record SetRequest =
  sr_Key :: string
  sr_Value :: string
  sr_Version :: u64
  sr_TTL :: int

record ErrorResponse =
  er_Code :: int
  er_Message :: string
  er_Type :: string

record GetResponse =
  gr_Key :: string
  gr_Value :: string
  gr_Version :: u64
  gr_TTL :: int

record SetResponse =
  st_Key :: string
  st_Success :: bool
  st_Version :: u64

record DeleteResponse =
  dr_Key :: string
  dr_Success :: bool

record health_detail =
  hd_healthy :: bool
  hd_last_check :: instant
  hd_success_count :: int
  hd_failure_count :: int
  hd_consecutive_success :: int
  hd_consecutive_failure :: int

record HealthResponse =
  hr_Status :: string
  hr_Backends :: "(string \<Rightarrow> health_detail option) option"

datatype api_body =
    NoBody
  | ErrorBody ErrorResponse
  | GetBody GetResponse
  | SetBody SetResponse
  | DeleteBody DeleteResponse
  | HealthBody HealthResponse
  | ConfigBody AppConfig
  | MetricsBody "metrics option"

record api_response =
  rs_Status :: int
  rs_Headers :: "(string \<times> string) list"
  rs_Body :: api_body

definition respond :: "int \<Rightarrow> api_body \<Rightarrow> api_response" where
  "respond code body = \<lparr>rs_Status = code, rs_Headers = [], rs_Body = body\<rparr>"

definition api_error :: "int \<Rightarrow> string \<Rightarrow> string \<Rightarrow> api_response" where
  "api_error code errType message =
     respond code (ErrorBody \<lparr>er_Code = code, er_Message = message, er_Type = errType\<rparr>)"

text \<open>\<open>c.Query\<close>: the first value, or nothing; \<open>url.Values.Set\<close>: the only value.\<close>

definition query_get :: "url_values \<Rightarrow> string \<Rightarrow> string" where
  "query_get q k = (case q k of [] \<Rightarrow> '''' | v # _ \<Rightarrow> v)"

definition query_set :: "string \<Rightarrow> string \<Rightarrow> url_values \<Rightarrow> url_values" where
  "query_set k v q = q(k := [v])"

record cache_handler =
  ah_service :: cache_service
  ah_config :: AppConfig

text \<open>The health checker and the metrics it is also given are in the state it runs on.\<close>

definition NewHandler :: "cache_service \<Rightarrow> AppConfig \<Rightarrow> cache_handler" where
  "NewHandler cs cfg = \<lparr>ah_service = cs, ah_config = cfg\<rparr>"

section \<open>Handlers\<close>

text \<open>The errors of the service as statuses; a read also tells a missing key apart.\<close>

definition write_failed :: "go_error \<Rightarrow> bool \<Rightarrow> api_response" where
  "write_failed err versioned =
     (if versioned \<and> errors_Is err ErrVersionMismatch then api_error 409 ''consistency'' (error_string err)
      else if errors_Is err ErrBackendUnhealthy then api_error 503 ''backend'' (error_string err)
      else api_error 500 ''backend'' (error_string err))"

definition read_failed :: "go_error \<Rightarrow> api_response" where
  "read_failed err =
     (if errors_Is err ErrKeyNotFound then api_error 404 ''backend'' (error_string err)
      else write_failed err True)"

definition get_options_of :: "gin_request \<Rightarrow> get_options" where
  "get_options_of rq =
     \<lparr>go_Version =
        (let versionStr = query_get (rq_Query rq) ''version''; (v, ok) = ParseUint versionStr
         in if versionStr \<noteq> '''' \<and> ok then v else 0),
      go_RoutingHint = query_get (rq_Query rq) ''hint'',
      go_SkipCache = (query_get (rq_Query rq) ''skip_cache'' = ''true'')\<rparr>"

definition Api_Get ::
  "'w env \<Rightarrow> cache_handler \<Rightarrow> gin_request \<Rightarrow> ('w, 'z) cs_ctx_scheme \<Rightarrow> api_response \<times> ('w, 'z) cs_ctx_scheme" where
  "Api_Get E h rq c =
     (if rq_Key rq = '''' then (api_error 400 ''routing'' ''key is required'', c)
      else
        (let (r, c1) = CacheService_Get E (ah_service h) (rq_Key rq) (Some (get_options_of rq)) c in
         case r of
           Inl err \<Rightarrow> (read_failed err, c1)
         | Inr e \<Rightarrow>
             (respond 200 (GetBody \<lparr>gr_Key = rq_Key rq, gr_Value = b64_encode (entry_Value e),
                gr_Version = entry_Version e, gr_TTL = whole_seconds (entry_TTL e)\<rparr>), c1)))"

text \<open>\<open>time.Duration(req.TTL) * time.Second\<close>, in 64 bits.\<close>

definition request_ttl :: "int \<Rightarrow> duration" where
  "request_ttl n = (if 0 < n then wrap64 (n * Second) else 0)"

definition set_options_of :: "gin_request \<Rightarrow> SetRequest \<Rightarrow> set_options" where
  "set_options_of rq req =
     \<lparr>so_Version = sr_Version req, so_RoutingHint = query_get (rq_Query rq) ''hint'',
      so_TTL = request_ttl (sr_TTL req), so_Mode = ReadWriteMode_of_string (query_get (rq_Query rq) ''mode''),
      so_CheckVersion = (query_get (rq_Query rq) ''check_version'' = ''true'')\<rparr>"

definition entry_of :: "SetRequest \<Rightarrow> bytes \<Rightarrow> entry" where
  "entry_of req bs =
     \<lparr>entry_Key = sr_Key req, entry_Value = bs, entry_Version = 0, entry_TTL = request_ttl (sr_TTL req)\<rparr>"

definition Api_Set ::
  "'w env \<Rightarrow> (string \<Rightarrow> go_error + SetRequest) \<Rightarrow> cache_handler \<Rightarrow> gin_request \<Rightarrow>
   ('w, 'z) cs_ctx_scheme \<Rightarrow> api_response \<times> ('w, 'z) cs_ctx_scheme" where
  "Api_Set E bind h rq c =
     (case bind (rq_Body rq) of
        Inl err \<Rightarrow> (api_error 400 ''routing'' (''invalid request body: '' @ error_string err), c)
      | Inr req \<Rightarrow>
          (case b64_decode (sr_Value req) of
             None \<Rightarrow> (api_error 400 ''routing'' ''invalid value encoding, expected base64'', c)
           | Some bs \<Rightarrow>
               (let e = entry_of req bs;
                    (err, c1) = CacheService_Set E (ah_service h) e (Some (set_options_of rq req)) c
                in case err of
                     Some err' \<Rightarrow> (write_failed err' True, c1)
                   | None \<Rightarrow>
                       (respond 200 (SetBody \<lparr>st_Key = sr_Key req, st_Success = True, st_Version = entry_Version e\<rparr>),
                        c1))))"

definition Api_Delete ::
  "'w env \<Rightarrow> cache_handler \<Rightarrow> gin_request \<Rightarrow> ('w, 'z) cs_ctx_scheme \<Rightarrow> api_response \<times> ('w, 'z) cs_ctx_scheme" where
  "Api_Delete E h rq c =
     (if rq_Key rq = '''' then (api_error 400 ''routing'' ''key is required'', c)
      else
        (let opts = \<lparr>do_RoutingHint = query_get (rq_Query rq) ''hint''\<rparr>;
             (err, c1) = CacheService_Delete E (ah_service h) (rq_Key rq) (Some opts) c
         in case err of
              Some err' \<Rightarrow> (write_failed err' False, c1)
            | None \<Rightarrow> (respond 200 (DeleteBody \<lparr>dr_Key = rq_Key rq, dr_Success = True\<rparr>), c1)))"

text \<open>\<open>getBackendByID\<close> is a stub in the source: it always returns nil.\<close>

definition getBackendByID :: "cache_handler \<Rightarrow> string \<Rightarrow> bref option" where
  "getBackendByID h i = None"

fun exists_in ::
  "'w env \<Rightarrow> cache_handler \<Rightarrow> string \<Rightarrow> BackendConfig list \<Rightarrow> bool \<Rightarrow>
   ('w, 'z) cs_ctx_scheme \<Rightarrow> bool \<times> ('w, 'z) cs_ctx_scheme" where
  "exists_in E h key [] found c = (found, c)"
| "exists_in E h key (b # bs) found c =
     (case getBackendByID h (bc_ID b) of
        None \<Rightarrow> exists_in E h key bs found c
      | Some p \<Rightarrow>
          (let (r, c1) = obj_call (\<lambda>b. Backend_Exists E b key) p c in
           case r of
             Inl _ \<Rightarrow> exists_in E h key bs False c1
           | Inr ok \<Rightarrow> if ok then (True, c1) else exists_in E h key bs False c1))"

definition Api_Exists ::
  "'w env \<Rightarrow> cache_handler \<Rightarrow> gin_request \<Rightarrow> ('w, 'z) cs_ctx_scheme \<Rightarrow> api_response \<times> ('w, 'z) cs_ctx_scheme" where
  "Api_Exists E h rq c =
     (if rq_Key rq = '''' then (respond 400 NoBody, c)
      else
        (let (found, c1) = exists_in E h (rq_Key rq) (GetBackendsByType (ah_config h) BackendTypeMemory) False c
         in (respond (if found then 200 else 404) NoBody, c1)))"

text \<open>\<open>ks\<close> is the order in which the \<open>range\<close> over the statuses meets the IDs.\<close>

fun overall :: "(string \<Rightarrow> health_status option) \<Rightarrow> string list \<Rightarrow> string" where
  "overall m [] = ''healthy''"
| "overall m (i # is) =
     (case m i of
        None \<Rightarrow> overall m is
      | Some s \<Rightarrow> if \<not> hs_Healthy s then ''degraded'' else overall m is)"

fun overall_all :: "string \<Rightarrow> (string \<Rightarrow> health_status option) \<Rightarrow> string list \<Rightarrow> string" where
  "overall_all status m [] = status"
| "overall_all status m (i # is) =
     (case m i of
        None \<Rightarrow> overall_all status m is
      | Some s \<Rightarrow> overall_all (if \<not> hs_Healthy s then ''degraded'' else status) m is)"

definition detail_of :: "health_status \<Rightarrow> health_detail" where
  "detail_of s =
     \<lparr>hd_healthy = hs_Healthy s, hd_last_check = hs_LastCheck s, hd_success_count = hs_SuccessCount s,
      hd_failure_count = hs_FailureCount s, hd_consecutive_success = hs_ConsecutiveSuccess s,
      hd_consecutive_failure = hs_ConsecutiveFailure s\<rparr>"

definition Api_Health :: "(bref \<Rightarrow> backend) \<Rightarrow> health_checker \<Rightarrow> string list \<Rightarrow> api_response" where
  "Api_Health hp hc ks =
     respond 200 (HealthBody \<lparr>hr_Status = overall (GetAllHealthStatus hp hc) ks, hr_Backends = None\<rparr>)"

definition Api_HealthDetail :: "(bref \<Rightarrow> backend) \<Rightarrow> health_checker \<Rightarrow> string list \<Rightarrow> api_response" where
  "Api_HealthDetail hp hc ks =
     respond 200 (HealthBody
       \<lparr>hr_Status = overall_all ''healthy'' (GetAllHealthStatus hp hc) ks,
        hr_Backends = Some (map_option detail_of \<circ> GetAllHealthStatus hp hc)\<rparr>)"

definition Api_GetConfig :: "cache_handler \<Rightarrow> api_response" where
  "Api_GetConfig h = respond 200 (ConfigBody (ah_config h))"

section \<open>Routes and middleware\<close>

datatype api_route =
  RouteGet | RouteSet | RouteDelete | RouteExists | RouteHealth | RouteHealthDetail | RouteGetConfig | RouteMetrics

type_synonym route_table = "((string \<times> string) \<times> api_route) list"

definition RegisterRoutes :: "AppConfig \<Rightarrow> route_table" where
  "RegisterRoutes cfg =
     [((''GET'', ''/api/v1/cache/:key''), RouteGet),
      ((''POST'', ''/api/v1/cache''), RouteSet),
      ((''DELETE'', ''/api/v1/cache/:key''), RouteDelete),
      ((''HEAD'', ''/api/v1/cache/:key''), RouteExists),
      ((''GET'', ''/api/v1/admin/health''), RouteHealth),
      ((''GET'', ''/api/v1/admin/health/detail''), RouteHealthDetail),
      ((''GET'', ''/api/v1/admin/config''), RouteGetConfig)] @
     (if mc_Enabled (ac_Metrics cfg)
      then [((''GET'', if mc_Path (ac_Metrics cfg) = '''' then ''/metrics'' else mc_Path (ac_Metrics cfg)), RouteMetrics)]
      else [])"

definition cors_headers :: "(string \<times> string) list" where
  "cors_headers =
     [(''Access-Control-Allow-Origin'', ''*''),
      (''Access-Control-Allow-Methods'', ''GET, POST, PUT, DELETE, OPTIONS, HEAD''),
      (''Access-Control-Allow-Headers'', ''Content-Type, Authorization, X-Routing-Hint'')]"

text \<open>A middleware takes the rest of the chain.\<close>

type_synonym 'c handler = "gin_request \<Rightarrow> 'c \<Rightarrow> api_response \<times> 'c"

definition CORSMiddleware :: "'c handler \<Rightarrow> 'c handler" where
  "CORSMiddleware rest rq c =
     (let (rs, c1) = (if rq_Method rq = ''OPTIONS'' then (respond 204 NoBody, c) else rest rq c)
      in (rs\<lparr>rs_Headers := cors_headers @ rs_Headers rs\<rparr>, c1))"

definition RequestLogger ::
  "'w env \<Rightarrow> ('w, 'z) cs_ctx_scheme handler \<Rightarrow> ('w, 'z) cs_ctx_scheme handler" where
  "RequestLogger E rest rq c =
     (let (start, c1) = time_Now E c; (rs, c2) = rest rq c1; (latency, c3) = time_Since E start c2 in (rs, c3))"

definition GetRoutingHint :: "'c handler \<Rightarrow> 'c handler" where
  "GetRoutingHint rest rq c =
     rest (if rq_RoutingHint rq \<noteq> '''' then rq\<lparr>rq_Query := query_set ''hint'' (rq_RoutingHint rq) (rq_Query rq)\<rparr> else rq) c"

definition run_route ::
  "'w env \<Rightarrow> (string \<Rightarrow> go_error + SetRequest) \<Rightarrow> cache_handler \<Rightarrow> health_checker \<Rightarrow> string list \<Rightarrow> api_route \<Rightarrow>
   ('w, 'z) cs_ctx_scheme handler" where
  "run_route E bind h hc ks route rq c =
     (case route of
        RouteGet \<Rightarrow> Api_Get E h rq c
      | RouteSet \<Rightarrow> Api_Set E bind h rq c
      | RouteDelete \<Rightarrow> Api_Delete E h rq c
      | RouteExists \<Rightarrow> Api_Exists E h rq c
      | RouteHealth \<Rightarrow> (Api_Health (heap c) hc ks, c)
      | RouteHealthDetail \<Rightarrow> (Api_HealthDetail (heap c) hc ks, c)
      | RouteGetConfig \<Rightarrow> (Api_GetConfig h, c)
      | RouteMetrics \<Rightarrow> (respond 200 (MetricsBody (mtr c)), c))"

text \<open>
  The engine: the middleware in the order of \<open>main\<close>, then the route gin finds, with the
  value of its parameter \<open>key\<close>; gin answers 404 if there is none.
\<close>

definition serve ::
  "'w env \<Rightarrow> (string \<Rightarrow> go_error + SetRequest) \<Rightarrow>
   (route_table \<Rightarrow> string \<Rightarrow> string \<Rightarrow> (api_route \<times> string) option) \<Rightarrow>
   cache_handler \<Rightarrow> health_checker \<Rightarrow> string list \<Rightarrow> ('w, 'z) cs_ctx_scheme handler" where
  "serve E bind gin_match h hc ks =
     CORSMiddleware (RequestLogger E (GetRoutingHint (\<lambda>rq c.
       case gin_match (RegisterRoutes (ah_config h)) (rq_Method rq) (rq_Path rq) of
         None \<Rightarrow> (respond 404 NoBody, c)
       | Some (route, key) \<Rightarrow> run_route E bind h hc ks route (rq\<lparr>rq_Key := key\<rparr>) c)))"

end
