(* ===== verification/Logger.thy ===== *)
theory Logger
  imports Go_Prelude
begin

text \<open>
  Package \<open>internal/logger\<close>: the level and the format \<open>Init\<close> sets, and the functions that begin
  an event. Writing it is zerolog's; an event of a level is written if the level is not below the global one, by
  zerolog's order of the levels, which is the \<open>linorder\<close> given here.
\<close>

datatype log_level =
  TraceLevel | DebugLevel | InfoLevel | WarnLevel | ErrorLevel | FatalLevel | PanicLevel

text \<open>zerolog's numbers.\<close>

fun level_number :: "log_level \<Rightarrow> int" where
  "level_number TraceLevel = -1"
| "level_number DebugLevel = 0"
| "level_number InfoLevel = 1"
| "level_number WarnLevel = 2"
| "level_number ErrorLevel = 3"
| "level_number FatalLevel = 4"
| "level_number PanicLevel = 5"

lemma level_number_inj [simp]: "level_number a = level_number b \<longleftrightarrow> a = b"
  by (cases a; cases b) simp_all

instantiation log_level :: linorder
begin

definition less_eq_log_level :: "log_level \<Rightarrow> log_level \<Rightarrow> bool" where
  "a \<le> b \<longleftrightarrow> level_number a \<le> level_number b"

definition less_log_level :: "log_level \<Rightarrow> log_level \<Rightarrow> bool" where
  "a < b \<longleftrightarrow> level_number a < level_number b"

instance
  by standard (auto simp: less_eq_log_level_def less_log_level_def)

end

text \<open>
  \<open>strings.ToLower\<close>, as far as a comparison with an ASCII word can see it: besides \<open>A\<close> to \<open>Z\<close>
  two other letters have an ASCII letter as their lower case, the dotted capital I and the
  Kelvin sign.
\<close>

fun ascii_lower :: "string \<Rightarrow> string" where
  "ascii_lower [] = []"
| "ascii_lower (c # cs) =
     (if HasPrefix (c # cs) [CHR 0xC4, CHR 0xB0] then CHR ''i'' # ascii_lower (drop 1 cs)
      else if HasPrefix (c # cs) [CHR 0xE2, CHR 0x84, CHR 0xAA] then CHR ''k'' # ascii_lower (drop 2 cs)
      else lower_char c # ascii_lower cs)"

definition parseLevel :: "string \<Rightarrow> log_level" where
  "parseLevel level =
     (let l = ascii_lower level in
      if l = ''debug'' then DebugLevel
      else if l = ''info'' then InfoLevel
      else if l = ''warn'' then WarnLevel
      else if l = ''error'' then ErrorLevel
      else if l = ''fatal'' then FatalLevel
      else if l = ''panic'' then PanicLevel
      else if l = ''trace'' then TraceLevel
      else InfoLevel)"

record log_config =
  lc_level :: log_level
  lc_console :: bool

definition Logger_Init :: "string \<Rightarrow> string \<Rightarrow> log_config" where
  "Logger_Init level format = \<lparr>lc_level = parseLevel level, lc_console = (ascii_lower format = ''console'')\<rparr>"

definition log_enabled :: "log_config \<Rightarrow> log_level \<Rightarrow> bool" where
  "log_enabled cfg level \<longleftrightarrow> lc_level cfg \<le> level"

text \<open>
  An event of a level, with its fields and its message: a line of the log if the level is
  enabled. \<open>Debug\<close> and its siblings begin such an event; \<open>Fatal\<close> ends the process with status 1
  after it, also when the line is not written.
\<close>

record log_line =
  ll_level :: log_level
  ll_fields :: "(string \<times> string) list"
  ll_msg :: string

definition log_event :: "log_level \<Rightarrow> log_config \<Rightarrow> (string \<times> string) list \<Rightarrow> string \<Rightarrow> log_line list" where
  "log_event level cfg fs msg =
     (if log_enabled cfg level then [\<lparr>ll_level = level, ll_fields = fs, ll_msg = msg\<rparr>] else [])"

definition Logger_Debug :: "log_config \<Rightarrow> (string \<times> string) list \<Rightarrow> string \<Rightarrow> log_line list" where
  "Logger_Debug = log_event DebugLevel"

definition Logger_Info :: "log_config \<Rightarrow> (string \<times> string) list \<Rightarrow> string \<Rightarrow> log_line list" where
  "Logger_Info = log_event InfoLevel"

definition Logger_Warn :: "log_config \<Rightarrow> (string \<times> string) list \<Rightarrow> string \<Rightarrow> log_line list" where
  "Logger_Warn = log_event WarnLevel"

definition Logger_Error :: "log_config \<Rightarrow> (string \<times> string) list \<Rightarrow> string \<Rightarrow> log_line list" where
  "Logger_Error = log_event ErrorLevel"

definition Logger_Fatal :: "log_config \<Rightarrow> (string \<times> string) list \<Rightarrow> string \<Rightarrow> log_line list \<times> int" where
  "Logger_Fatal cfg fs msg = (log_event FatalLevel cfg fs msg, 1)"

lemmas logger_defs = Logger_Debug_def Logger_Info_def Logger_Warn_def Logger_Error_def Logger_Fatal_def log_event_def

text \<open>Every line that is written is one that was asked for, at a level that is enabled.\<close>

lemma log_event_enabled: "l \<in> set (log_event level cfg fs msg) \<Longrightarrow> log_enabled cfg (ll_level l) \<and> ll_level l = level"
  by (auto simp: log_event_def split: if_splits)

text \<open>Whatever is configured, warnings are lost only if a level above them was asked for by name.\<close>

lemma parseLevel_default:
  "ascii_lower level \<notin> {''debug'', ''info'', ''warn'', ''error'', ''fatal'', ''panic'', ''trace''} \<Longrightarrow>
   parseLevel level = InfoLevel"
  by (simp add: parseLevel_def Let_def)

lemma warnings_written:
  "ascii_lower level \<notin> {''error'', ''fatal'', ''panic''} \<Longrightarrow> log_enabled (Logger_Init level format) WarnLevel"
  by (simp add: log_enabled_def Logger_Init_def parseLevel_def less_eq_log_level_def Let_def)

lemma log_enabled_upward: "log_enabled cfg a \<Longrightarrow> a \<le> b \<Longrightarrow> log_enabled cfg b"
  by (simp add: log_enabled_def)

end
