(* ===== verification/Invalidation.thy ===== *)
theory Invalidation
  imports Externals Config Logger
begin

text \<open>
  Packages \<open>internal/pubsub\<close> and \<open>internal/gossip\<close>: how a node tells the others that a key of
  their local caches is stale. Both build a message with the sender's ID and, on receipt,
  ignore their own messages and start every subscribed handler with the key. The Redis
  client is that of the environment; memberlist is the record \<open>peers\<close>. The JSON coding of a
  message is an argument, and the properties assume of it only that a message of ASCII
  texts (Go replaces what is not valid UTF-8) and of a time of this century or the next ones
  up to the year 9999 is read back. What both promise is the locale
  \<open>invalidation_bus\<close>, interpreted on both.
\<close>

section \<open>Messages\<close>

record InvalidationMessage =
  im_Key :: string
  im_NodeID :: string
  im_Timestamp :: instant
  im_Type :: string

record GossipMessage =
  gm_Key :: string
  gm_NodeID :: string
  gm_Timestamp :: instant

text \<open>\<open>json.Marshal\<close> and \<open>json.Unmarshal\<close> for one type of message.\<close>

record 'm codec =
  cd_Marshal :: "'m \<Rightarrow> go_error + string"
  cd_Unmarshal :: "string \<Rightarrow> 'm option"

definition ascii :: "string \<Rightarrow> bool" where
  "ascii s \<longleftrightarrow> (\<forall>c \<in> set s. (of_char c :: nat) < 128)"

text \<open>
  The instants, in nanoseconds since 1970, that a \<open>time.Time\<close> carries through JSON in every
  time zone: its text has a year of four digits and an offset of whole minutes, so these are
  the ones from the year 2000 up to the last day of the year 9999.
\<close>

definition json_time :: "instant \<Rightarrow> bool" where
  "json_time t \<longleftrightarrow> 946684800 * Second \<le> t \<and> t < 253402214400 * Second"

definition codec_ok :: "('m \<Rightarrow> string list) \<Rightarrow> ('m \<Rightarrow> instant) \<Rightarrow> 'm codec \<Rightarrow> bool" where
  "codec_ok texts stamp C \<longleftrightarrow>
     (\<forall>m. (\<forall>s \<in> set (texts m). ascii s) \<longrightarrow> json_time (stamp m) \<longrightarrow>
       (\<exists>data. cd_Marshal C m = Inr data \<and> cd_Unmarshal C data = Some m))"

abbreviation pubsub_texts :: "InvalidationMessage \<Rightarrow> string list" where
  "pubsub_texts m \<equiv> [im_Key m, im_NodeID m, im_Type m]"

abbreviation gossip_texts :: "GossipMessage \<Rightarrow> string list" where
  "gossip_texts m \<equiv> [gm_Key m, gm_NodeID m]"

section \<open>Redis\<close>

text \<open>\<open>goredis.ParseURL\<close> gives the options of a URL, \<open>url_ok\<close> says whether it can.\<close>

datatype client_options = OptionsOfURL string | OptionsAddr string

record 'h redis_pubsub =
  ps_nodeID :: string
  ps_client :: nat
  ps_channel :: string
  ps_handlers :: "'h list"
  ps_listening :: bool
  ps_stopped :: bool

definition NewRedisPubSub ::
  "(string \<Rightarrow> bool) \<Rightarrow> (client_options \<Rightarrow> 'w \<Rightarrow> nat \<times> 'w) \<Rightarrow> string \<Rightarrow> PubSubConfig option \<Rightarrow> 'w \<Rightarrow>
   'h redis_pubsub option \<times> 'w" where
  "NewRedisPubSub url_ok new_client nodeID cfg0 w =
     (case cfg0 of
        None \<Rightarrow> (None, w)
      | Some cfg \<Rightarrow>
          if \<not> pc_Enabled cfg \<or> pc_Type cfg \<noteq> PubSubTypeRedis then (None, w)
          else
            (let opt = (if url_ok (pc_RedisURL cfg) then OptionsOfURL (pc_RedisURL cfg) else OptionsAddr ''localhost:6379'');
                 (client, w1) = new_client opt w
             in (Some \<lparr>ps_nodeID = nodeID, ps_client = client,
                       ps_channel = (if pc_Channel cfg = '''' then ''cache-invalidation'' else pc_Channel cfg),
                       ps_handlers = [], ps_listening = False, ps_stopped = False\<rparr>, w1)))"

definition PubSub_message :: "'h redis_pubsub \<Rightarrow> string \<Rightarrow> instant \<Rightarrow> InvalidationMessage" where
  "PubSub_message r key t = \<lparr>im_Key = key, im_NodeID = ps_nodeID r, im_Timestamp = t, im_Type = ''invalidate''\<rparr>"

definition PubSub_Publish ::
  "'w env \<Rightarrow> InvalidationMessage codec \<Rightarrow> 'h redis_pubsub option \<Rightarrow> string \<Rightarrow> ('w, 'z) ctx_scheme \<Rightarrow>
   go_error option \<times> ('w, 'z) ctx_scheme" where
  "PubSub_Publish E C r0 key c =
     (case r0 of
        None \<Rightarrow> (None, c)
      | Some r \<Rightarrow>
          (let (t, c1) = time_Now E c in
           case cd_Marshal C (PubSub_message r key t) of
             Inl err \<Rightarrow> (Some (ErrorWrap ''failed to marshal invalidation message: '' err), c1)
           | Inr data \<Rightarrow>
               (let ((err, _), w) = env_redis E (ps_client r) [RedisPublish (ps_channel r) data] (world c1)
                in (err, c1\<lparr>world := w\<rparr>))))"

text \<open>
  The first subscription starts the listener; \<open>received\<close> is whether the subscription to the
  channel was confirmed. A second one does not start it again.
\<close>

definition startListener :: "bool \<Rightarrow> 'h redis_pubsub \<Rightarrow> 'h redis_pubsub" where
  "startListener received r = r\<lparr>ps_listening := received\<rparr>"

definition PubSub_Subscribe :: "bool \<Rightarrow> 'h \<Rightarrow> 'h redis_pubsub option \<Rightarrow> 'h redis_pubsub option" where
  "PubSub_Subscribe received h r0 =
     (case r0 of
        None \<Rightarrow> None
      | Some r \<Rightarrow>
          (let r1 = r\<lparr>ps_handlers := ps_handlers r @ [h]\<rparr>
           in Some (if length (ps_handlers r1) = 1 then startListener received r1 else r1)))"

text \<open>
  The listener's loop for one payload: the handlers it starts, each with the key. \<open>None\<close> for
  the payload is the end of the channel.
\<close>

definition PubSub_receive ::
  "InvalidationMessage codec \<Rightarrow> string option \<Rightarrow> 'h redis_pubsub \<Rightarrow> ('h \<times> string) list \<times> 'h redis_pubsub" where
  "PubSub_receive C payload r =
     (if \<not> ps_listening r then ([], r)
      else if ps_stopped r then ([], r\<lparr>ps_listening := False\<rparr>)
      else
        (case payload of
           None \<Rightarrow> ([], r\<lparr>ps_listening := False\<rparr>)
         | Some data \<Rightarrow>
             (case cd_Unmarshal C data of
                None \<Rightarrow> ([], r)
              | Some msg \<Rightarrow>
                  if im_NodeID msg = ps_nodeID r then ([], r)
                  else (map (\<lambda>h. (h, im_Key msg)) (ps_handlers r), r))))"

text \<open>Closing twice panics (\<open>None\<close>): the channel \<open>stopChan\<close> is closed already.\<close>

definition PubSub_Close ::
  "'w env \<Rightarrow> 'h redis_pubsub option \<Rightarrow> 'w \<Rightarrow> (go_error option \<times> 'h redis_pubsub option \<times> 'w) option" where
  "PubSub_Close E r0 w =
     (case r0 of
        None \<Rightarrow> Some (None, None, w)
      | Some r \<Rightarrow>
          if ps_stopped r then None
          else
            (let (err, w1) = env_close E (ps_client r) w
             in Some (err, Some (r\<lparr>ps_stopped := True, ps_listening := False\<rparr>), w1)))"

section \<open>Gossip\<close>

record member =
  mm_Name :: string
  mm_Addr :: string

record memberlist_config =
  mlc_Name :: string
  mlc_BindAddr :: string
  mlc_BindPort :: int
  mlc_ProbeInterval :: duration
  mlc_ProbeTimeout :: duration

text \<open>memberlist: a list is made and joined, knows its members, sends, leaves.\<close>

record 'w peers =
  pe_Create :: "memberlist_config \<Rightarrow> 'w \<Rightarrow> (go_error + nat) \<times> 'w"
  pe_Join :: "nat \<Rightarrow> string list \<Rightarrow> 'w \<Rightarrow> go_error option \<times> 'w"
  pe_Members :: "nat \<Rightarrow> 'w \<Rightarrow> member list"
  pe_Send :: "nat \<Rightarrow> member \<Rightarrow> string \<Rightarrow> 'w \<Rightarrow> 'w"
  pe_Leave :: "nat \<Rightarrow> duration \<Rightarrow> 'w \<Rightarrow> go_error option \<times> 'w"

record 'h gossip =
  gp_nodeID :: string
  gp_memberlist :: nat
  gp_handlers :: "'h list"
  gp_stopped :: bool

definition Gossip_config :: "string \<Rightarrow> GossipConfig \<Rightarrow> memberlist_config" where
  "Gossip_config nodeID cfg =
     \<lparr>mlc_Name = nodeID,
      mlc_BindAddr = (if gc_BindAddr cfg = '''' then ''0.0.0.0'' else gc_BindAddr cfg),
      mlc_BindPort = (if gc_BindPort cfg = 0 then 7946 else gc_BindPort cfg),
      mlc_ProbeInterval = ParseDuration (gc_ProbeInterval cfg) (1 * Second),
      mlc_ProbeTimeout = ParseDuration (gc_ProbeTimeout cfg) (500 * Millisecond)\<rparr>"

definition Gossip_New ::
  "'w peers \<Rightarrow> string \<Rightarrow> GossipConfig option \<Rightarrow> 'w \<Rightarrow> (go_error + 'h gossip option) \<times> 'w" where
  "Gossip_New P nodeID cfg0 w =
     (case cfg0 of
        None \<Rightarrow> (Inr None, w)
      | Some cfg \<Rightarrow>
          if \<not> gc_Enabled cfg then (Inr None, w)
          else
            (let (r, w1) = pe_Create P (Gossip_config nodeID cfg) w in
             case r of
               Inl err \<Rightarrow> (Inl (ErrorWrap ''failed to create memberlist: '' err), w1)
             | Inr ml \<Rightarrow>
                 (Inr (Some \<lparr>gp_nodeID = nodeID, gp_memberlist = ml, gp_handlers = [], gp_stopped = False\<rparr>),
                  if gc_SeedNodes cfg \<noteq> [] then snd (pe_Join P ml (gc_SeedNodes cfg) w1) else w1)))"

text \<open>The metadata of a node, cut at the limit memberlist sets; \<open>meta\<close> is its JSON text.\<close>

definition NodeMeta :: "(string \<Rightarrow> string) \<Rightarrow> 'h gossip \<Rightarrow> nat \<Rightarrow> string" where
  "NodeMeta meta g limit =
     (let data = meta (gp_nodeID g) in if limit < length data then take limit data else data)"

definition NotifyMsg :: "GossipMessage codec \<Rightarrow> string \<Rightarrow> 'h gossip \<Rightarrow> ('h \<times> string) list" where
  "NotifyMsg C data g =
     (case cd_Unmarshal C data of
        None \<Rightarrow> []
      | Some msg \<Rightarrow>
          if gm_NodeID msg = gp_nodeID g then [] else map (\<lambda>h. (h, gm_Key msg)) (gp_handlers g))"

definition GetBroadcasts :: "int \<Rightarrow> int \<Rightarrow> string list" where
  "GetBroadcasts overhead limit = []"

definition LocalState :: "bool \<Rightarrow> string" where
  "LocalState join = []"

definition MergeRemoteState :: "string \<Rightarrow> bool \<Rightarrow> 'h gossip \<Rightarrow> 'h gossip" where
  "MergeRemoteState buf join g = g"

text \<open>The event delegate and the writer given to memberlist for its log: they only log.\<close>

definition NotifyJoin :: "log_config \<Rightarrow> member \<Rightarrow> log_line list" where
  "NotifyJoin cfg node = Logger_Info cfg [(''node'', mm_Name node), (''addr'', mm_Addr node)] ''Node joined cluster''"

definition NotifyLeave :: "log_config \<Rightarrow> member \<Rightarrow> log_line list" where
  "NotifyLeave cfg node = Logger_Warn cfg [(''node'', mm_Name node), (''addr'', mm_Addr node)] ''Node left cluster''"

definition NotifyUpdate :: "log_config \<Rightarrow> member \<Rightarrow> log_line list" where
  "NotifyUpdate cfg node = Logger_Info cfg [(''node'', mm_Name node), (''addr'', mm_Addr node)] ''Node updated''"

definition loggerWriter_Write :: "log_config \<Rightarrow> string \<Rightarrow> log_line list \<times> (go_error + int)" where
  "loggerWriter_Write cfg p = (Logger_Debug cfg [(''component'', ''memberlist'')] p, Inr (int (length p)))"

text \<open>A node that leaves is in the log whatever level up to \<open>warn\<close> is configured.\<close>

lemma leave_logged:
  "ascii_lower level \<notin> {''error'', ''fatal'', ''panic''} \<Longrightarrow> NotifyLeave (Logger_Init level format) node \<noteq> []"
  using warnings_written [of level format] by (simp add: NotifyLeave_def logger_defs)

definition Gossip_message :: "'h gossip \<Rightarrow> string \<Rightarrow> instant \<Rightarrow> GossipMessage" where
  "Gossip_message g key t = \<lparr>gm_Key = key, gm_NodeID = gp_nodeID g, gm_Timestamp = t\<rparr>"

fun send_members :: "'w peers \<Rightarrow> 'h gossip \<Rightarrow> string \<Rightarrow> member list \<Rightarrow> 'w \<Rightarrow> 'w" where
  "send_members P g data [] w = w"
| "send_members P g data (m # ms) w =
     (if mm_Name m = gp_nodeID g then send_members P g data ms w
      else send_members P g data ms (pe_Send P (gp_memberlist g) m data w))"

definition Gossip_Publish ::
  "'w env \<Rightarrow> 'w peers \<Rightarrow> GossipMessage codec \<Rightarrow> 'h gossip option \<Rightarrow> string \<Rightarrow> ('w, 'z) ctx_scheme \<Rightarrow>
   go_error option \<times> ('w, 'z) ctx_scheme" where
  "Gossip_Publish E P C g0 key c =
     (case g0 of
        None \<Rightarrow> (None, c)
      | Some g \<Rightarrow>
          (let (t, c1) = time_Now E c in
           case cd_Marshal C (Gossip_message g key t) of
             Inl err \<Rightarrow> (Some (ErrorWrap ''failed to marshal gossip message: '' err), c1)
           | Inr data \<Rightarrow>
               (None, c1\<lparr>world := send_members P g data (pe_Members P (gp_memberlist g) (world c1)) (world c1)\<rparr>)))"

definition Gossip_Subscribe :: "'h \<Rightarrow> 'h gossip option \<Rightarrow> 'h gossip option" where
  "Gossip_Subscribe h g0 = map_option (\<lambda>g. g\<lparr>gp_handlers := gp_handlers g @ [h]\<rparr>) g0"

definition Gossip_Close ::
  "'w peers \<Rightarrow> 'h gossip option \<Rightarrow> 'w \<Rightarrow> (go_error option \<times> 'h gossip option \<times> 'w) option" where
  "Gossip_Close P g0 w =
     (case g0 of
        None \<Rightarrow> Some (None, None, w)
      | Some g \<Rightarrow>
          if gp_stopped g then None
          else
            (let (err, w1) = pe_Leave P (gp_memberlist g) (5 * Second) w
             in Some (err, Some (g\<lparr>gp_stopped := True\<rparr>), w1)))"

definition Gossip_Members :: "'w peers \<Rightarrow> 'h gossip option \<Rightarrow> 'w \<Rightarrow> string list" where
  "Gossip_Members P g0 w =
     (case g0 of
        None \<Rightarrow> []
      | Some g \<Rightarrow> map (\<lambda>m. mm_Name m @ '' ('' @ mm_Addr m @ '')'') (pe_Members P (gp_memberlist g) w))"

section \<open>The interface\<close>

text \<open>
  A bus: a payload that reads back as a node's announcement of a key, received by a node
  that listens, starts all the handlers of that node with the key, unless it is the node's
  own. Whatever is received starts only handlers of the node.
\<close>

locale invalidation_bus =
  fixes node_of :: "'n \<Rightarrow> string"
    and handlers_of :: "'n \<Rightarrow> 'h list"
    and listens :: "'n \<Rightarrow> bool"
    and announces :: "'n \<Rightarrow> string \<Rightarrow> instant \<Rightarrow> string \<Rightarrow> bool"
    and receive :: "'n \<Rightarrow> string \<Rightarrow> ('h \<times> string) list"
  assumes own_ignored: "announces a key t data \<Longrightarrow> node_of n = node_of a \<Longrightarrow> receive n data = []"
    and others_start: "announces a key t data \<Longrightarrow> node_of n \<noteq> node_of a \<Longrightarrow> listens n \<Longrightarrow>
      receive n data = map (\<lambda>h. (h, key)) (handlers_of n)"
    and only_handlers: "(h, key) \<in> set (receive n data) \<Longrightarrow> h \<in> set (handlers_of n)"
begin

text \<open>What one announcement starts in a cluster that all receive it.\<close>

definition started :: "'n list \<Rightarrow> string \<Rightarrow> (string \<times> 'h \<times> string) list" where
  "started ns data = concat (map (\<lambda>n. map (\<lambda>(h, k). (node_of n, h, k)) (receive n data)) ns)"

lemma started_exactly:
  assumes "announces a key t data" "\<forall>n \<in> set ns. listens n"
  shows "started ns data =
    concat (map (\<lambda>n. map (\<lambda>h. (node_of n, h, key)) (handlers_of n)) (filter (\<lambda>n. node_of n \<noteq> node_of a) ns))"
  using assms(2)
proof (induction ns)
  case Nil
  then show ?case by (simp add: started_def)
next
  case (Cons n ns)
  then show ?case
    using own_ignored [OF assms(1), of n] others_start [OF assms(1), of n]
    by (cases "node_of n = node_of a") (simp_all add: started_def comp_def)
qed

lemma nothing_else_started:
  assumes "(i, h, k) \<in> set (started ns data)"
  shows "\<exists>n \<in> set ns. node_of n = i \<and> h \<in> set (handlers_of n)"
  using assms only_handlers by (fastforce simp: started_def)

end

lemma pubsub_codecD:
  assumes "codec_ok pubsub_texts im_Timestamp C" "ascii key" "ascii (ps_nodeID r)" "json_time t"
  shows "\<exists>data. cd_Marshal C (PubSub_message r key t) = Inr data \<and>
    cd_Unmarshal C data = Some (PubSub_message r key t)"
proof -
  have "ascii ''invalidate''" by (simp add: ascii_def)
  then have "\<forall>s \<in> set (pubsub_texts (PubSub_message r key t)). ascii s"
    using assms(2,3) by (simp add: PubSub_message_def)
  moreover have "json_time (im_Timestamp (PubSub_message r key t))" using assms(4) by (simp add: PubSub_message_def)
  ultimately show ?thesis using assms(1) unfolding codec_ok_def by blast
qed

lemma gossip_codecD:
  assumes "codec_ok gossip_texts gm_Timestamp C" "ascii key" "ascii (gp_nodeID g)" "json_time t"
  shows "\<exists>data. cd_Marshal C (Gossip_message g key t) = Inr data \<and>
    cd_Unmarshal C data = Some (Gossip_message g key t)"
proof -
  have "\<forall>s \<in> set (gossip_texts (Gossip_message g key t)). ascii s"
    using assms(2,3) by (simp add: Gossip_message_def)
  moreover have "json_time (gm_Timestamp (Gossip_message g key t))" using assms(4) by (simp add: Gossip_message_def)
  ultimately show ?thesis using assms(1) unfolding codec_ok_def by blast
qed

interpretation pubsub_bus: invalidation_bus
  ps_nodeID ps_handlers "\<lambda>r. ps_listening r \<and> \<not> ps_stopped r"
  "\<lambda>r key t data. cd_Unmarshal C data = Some (PubSub_message r key t)"
  "\<lambda>r data. fst (PubSub_receive C (Some data) r)"
  for C
  by unfold_locales (auto simp: PubSub_receive_def PubSub_message_def split: if_splits option.splits)

interpretation gossip_bus: invalidation_bus
  gp_nodeID gp_handlers "\<lambda>g. True"
  "\<lambda>g key t data. cd_Unmarshal C data = Some (Gossip_message g key t)" "\<lambda>g data. NotifyMsg C data g"
  for C
  by unfold_locales (auto simp: NotifyMsg_def Gossip_message_def split: if_splits option.splits)

end
