(* ===== verification/Server.thy ===== *)
theory Server
  imports Api Invalidation Logger Load_Balancer
begin

text \<open>
  \<open>cmd/server/main.go\<close>: the node's ID, the construction of the backends from the
  configuration and the wiring of the components, and the shutdown. The constructors of the
  third-party clients and the scheduler are the record \<open>makers\<close>; \<open>main_start\<close> is \<open>main\<close> up to the
  point where it serves. Left out are serving HTTP and waiting for a signal.
\<close>

section \<open>The node's ID\<close>

definition hex_digit :: "nat \<Rightarrow> char" where
  "hex_digit n = ''0123456789abcdef'' ! (n mod 16)"

definition hex_EncodeToString :: "bytes \<Rightarrow> string" where
  "hex_EncodeToString bs = concat (map (\<lambda>b. [hex_digit (unat b div 16), hex_digit (unat b)]) bs)"

text \<open>\<open>rand_Read\<close> fills eight bytes or fails; \<open>now\<close> is the Unix time in seconds.\<close>

definition generateNodeID :: "go_error + bytes \<Rightarrow> int \<Rightarrow> string" where
  "generateNodeID rand_Read now =
     (case rand_Read of Inl _ \<Rightarrow> ''node-'' @ strconv_Itoa now | Inr b \<Rightarrow> hex_EncodeToString b)"

lemma hex_digits_inj: "a < 16 \<Longrightarrow> b < 16 \<Longrightarrow> hex_digit a = hex_digit b \<longleftrightarrow> a = b"
proof -
  assume "a < 16" "b < 16"
  moreover have "distinct ''0123456789abcdef''" by simp
  ultimately show ?thesis
    using nth_eq_iff_index_eq [of "''0123456789abcdef''" a b] by (simp add: hex_digit_def)
qed

lemma hex_digit_mod: "hex_digit n = hex_digit (n mod 16)"
  by (simp add: hex_digit_def)

lemma hex_byte_inj:
  fixes a b :: "8 word"
  assumes "hex_digit (unat a div 16) = hex_digit (unat b div 16)" "hex_digit (unat a) = hex_digit (unat b)"
  shows "a = b"
proof -
  have u: "unat a < 256" "unat b < 256"
    using unsigned_less [of a, where ?'a = nat] unsigned_less [of b, where ?'a = nat] by simp_all
  have "unat a div 16 = unat b div 16"
    using assms(1) u by (subst (asm) hex_digits_inj) auto
  moreover have "unat a mod 16 = unat b mod 16"
    using assms(2) hex_digit_mod [of "unat a"] hex_digit_mod [of "unat b"] hex_digits_inj [of "unat a mod 16" "unat b mod 16"]
    by simp
  ultimately have "unat a = unat b" by (metis div_mod_decomp)
  then show ?thesis by (rule word_unat_eq_iff [THEN iffD2])
qed

lemma hex_ascii: "c \<in> set (hex_EncodeToString bs) \<Longrightarrow> (of_char c :: nat) < 128"
proof -
  assume "c \<in> set (hex_EncodeToString bs)"
  then obtain n where "c = hex_digit n" by (auto simp: hex_EncodeToString_def)
  moreover have "n mod 16 < length ''0123456789abcdef''" by simp
  then have "''0123456789abcdef'' ! (n mod 16) \<in> set ''0123456789abcdef''" by (rule nth_mem)
  ultimately have "c \<in> set ''0123456789abcdef''" by (simp only: hex_digit_def)
  then show ?thesis by auto
qed

lemma hex_inj: "hex_EncodeToString as = hex_EncodeToString bs \<Longrightarrow> as = bs"
proof (induction as arbitrary: bs)
  case Nil
  then show ?case by (cases bs) (simp_all add: hex_EncodeToString_def)
next
  case (Cons a as)
  then obtain b bs' where bs: "bs = b # bs'" by (cases bs) (simp_all add: hex_EncodeToString_def)
  with Cons.prems have "hex_digit (unat a div 16) = hex_digit (unat b div 16)" "hex_digit (unat a) = hex_digit (unat b)"
    "hex_EncodeToString as = hex_EncodeToString bs'" by (simp_all add: hex_EncodeToString_def)
  with hex_byte_inj Cons.IH bs show ?case by simp
qed

text \<open>
  The IDs of two nodes that drew different random bytes differ, so neither takes the other's
  announcements for its own; an ID is ASCII text of two characters for each byte, which every
  coding of messages reads back. (When the random source fails, two nodes started in the same
  second get the same ID and ignore each other.)
\<close>

lemma node_ids_distinct:
  "(generateNodeID (Inr a) t = generateNodeID (Inr b) u \<longleftrightarrow> a = b) \<and>
   ascii (generateNodeID (Inr a) t) \<and> length (generateNodeID (Inr a) t) = 2 * length a \<and>
   generateNodeID (Inl e) t = generateNodeID (Inl e') t"
proof -
  have "length (hex_EncodeToString xs) = 2 * length xs" for xs
    by (induction xs) (simp_all add: hex_EncodeToString_def)
  then show ?thesis using hex_inj [of a b] hex_ascii by (auto simp: generateNodeID_def ascii_def)
qed

section \<open>Construction\<close>

record 'w makers =
  mk_cache :: "ristretto_config \<Rightarrow> 'w \<Rightarrow> (go_error + nat) \<times> 'w"
  mk_redis :: "redis_options \<Rightarrow> 'w \<Rightarrow> nat \<times> 'w"
  mk_http :: "http_client_config \<Rightarrow> 'w \<Rightarrow> nat \<times> 'w"
  mk_creds :: "string \<Rightarrow> 'w \<Rightarrow> go_error option \<times> 'w"
  mk_dial :: "string \<Rightarrow> grpc_dial_options \<Rightarrow> duration \<Rightarrow> 'w \<Rightarrow> (go_error + nat) \<times> 'w"
  mk_job :: "string \<Rightarrow> duration \<Rightarrow> 'w \<Rightarrow> (go_error + nat) \<times> 'w"

text \<open>
  The variable \<open>localCache\<close>, an interface value: nil, a nil \<open>*MemoryBackend\<close> (which is not
  equal to nil, and panics when it is called), or an object.
\<close>

datatype local_cache = LocalNil | LocalTypedNil | LocalAt bref

record 'w boot = "'w cs_ctx" +
  bo_next :: bref
  bo_backends :: "bref list"
  bo_router :: router
  bo_lb :: load_balancer
  bo_hc :: health_checker
  bo_local :: local_cache

text \<open>The constructor of a configured type; \<open>None\<close> for a type \<open>main\<close> does not know.\<close>

definition make_backend ::
  "'w makers \<Rightarrow> BackendConfig \<Rightarrow> 'w \<Rightarrow> ((go_error + backend) \<times> 'w) option" where
  "make_backend M cfg w =
     (case bc_Type cfg of
        BackendTypeMemory \<Rightarrow>
          Some (apfst (map_sum id MemoryBackend) (Memory_New (mk_cache M) (bc_ID cfg) (bc_Name cfg) (bc_Weight cfg) (bc_Memory cfg) w))
      | BackendTypeRedis \<Rightarrow>
          Some (apfst (map_sum id RedisBackend) (Redis_New (mk_redis M) (bc_ID cfg) (bc_Name cfg) (bc_Weight cfg) (bc_Redis cfg) w))
      | BackendTypeHTTP \<Rightarrow>
          Some (apfst (map_sum id HTTPBackend) (Http_New (mk_http M) (bc_ID cfg) (bc_Name cfg) (bc_Weight cfg) (bc_HTTP cfg) w))
      | BackendTypeGRPC \<Rightarrow>
          Some (apfst (map_sum id GRPCBackend)
            (Grpc_New (mk_creds M) (mk_dial M) (bc_ID cfg) (bc_Name cfg) (bc_Weight cfg) (bc_GRPC cfg) w))
      | BackendType_other _ \<Rightarrow> None)"

text \<open>A new object in the heap, in the list, the router and the load balancer.\<close>

definition enlist :: "backend \<Rightarrow> ('w, 'z) boot_scheme \<Rightarrow> ('w, 'z) boot_scheme" where
  "enlist b s =
     (let p = bo_next s; h = (heap s)(p := b)
      in s\<lparr>heap := h, bo_next := p + 1, bo_backends := bo_backends s @ [p],
           bo_router := RegisterBackend h p (bo_router s), bo_lb := LB_AddBackend h p (bo_lb s)\<rparr>)"

text \<open>What follows for a configured backend: its breaker and its health check.\<close>

definition watch_backend ::
  "'w env \<Rightarrow> 'w makers \<Rightarrow> BackendConfig \<Rightarrow> bref \<Rightarrow> ('w, 'z) boot_scheme \<Rightarrow> ('w, 'z) boot_scheme" where
  "watch_backend E M cfg p s =
     (let (_, m, s1) = GetOrCreate E (obj_ID (heap s) p) (bc_CircuitBreaker cfg) (breakers s) s;
          s2 = s1\<lparr>breakers := m\<rparr>;
          (_, hc, s3) = Health_RegisterBackend (mk_job M) p (bc_HealthCheck cfg) (bo_hc s2) s2
      in s3\<lparr>bo_hc := hc\<rparr>)"

text \<open>One turn of the loop over the configured backends; \<open>n\<close> is their number.\<close>

definition add_configured ::
  "'w env \<Rightarrow> 'w makers \<Rightarrow> nat \<Rightarrow> BackendConfig \<Rightarrow> ('w, 'z) boot_scheme \<Rightarrow> ('w, 'z) boot_scheme" where
  "add_configured E M n cfg s =
     (case make_backend M cfg (world s) of
        None \<Rightarrow> s
      | Some (r, w) \<Rightarrow>
          (let s1 = s\<lparr>world := w\<rparr>;
               is_local = (bc_Type cfg = BackendTypeMemory \<and> (bc_ID cfg = ''local'' \<or> n = 1))
           in case r of
                Inl _ \<Rightarrow> if is_local then s1\<lparr>bo_local := LocalTypedNil\<rparr> else s1
              | Inr b \<Rightarrow>
                  (let p = bo_next s1;
                       s2 = (if is_local then s1\<lparr>bo_local := LocalAt p\<rparr> else s1)
                   in watch_backend E M cfg p (enlist b s2))))"

text \<open>The default local cache, when no backend became one. A failure is fatal.\<close>

definition add_default :: "'w makers \<Rightarrow> ('w, 'z) boot_scheme \<Rightarrow> go_error + ('w, 'z) boot_scheme" where
  "add_default M s =
     (if bo_local s \<noteq> LocalNil then Inr s
      else
        (let (r, w) = Memory_New (mk_cache M) ''local'' ''Local Cache'' 1
                        (Some \<lparr>mbc_MaxCost = 2 ^ 30, mbc_NumCounters = 10000000, mbc_BufferItems = 64, mbc_DefaultTTL = ''5m''\<rparr>)
                        (world s)
         in case r of
              Inl err \<Rightarrow> Inl err
            | Inr m \<Rightarrow> Inr (enlist (MemoryBackend m) (s\<lparr>world := w, bo_local := LocalAt (bo_next s)\<rparr>))))"

text \<open>The state before the loop: \<open>w\<close> is the world, \<open>h\<close> the heap, in which no object is ours.\<close>

definition boot_start :: "health_checker \<Rightarrow> metrics \<Rightarrow> (bref \<Rightarrow> backend) \<Rightarrow> 'w \<Rightarrow> 'w boot" where
  "boot_start hc m h w =
     \<lparr>world = w, mtr = Some m, heap = h, breakers = NewCircuitBreakerManager, queue = [], batch = [],
      sleeping = [], local_sets = [], stopped = False, bo_next = 0, bo_backends = [], bo_router = Router_New,
      bo_lb = NewLoadBalancer StrategyWeighted, bo_hc = hc, bo_local = LocalNil\<rparr>"

text \<open>
  The whole start. The service is \<open>None\<close> when its local cache is the nil pointer: the calls
  it makes to it panic.
\<close>

definition boot_service :: "AppConfig \<Rightarrow> ('w, 'z) boot_scheme \<Rightarrow> cache_service option" where
  "boot_service app s =
     (case bo_local s of
        LocalNil \<Rightarrow> Some (CacheService_New (ac_Cache app) (bo_router s) None)
      | LocalTypedNil \<Rightarrow> None
      | LocalAt p \<Rightarrow> Some (CacheService_New (ac_Cache app) (bo_router s) (Some p)))"

definition boot ::
  "'w env \<Rightarrow> 'w makers \<Rightarrow> ((RoutingRule \<Rightarrow> RoutingRule \<Rightarrow> bool) \<Rightarrow> RoutingRule list \<Rightarrow> RoutingRule list) \<Rightarrow>
   go_error option \<Rightarrow> AppConfig \<Rightarrow> (bref \<Rightarrow> backend) \<Rightarrow> 'w \<Rightarrow> go_error + ('w boot \<times> cache_service option)" where
  "boot E M sorter new_scheduler app h w =
     (case HealthChecker_New new_scheduler of
        Inl err \<Rightarrow> Inl err
      | Inr hc \<Rightarrow>
          (let s = fold (add_configured E M (length (ac_Backends app))) (ac_Backends app) (boot_start hc initMetrics h w)
           in case add_default M s of
                Inl err \<Rightarrow> Inl err
              | Inr s1 \<Rightarrow>
                  (let s2 = s1\<lparr>bo_router := SetRules sorter (ac_Routing app) (bo_router s1)\<rparr>
                   in Inr (s2, boot_service app s2))))"

text \<open>The HTTP server: \<open>fmt.Sprintf("%s:%d", ...)\<close> and the three timeouts.\<close>

record http_server =
  sv_Addr :: string
  sv_ReadTimeout :: duration
  sv_WriteTimeout :: duration
  sv_IdleTimeout :: duration

definition make_server :: "ServerConfig \<Rightarrow> http_server" where
  "make_server cfg =
     \<lparr>sv_Addr = sc_Host cfg @ '':'' @ strconv_Itoa (sc_Port cfg),
      sv_ReadTimeout = ParseDuration (sc_ReadTimeout cfg) (30 * Second),
      sv_WriteTimeout = ParseDuration (sc_WriteTimeout cfg) (30 * Second),
      sv_IdleTimeout = ParseDuration (sc_IdleTimeout cfg) (60 * Second)\<rparr>"

section \<open>Invalidation\<close>

text \<open>
  The two buses, with the one handler that is subscribed to each, the unit value; \<open>main\<close> goes
  on without a bus that cannot be made.
\<close>

definition boot_pubsub ::
  "(string \<Rightarrow> bool) \<Rightarrow> (client_options \<Rightarrow> 'w \<Rightarrow> nat \<times> 'w) \<Rightarrow> bool \<Rightarrow> string \<Rightarrow> AppConfig \<Rightarrow> 'w \<Rightarrow>
   unit redis_pubsub option \<times> 'w" where
  "boot_pubsub url_ok new_client received nodeID app w =
     (let (ps, w1) = NewRedisPubSub url_ok new_client nodeID (Some (ac_PubSub app)) w
      in (if ps \<noteq> None then PubSub_Subscribe received () ps else None, w1))"

definition boot_gossip ::
  "'w peers \<Rightarrow> string \<Rightarrow> AppConfig \<Rightarrow> 'w \<Rightarrow> unit gossip option \<times> 'w" where
  "boot_gossip P nodeID app w =
     (let (r, w1) = Gossip_New P nodeID (Some (ac_Gossip app)) w
      in (case r of Inl err \<Rightarrow> None | Inr gp \<Rightarrow> if gp \<noteq> None then Gossip_Subscribe () gp else None, w1))"

lemma boot_pubsub_node:
  "boot_pubsub url_ok new_client received nodeID app w = (Some r, w1) \<Longrightarrow>
   pc_Enabled (ac_PubSub app) \<and> ps_nodeID r = nodeID \<and> ps_handlers r = [()] \<and> ps_listening r = received \<and> \<not> ps_stopped r"
  by (auto simp: boot_pubsub_def NewRedisPubSub_def PubSub_Subscribe_def startListener_def Let_def
      split: if_splits prod.splits)

lemma boot_gossip_node:
  "boot_gossip P nodeID app w = (Some g, w1) \<Longrightarrow>
   gc_Enabled (ac_Gossip app) \<and> gp_nodeID g = nodeID \<and> gp_handlers g = [()] \<and> \<not> gp_stopped g"
  by (auto simp: boot_gossip_def Gossip_New_def Gossip_Subscribe_def Let_def split: if_splits prod.splits sum.splits)

text \<open>The handler \<open>main\<close> subscribes with both buses, and a list of started handlers as they run.\<close>

definition run_invalidations ::
  "'w env \<Rightarrow> cache_service \<Rightarrow> (unit \<times> string) list \<Rightarrow> ('w, 'z) cs_ctx_scheme \<Rightarrow> ('w, 'z) cs_ctx_scheme" where
  "run_invalidations E cs calls c = fold (\<lambda>(_, key). InvalidateLocal E cs key) calls c"

section \<open>The whole start\<close>

text \<open>
  What \<open>main\<close> gets from the process and from libraries: the arguments, viper, the random
  source and the clock for the node's ID, the constructors of the scheduler and of the
  Redis client, and memberlist.
\<close>

record ('f, 'w) host =
  ho_args :: "string list"
  ho_viper :: "('f, 'w) viper_ops"
  ho_rand :: "go_error + bytes"
  ho_unix :: int
  ho_scheduler :: "go_error option"
  ho_url_ok :: "string \<Rightarrow> bool"
  ho_client :: "client_options \<Rightarrow> 'w \<Rightarrow> nat \<times> 'w"
  ho_received :: bool
  ho_peers :: "'w peers"

definition config_path :: "string list \<Rightarrow> string" where
  "config_path args = (case args of _ # p # _ \<Rightarrow> p | _ \<Rightarrow> ''configs/config.yaml'')"

text \<open>The two ends of a start that fails, both with status 1, and what a start leaves.\<close>

datatype start_failure = LoadFailed go_error | StartFailed go_error

record 'w node =
  no_id :: string
  no_config :: AppConfig
  no_log :: log_config
  no_state :: "'w boot"
  no_service :: "cache_service option"
  no_pubsub :: "unit redis_pubsub option"
  no_gossip :: "unit gossip option"
  no_debug :: bool
  no_server :: http_server

definition main_start ::
  "'w env \<Rightarrow> 'w makers \<Rightarrow> ((RoutingRule \<Rightarrow> RoutingRule \<Rightarrow> bool) \<Rightarrow> RoutingRule list \<Rightarrow> RoutingRule list) \<Rightarrow>
   ('f, 'w) host \<Rightarrow> (bref \<Rightarrow> backend) \<Rightarrow> config_vars \<Rightarrow> 'w \<Rightarrow> (start_failure + 'w node) \<times> config_vars" where
  "main_start E M sorter H h v w =
     (let (loaded, v') = Config_Load (ho_viper H) (config_path (ho_args H)) v w in
      case loaded of
        Inl err \<Rightarrow> (Inl (LoadFailed err), v')
      | Inr inst \<Rightarrow>
          (let app = the inst;
               log = Logger_Init (ac_LogLevel app) (ac_LogFormat app);
               nodeID = generateNodeID (ho_rand H) (ho_unix H)
           in case boot E M sorter (ho_scheduler H) app h w of
                Inl err \<Rightarrow> (Inl (StartFailed err), v')
              | Inr (s, cs) \<Rightarrow>
                  (let (ps, w1) = boot_pubsub (ho_url_ok H) (ho_client H) (ho_received H) nodeID app (world s);
                       (gp, w2) = boot_gossip (ho_peers H) nodeID app w1
                   in (Inr \<lparr>no_id = nodeID, no_config = app, no_log = log, no_state = s\<lparr>world := w2\<rparr>,
                            no_service = cs, no_pubsub = ps, no_gossip = gp, no_debug = (ac_LogLevel app = ''debug''),
                            no_server = make_server (ac_Server app)\<rparr>, v'))))"

text \<open>
  The goroutine that serves: it ends the process with status 1 if \<open>ListenAndServe\<close> fails,
  other than because \<open>Shutdown\<close> was called.
\<close>

definition listen_exit :: "go_error \<Rightarrow> go_error option \<Rightarrow> int option" where
  "listen_exit ErrServerClosed result =
     (case result of None \<Rightarrow> None | Some err \<Rightarrow> if err = ErrServerClosed then None else Some 1)"

section \<open>Shutdown\<close>

text \<open>
  After the server has stopped \<open>main\<close> closes the backends, in their order; only then the
  deferred calls run, the last one first: the gossip, the Pub/Sub client, the cache service
  (which flushes its queue), the health checker.
\<close>

fun close_backends :: "'w env \<Rightarrow> bref list \<Rightarrow> ('w, 'z) heap_ctx_scheme \<Rightarrow> ('w, 'z) heap_ctx_scheme" where
  "close_backends E [] c = c"
| "close_backends E (p # ps) c = (let (_, w) = Backend_Close E (heap c p) (world c) in close_backends E ps (c\<lparr>world := w\<rparr>))"

definition shutdown ::
  "'w env \<Rightarrow> 'w peers \<Rightarrow> unit gossip option \<Rightarrow> unit redis_pubsub option \<Rightarrow> cache_service \<Rightarrow> bref list \<Rightarrow>
   ('w, 'z) cs_ctx_scheme \<Rightarrow> ('w, 'z) cs_ctx_scheme option" where
  "shutdown E P g r cs ps c =
     (let c1 = close_backends E ps c in
      case Gossip_Close P g (world c1) of
        None \<Rightarrow> None
      | Some (_, _, w2) \<Rightarrow>
          (case PubSub_Close E r w2 of
             None \<Rightarrow> None
           | Some (_, _, w3) \<Rightarrow> Some (CacheService_Close E cs (c1\<lparr>world := w3\<rparr>))))"

end
