(* ===== verification/Api_Properties.thy ===== *)
theory Api_Properties
  imports Api Worker_Properties
begin

text \<open>
  What the HTTP API promises over the service: the status and the body of each answer, what
  a rejected request leaves alone, how the TTL of a request arrives, what the health
  reports say, and what the middleware adds.
\<close>

section \<open>A sample\<close>

text \<open>A request and a configuration the witnesses run on.\<close>

definition sample_request :: gin_request where
  "sample_request =
     \<lparr>rq_Method = ''GET'', rq_Path = ''/api/v1/cache/k'', rq_Key = ''k'', rq_Query = (\<lambda>_. []), rq_RoutingHint = '''',
      rq_Body = ''''\<rparr>"

definition sample_app_config :: AppConfig where
  "sample_app_config =
     \<lparr>ac_Server = \<lparr>sc_Host = ''0.0.0.0'', sc_Port = 8080, sc_ReadTimeout = '''', sc_WriteTimeout = '''', sc_IdleTimeout = ''''\<rparr>,
      ac_Cache = \<lparr>cc_DefaultMode = ReadWriteModeCacheAside, cc_DefaultTTL = '''', cc_MaxValueSize = 4, cc_EnableVersioning = True\<rparr>,
      ac_Metrics = \<lparr>mc_Enabled = True, mc_Path = ''''\<rparr>, ac_Backends = [], ac_Routing = sample_rules,
      ac_PubSub = \<lparr>pc_Enabled = False, pc_Type = PubSubTypeRedis, pc_RedisURL = '''', pc_NATSURL = '''', pc_Channel = ''''\<rparr>,
      ac_Gossip = \<lparr>gc_Enabled = False, gc_BindAddr = '''', gc_BindPort = 0, gc_SeedNodes = [], gc_ProbeInterval = '''', gc_ProbeTimeout = ''''\<rparr>,
      ac_LogLevel = ''info'', ac_LogFormat = ''json''\<rparr>"

definition sample_handler :: cache_handler where
  "sample_handler = \<lparr>ah_service = sample_service None, ah_config = sample_app_config\<rparr>"

section \<open>Statuses\<close>

lemma error_status [simp]: "rs_Status (api_error code t m) = code" "rs_Status (respond code b) = code"
  by (simp_all add: api_error_def respond_def)

lemma error_body [simp]:
  "rs_Body (api_error code t m) = ErrorBody \<lparr>er_Code = code, er_Message = m, er_Type = t\<rparr>"
  "rs_Body (respond code b) = b"
  by (simp_all add: api_error_def respond_def)

lemma write_failed_status:
  "rs_Status (write_failed err v) =
     (if v \<and> errors_Is err ErrVersionMismatch then 409 else if errors_Is err ErrBackendUnhealthy then 503 else 500)"
  by (simp add: write_failed_def)

lemma read_failed_status:
  "rs_Status (read_failed err) =
     (if errors_Is err ErrKeyNotFound then 404 else if errors_Is err ErrVersionMismatch then 409
      else if errors_Is err ErrBackendUnhealthy then 503 else 500)"
  by (simp add: read_failed_def write_failed_status)

lemmas failed_status = write_failed_status read_failed_status

text \<open>
  The answer to a read tells what the service found. It is 200 exactly when the service
  returned an entry; the body then names the key asked, its value decodes to the entry's
  bytes, and its TTL is 0. It is 404 exactly when the key is missing, and 503 exactly when
  no backend could be asked (or the last one failed as unhealthy).
\<close>

theorem get_answer:
  assumes "rq_Key rq \<noteq> ''''" "CacheService_Get E (ah_service h) (rq_Key rq) (Some (get_options_of rq)) c = (r, c1)"
    "Api_Get E h rq c = (rs, c')"
  shows "c' = c1 \<and>
    (rs_Status rs = 200 \<longleftrightarrow> (\<exists>e. r = Inr e)) \<and>
    (\<forall>e. r = Inr e \<longrightarrow> (\<exists>g. rs_Body rs = GetBody g \<and> gr_Key g = rq_Key rq \<and>
       b64_decode (gr_Value g) = Some (entry_Value e) \<and> gr_Version g = entry_Version e \<and> gr_TTL g = 0)) \<and>
    (rs_Status rs = 404 \<longleftrightarrow> (\<exists>err. r = Inl err \<and> errors_Is err ErrKeyNotFound)) \<and>
    (rs_Status rs = 503 \<longleftrightarrow> (\<exists>err. r = Inl err \<and> errors_Is err ErrBackendUnhealthy \<and>
       \<not> errors_Is err ErrKeyNotFound \<and> \<not> errors_Is err ErrVersionMismatch))"
proof (cases r)
  case (Inl err)
  with assms show ?thesis by (auto simp: Api_Get_def failed_status split: if_splits)
next
  case (Inr e)
  have "whole_seconds 0 = 0" by (simp add: whole_seconds_def)
  with Inr assms get_entry_facts [of E "ah_service h" "rq_Key rq" "Some (get_options_of rq)" c e c1] show ?thesis
    by (auto simp: Api_Get_def)
qed

lemma get_answer_witness:
  "snd (Api_Get sim_env sample_handler sample_request sample_cs_ctx) =
   snd (CacheService_Get sim_env (sample_service None) ''k'' (Some (get_options_of sample_request)) sample_cs_ctx)"
proof -
  obtain r c1 where g: "CacheService_Get sim_env (ah_service sample_handler) (rq_Key sample_request)
      (Some (get_options_of sample_request)) sample_cs_ctx = (r, c1)" by fastforce
  obtain rs c' where a: "Api_Get sim_env sample_handler sample_request sample_cs_ctx = (rs, c')" by fastforce
  have "rq_Key sample_request \<noteq> ''''" by (simp add: sample_request_def)
  from get_answer [OF this g a] g a show ?thesis by (simp add: sample_handler_def sample_request_def)
qed

lemma exists_in_stub: "exists_in E h key bs found c = (found, c)"
  by (induction bs) (simp_all add: getBackendByID_def)

text \<open>
  \<open>HEAD /cache/:key\<close> never finds a key. Whatever is stored, cached or configured, it
  answers 404 without asking any backend, because the lookup of a backend by its ID is a
  stub.
\<close>

theorem exists_always_missing:
  "Api_Exists E h rq c = (respond (if rq_Key rq = '''' then 400 else 404) NoBody, c)"
  by (simp add: Api_Exists_def exists_in_stub)

text \<open>
  C37: a request answered with 400 had no effect: a read or delete without a key, a write
  whose body does not decode or whose value is not base64 reaches neither the service nor
  the metrics. A write is answered with 400 for no other reason.
\<close>

theorem bad_request_no_effect:
  "(rs_Status (fst (Api_Get E h rq c)) = 400 \<longrightarrow> snd (Api_Get E h rq c) = c) \<and>
   (rs_Status (fst (Api_Delete E h rq c)) = 400 \<longrightarrow> snd (Api_Delete E h rq c) = c) \<and>
   (rs_Status (fst (Api_Set E bind h rq c)) = 400 \<longrightarrow> snd (Api_Set E bind h rq c) = c) \<and>
   (rs_Status (fst (Api_Set E bind h rq c)) = 400 \<longleftrightarrow>
      (\<forall>req. bind (rq_Body rq) = Inr req \<longrightarrow> b64_decode (sr_Value req) = None))"
  by (auto simp: Api_Get_def Api_Delete_def Api_Set_def Let_def failed_status
      split: sum.splits option.splits prod.splits)

lemma bad_request_no_effect_witness:
  "snd (Api_Set sim_env (\<lambda>_. Inr \<lparr>sr_Key = ''k'', sr_Value = ''???'', sr_Version = 0, sr_TTL = 0\<rparr>)
      sample_handler sample_request sample_cs_ctx) = sample_cs_ctx"
proof -
  let ?bind = "\<lambda>_. Inr \<lparr>sr_Key = ''k'', sr_Value = ''???'', sr_Version = 0, sr_TTL = 0\<rparr>"
  have "b64_decode ''???'' = None" by (simp add: b64_decode_def newline_def)
  with bad_request_no_effect [of sim_env sample_handler sample_request sample_cs_ctx ?bind]
  show ?thesis by simp
qed

section \<open>The TTL of a request\<close>

text \<open>
  C38: the TTL a client gives in seconds is kept up to 9223372036 (and 0 or a negative one
  means the default). A larger one overflows the nanoseconds: up to 18446744073 the product
  is negative and the entry silently gets the default TTL of the service instead.
\<close>

theorem ttl_kept_or_default:
  assumes "in_int64 n"
  shows "getTTL d [request_ttl n, request_ttl n] =
      (if n \<le> 0 then d
       else if n \<le> 9223372036 then n * Second
       else if n \<le> 18446744073 then d
       else if 0 < wrap64 (n * Second) then wrap64 (n * Second) else d)"
proof -
  have pos: "request_ttl n = n * Second" if "0 < n" "n \<le> 9223372036"
    using that wrap64_id [of "n * Second"] by (simp add: request_ttl_def in_int64_def)
  have neg: "wrap64 (n * Second) < 0" if n: "9223372036 < n" "n \<le> 18446744073"
  proof -
    let ?x = "n * Second - 2 ^ 64"
    have x: "- (2 ^ 63) \<le> ?x" "?x < 0" using n by simp_all
    then have "wrap64 ?x = ?x" by (intro wrap64_id) (simp add: in_int64_def)
    moreover have "wrap64 ?x = wrap64 (n * Second)"
      unfolding wrap64_def by (rule signed_take_bit_eq_iff_take_bit_eq [THEN iffD2]) (simp add: take_bit_eq_mod)
    ultimately show ?thesis using x by simp
  qed
  have big: "0 < n \<Longrightarrow> request_ttl n = wrap64 (n * Second)" by (simp add: request_ttl_def)
  show ?thesis
    using pos neg big by (auto simp: request_ttl_def)
qed

lemma ttl_kept_or_default_witness: "getTTL 7 [request_ttl 9223372037, request_ttl 9223372037] = 7"
  using ttl_kept_or_default [of 9223372037 7] by (simp add: in_int64_def)

section \<open>Health reports\<close>

lemma overall_healthy: "overall m ks = ''healthy'' \<longleftrightarrow> (\<forall>i \<in> set ks. \<forall>s. m i = Some s \<longrightarrow> hs_Healthy s)"
  by (induction ks) (auto split: option.splits)

lemma overall_cases: "overall m ks \<in> {''healthy'', ''degraded''}"
  by (induction ks) (auto split: option.splits)

lemma overall_all_eq: "overall_all status m ks = (if overall m ks = ''healthy'' then status else ''degraded'')"
  by (induction ks arbitrary: status) (auto split: option.splits)

text \<open>
  Both health reports say \<open>healthy\<close> exactly when every registered backend's health flag
  is up, and \<open>degraded\<close> otherwise, in whatever order the map is ranged over; the detailed one
  lists exactly the registered backends, each with the flag the router reads.
\<close>

theorem health_reports:
  assumes "key_order ks (hc_backends hc)" "key_order ks' (hc_backends hc)"
  shows "\<exists>status details.
    Api_Health hp hc ks = respond 200 (HealthBody \<lparr>hr_Status = status, hr_Backends = None\<rparr>) \<and>
    Api_HealthDetail hp hc ks' = respond 200 (HealthBody \<lparr>hr_Status = status, hr_Backends = Some details\<rparr>) \<and>
    dom details = dom (hc_backends hc) \<and>
    (\<forall>i st. hc_backends hc i = Some st \<longrightarrow> map_option hd_healthy (details i) = Some (obj_Healthy hp (he_backend st))) \<and>
    status = (if \<forall>i st. hc_backends hc i = Some st \<longrightarrow> obj_Healthy hp (he_backend st) then ''healthy'' else ''degraded'')"
proof -
  let ?m = "GetAllHealthStatus hp hc"
  let ?up = "\<forall>i st. hc_backends hc i = Some st \<longrightarrow> obj_Healthy hp (he_backend st)"
  have m: "?m i = None \<longleftrightarrow> hc_backends hc i = None" for i
    by (simp add: GetAllHealthStatus_def GetHealthStatus_def split: option.splits)
  have flag: "hc_backends hc i = Some st \<Longrightarrow> ?m i = Some s \<Longrightarrow> hs_Healthy s = obj_Healthy hp (he_backend st)" for i st s
    by (auto simp: GetAllHealthStatus_def GetHealthStatus_def)
  have up: "overall ?m qs = ''healthy'' \<longleftrightarrow> ?up" if "key_order qs (hc_backends hc)" for qs
  proof -
    have "i \<in> set qs \<longleftrightarrow> hc_backends hc i \<noteq> None" for i using key_orderD [OF that] .
    then show ?thesis
      unfolding overall_healthy using m flag by (metis not_None_eq option.sel)
  qed
  have st: "overall ?m qs = (if ?up then ''healthy'' else ''degraded'')" if "key_order qs (hc_backends hc)" for qs
    using up [OF that] overall_cases [of ?m qs] by auto
  have "dom (map_option detail_of \<circ> ?m) = dom (hc_backends hc)"
    using m by (auto simp: dom_def)
  moreover have "map_option hd_healthy ((map_option detail_of \<circ> ?m) i) = Some (obj_Healthy hp (he_backend st))"
    if "hc_backends hc i = Some st" for i st
    using that by (simp add: GetAllHealthStatus_def GetHealthStatus_def detail_of_def)
  ultimately show ?thesis
    unfolding Api_Health_def Api_HealthDetail_def overall_all_eq
    by (intro exI [of _ "if ?up then ''healthy'' else ''degraded''"] exI [of _ "map_option detail_of \<circ> ?m"])
      (use st [OF assms(1)] st [OF assms(2)] in auto)
qed

lemma health_reports_witness:
  "\<exists>d. Api_Health sample_heap \<lparr>hc_backends = Map.empty, hc_evicted = {}\<rparr> [] =
     respond 200 (HealthBody \<lparr>hr_Status = ''healthy'', hr_Backends = d\<rparr>)"
proof -
  let ?hc = "\<lparr>hc_backends = Map.empty, hc_evicted = {}\<rparr>"
  have "key_order [] (hc_backends ?hc)" by (simp add: key_order_def)
  from health_reports [OF this this, of sample_heap] show ?thesis by auto
qed

section \<open>Middleware\<close>

text \<open>
  Every answer of the engine carries the CORS headers. A preflight request is answered
  with 204 and changes nothing, whatever its path. For any other request a routing hint in
  the header replaces the one of the query, and leaves the other query values alone; the
  status and the body are those of the route gin finds.
\<close>

theorem middleware_adds:
  "set cors_headers \<subseteq> set (rs_Headers (fst (serve E bind gin_match h hc ks rq c))) \<and>
   (if rq_Method rq = ''OPTIONS''
    then serve E bind gin_match h hc ks rq c = (\<lparr>rs_Status = 204, rs_Headers = cors_headers, rs_Body = NoBody\<rparr>, c)
    else
      let rq' = (if rq_RoutingHint rq = '''' then rq
                 else rq\<lparr>rq_Query := (rq_Query rq)(''hint'' := [rq_RoutingHint rq])\<rparr>);
          rs = fst (serve E bind gin_match h hc ks rq c);
          c1 = snd (time_Now E c)
      in case gin_match (RegisterRoutes (ah_config h)) (rq_Method rq) (rq_Path rq) of
           None \<Rightarrow> rs_Status rs = 404
         | Some (route, key) \<Rightarrow>
             rs_Status rs = rs_Status (fst (run_route E bind h hc ks route (rq'\<lparr>rq_Key := key\<rparr>) c1)) \<and>
             rs_Body rs = rs_Body (fst (run_route E bind h hc ks route (rq'\<lparr>rq_Key := key\<rparr>) c1)))"
  by (simp add: serve_def CORSMiddleware_def RequestLogger_def GetRoutingHint_def query_set_def respond_def Let_def
      split: option.splits prod.splits)

end
