(* ===== verification/Server_Properties.thy ===== *)
theory Server_Properties
  imports Server Api_Properties Health_Properties
begin

text \<open>
  What the wiring establishes: the invariants the properties of the components assume hold
  after every successful start, the routing hints are never configured, and the shutdown
  closes the backends before the queue is flushed.
\<close>

section \<open>After the start\<close>

text \<open>The state in the loop over the configured backends.\<close>

definition boot_ok :: "('w, 'z) boot_scheme \<Rightarrow> bool" where
  "boot_ok s \<longleftrightarrow>
     router_ok (heap s) (bo_router s) \<and> snd ` set (r_backends (bo_router s)) \<subseteq> set (bo_backends s) \<and>
     set (lb_backends (bo_lb s)) \<subseteq> set (bo_backends s) \<and>
     (\<forall>p \<in> set (bo_backends s). p < bo_next s \<and> obj_Healthy (heap s) p) \<and>
     manager_ok (breakers s) \<and> all_closed (breakers s) \<and>
     checker_ok (bo_hc s) \<and> hc_evicted (bo_hc s) = {} \<and>
     (\<forall>i st. hc_backends (bo_hc s) i = Some st \<longrightarrow> he_backend st \<in> set (bo_backends s)) \<and>
     (\<forall>p. bo_local s = LocalAt p \<longrightarrow> p \<in> set (bo_backends s) \<and> (\<exists>m. heap s p = MemoryBackend m)) \<and>
     queue s = [] \<and> batch s = [] \<and> sleeping s = [] \<and> local_sets s = [] \<and> \<not> stopped s \<and>
     r_hintRoutes (bo_router s) = []"

lemma router_ok_fresh:
  assumes "router_ok h r" "p \<notin> snd ` set (r_backends r)"
  shows "router_ok (h(p := b)) r"
proof -
  have "obj_ID (h(p := b)) q = i" if "(i, q) \<in> set (r_backends r)" for i q
  proof -
    have "q \<noteq> p" using assms(2) that by force
    then show ?thesis using assms(1) that by (auto simp: router_ok_def obj_ID_def)
  qed
  with assms(1) show ?thesis by (auto simp: router_ok_def)
qed

lemma RegisterBackend_frame:
  "r_hintRoutes (RegisterBackend h p r) = r_hintRoutes r \<and>
   snd ` set (r_backends (RegisterBackend h p r)) \<subseteq> insert p (snd ` set (r_backends r))"
  by (auto simp: RegisterBackend_def dest!: in_update)

lemma enlist_ok:
  assumes "boot_ok (s\<lparr>bo_local := l\<rparr>)" "Backend_Healthy b" "l' = l \<or> l' = LocalAt (bo_next s) \<and> (\<exists>m. b = MemoryBackend m)"
  shows "boot_ok (enlist b (s\<lparr>bo_local := l'\<rparr>))"
proof -
  let ?p = "bo_next s" and ?h = "(heap s)(bo_next s := b)"
  have new: "?p \<notin> set (bo_backends s)" using assms(1) by (auto simp: boot_ok_def)
  have r: "router_ok ?h (RegisterBackend ?h ?p (bo_router s))"
    using assms(1) new by (intro router_ok_Register router_ok_fresh) (auto simp: boot_ok_def)
  have lb: "set (lb_backends (LB_AddBackend ?h ?p (bo_lb s))) \<subseteq> insert ?p (set (lb_backends (bo_lb s)))"
    by (auto simp: LB_AddBackend_def)
  show ?thesis
    using assms new r lb RegisterBackend_frame [of ?h ?p "bo_router s"]
    by (auto simp: boot_ok_def enlist_def Let_def obj_Healthy_def less_Suc_eq)
qed

lemma make_backend_healthy:
  assumes "make_backend M cfg w = Some (Inr b, w')"
  shows "Backend_Healthy b \<and> (bc_Type cfg = BackendTypeMemory \<longrightarrow> (\<exists>m. b = MemoryBackend m))"
  using assms
  by (auto simp: make_backend_def Memory_New_def Redis_New_def Http_New_def Grpc_New_def Backend_Healthy_def Let_def
      split: BackendType.splits option.splits prod.splits sum.splits if_splits)

lemma Health_Register_cases:
  assumes "Health_RegisterBackend nj p cfg hc c = (err, hc', c')"
  shows "(c' = c \<or> (\<exists>w. c' = c\<lparr>world := w\<rparr>)) \<and>
    (hc' = hc \<or> (\<exists>i cf job. hc' = hc\<lparr>hc_backends := (hc_backends hc)(i \<mapsto> new_status p cf job)\<rparr>))"
proof (cases "hc' = hc")
  case True
  then show ?thesis
    using assms by (auto simp: Health_RegisterBackend_def Let_def split: option.splits if_splits prod.splits sum.splits)
next
  case False
  then show ?thesis
    using assms
    by (clarsimp simp: Health_RegisterBackend_def Let_def split: option.splits if_splits prod.splits sum.splits) blast
qed

lemma watch_backend_ok:
  assumes "boot_ok s" "p \<in> set (bo_backends s)" "\<forall>cb. bc_CircuitBreaker cfg = Some cb \<longrightarrow> config_in_range cb"
  shows "boot_ok (watch_backend E M cfg p s)"
proof -
  obtain cb m s1 where g: "GetOrCreate E (obj_ID (heap s) p) (bc_CircuitBreaker cfg) (breakers s) s = (cb, m, s1)"
    by (metis prod_cases3)
  have "manager_ok m" using GetOrCreate_ok [OF g] assms by (simp add: boot_ok_def)
  moreover have closed: "all_closed m"
    using g assms(1)
    by (auto simp: GetOrCreate_def Let_def all_closed_def boot_ok_def split: option.splits if_splits prod.splits)
  moreover have s1: "\<exists>w. s1 = s\<lparr>world := w\<rparr>"
  proof -
    have "s1 = s \<or> (\<exists>w. s1 = s\<lparr>world := w\<rparr>)"
      using g by (auto simp: GetOrCreate_def Let_def time_Now_def split: option.splits if_splits prod.splits)
    moreover have "s = s\<lparr>world := world s\<rparr>" by simp
    ultimately show ?thesis by metis
  qed
  ultimately have ok: "boot_ok (s1\<lparr>breakers := m\<rparr>)" using assms(1) by (elim exE) (simp add: boot_ok_def)
  obtain err hc s3 where
    h: "Health_RegisterBackend (mk_job M) p (bc_HealthCheck cfg) (bo_hc (s1\<lparr>breakers := m\<rparr>)) (s1\<lparr>breakers := m\<rparr>) = (err, hc, s3)"
    by (metis prod_cases3)
  have hc: "(s3 = s1\<lparr>breakers := m\<rparr> \<or> (\<exists>w. s3 = (s1\<lparr>breakers := m\<rparr>)\<lparr>world := w\<rparr>)) \<and>
      (hc = bo_hc s1 \<or> (\<exists>i c job. hc = bo_hc s1\<lparr>hc_backends := (hc_backends (bo_hc s1))(i \<mapsto> new_status p c job)\<rparr>))"
    using Health_Register_cases [OF h] by simp
  have "status_ok (new_status p c job) \<and> he_backend (new_status p c job) = p" for c job
    by (simp add: status_ok_def new_status_def)
  with hc ok s1 assms(2) have "checker_ok hc" "hc_evicted hc = {}"
    "\<forall>i st. hc_backends hc i = Some st \<longrightarrow> he_backend st \<in> set (bo_backends s)"
    by (auto simp: checker_ok_def boot_ok_def IsEvicted_def split: if_splits)
  moreover have "boot_ok ((s1\<lparr>breakers := m\<rparr>)\<lparr>bo_hc := hc\<rparr>)"
    using ok s1 calculation by (elim exE) (simp add: boot_ok_def)
  then have "boot_ok (s3\<lparr>bo_hc := hc\<rparr>)"
    using hc by (elim conjE disjE exE) (simp_all add: boot_ok_def)
  with g h show ?thesis by (simp add: watch_backend_def Let_def)
qed

lemma enlist_mem: "bo_next s \<in> set (bo_backends (enlist b s))"
  by (simp add: enlist_def Let_def)

lemma boot_ok_world [simp]: "boot_ok (s\<lparr>world := w\<rparr>) = boot_ok s"
  by (simp add: boot_ok_def)

lemma boot_ok_typed_nil: "boot_ok s \<Longrightarrow> boot_ok (s\<lparr>bo_local := LocalTypedNil\<rparr>)"
  by (simp add: boot_ok_def)

lemma add_configured_ok:
  assumes "boot_ok s" "\<forall>cb. bc_CircuitBreaker cfg = Some cb \<longrightarrow> config_in_range cb"
  shows "boot_ok (add_configured E M n cfg s)"
proof (cases "make_backend M cfg (world s)")
  case None
  with assms(1) show ?thesis by (simp add: add_configured_def)
next
  case (Some rw)
  obtain r w where rw: "rw = (r, w)" by fastforce
  show ?thesis
  proof (cases r)
    case (Inl err)
    with Some rw assms(1) show ?thesis by (simp add: add_configured_def Let_def boot_ok_typed_nil)
  next
    case (Inr b)
    let ?local = "bc_Type cfg = BackendTypeMemory \<and> (bc_ID cfg = ''local'' \<or> n = 1)"
    let ?s1 = "s\<lparr>world := w\<rparr>"
    let ?s2 = "if ?local then ?s1\<lparr>bo_local := LocalAt (bo_next s)\<rparr> else ?s1"
    have b: "Backend_Healthy b" "bc_Type cfg = BackendTypeMemory \<longrightarrow> (\<exists>m. b = MemoryBackend m)"
      using make_backend_healthy [of M cfg "world s" b w] Some rw Inr by simp_all
    have ok1: "boot_ok (?s1\<lparr>bo_local := bo_local ?s1\<rparr>)" using assms(1) by (simp add: boot_ok_def)
    have "boot_ok (enlist b (?s1\<lparr>bo_local := LocalAt (bo_next s)\<rparr>))" if ?local
      using enlist_ok [OF ok1 b(1), of "LocalAt (bo_next s)"] b(2) that by simp
    moreover have "boot_ok (enlist b ?s1)"
      using enlist_ok [OF ok1 b(1), of "bo_local ?s1"] by (simp add: enlist_def Let_def boot_ok_def)
    ultimately have "boot_ok (enlist b ?s2)" by simp
    moreover have "bo_next ?s2 = bo_next s" by simp
    then have "bo_next s \<in> set (bo_backends (enlist b ?s2))" using enlist_mem [of ?s2 b] by (simp only:)
    ultimately have "boot_ok (watch_backend E M cfg (bo_next s) (enlist b ?s2))"
      using assms(2) by (rule watch_backend_ok)
    then show ?thesis using Some rw Inr by (simp add: add_configured_def Let_def)
  qed
qed

lemma fold_add_ok:
  assumes "boot_ok s" "\<forall>cfg \<in> set cfgs. \<forall>cb. bc_CircuitBreaker cfg = Some cb \<longrightarrow> config_in_range cb"
  shows "boot_ok (fold (add_configured E M n) cfgs s)"
  using assms by (induction cfgs arbitrary: s) (simp_all add: add_configured_ok)

lemma add_default_ok:
  assumes "boot_ok s" "add_default M s = Inr s'"
  shows "boot_ok s' \<and> bo_local s' \<noteq> LocalNil"
proof (cases "bo_local s = LocalNil")
  case False
  with assms show ?thesis by (simp add: add_default_def)
next
  case True
  let ?cfg = "\<lparr>mbc_MaxCost = 2 ^ 30, mbc_NumCounters = 10000000, mbc_BufferItems = 64, mbc_DefaultTTL = ''5m''\<rparr>"
  obtain r w where n: "Memory_New (mk_cache M) ''local'' ''Local Cache'' 1 (Some ?cfg) (world s) = (r, w)" by fastforce
  with True assms(2) obtain m where r: "r = Inr m"
    "s' = enlist (MemoryBackend m) (s\<lparr>world := w, bo_local := LocalAt (bo_next s)\<rparr>)"
    by (auto simp: add_default_def split: sum.splits)
  moreover have "mb_healthy m"
    using n r(1) by (auto simp: Memory_New_def Let_def split: prod.splits sum.splits)
  ultimately have m: "mb_healthy m"
    "s' = enlist (MemoryBackend m) (s\<lparr>world := w, bo_local := LocalAt (bo_next s)\<rparr>)" by simp_all
  have "boot_ok (enlist (MemoryBackend m) ((s\<lparr>world := w\<rparr>)\<lparr>bo_local := LocalAt (bo_next s)\<rparr>))"
    using assms(1) m(1) enlist_ok [of "bo_local s" "s\<lparr>world := w\<rparr>" "MemoryBackend m" "LocalAt (bo_next s)"]
    by (simp add: Backend_Healthy_def)
  with m(2) show ?thesis by (simp add: enlist_def Let_def)
qed

lemma boot_start_ok: "HealthChecker_New None = Inr hc \<Longrightarrow> boot_ok (boot_start hc m h w)"
  by (auto simp: boot_ok_def boot_start_def HealthChecker_New_def checker_ok_def IsEvicted_def Router_New_def router_ok_def
      NewLoadBalancer_def NewCircuitBreakerManager_def manager_ok_def all_closed_def)

lemma boot_cases:
  assumes "boot E M sorter ns app h w = Inr (s, cs)"
    "\<forall>cfg \<in> set (ac_Backends app). \<forall>cb. bc_CircuitBreaker cfg = Some cb \<longrightarrow> config_in_range cb"
  shows "boot_ok s \<and> bo_local s \<noteq> LocalNil \<and> cs = boot_service app s \<and>
    (\<exists>r. bo_router s = SetRules sorter (ac_Routing app) r)"
proof -
  from assms(1) obtain hc where hc: "HealthChecker_New ns = Inr hc"
    by (auto simp: boot_def split: sum.splits)
  then have ns: "HealthChecker_New None = Inr hc" by (auto simp: HealthChecker_New_def split: option.splits)
  let ?s0 = "fold (add_configured E M (length (ac_Backends app))) (ac_Backends app) (boot_start hc initMetrics h w)"
  from assms(1) hc obtain s1 where s1: "add_default M ?s0 = Inr s1"
    "s = s1\<lparr>bo_router := SetRules sorter (ac_Routing app) (bo_router s1)\<rparr>" "cs = boot_service app s"
    by (auto simp: boot_def Let_def split: sum.splits)
  have "boot_ok ?s0" by (rule fold_add_ok [OF boot_start_ok [OF ns] assms(2)])
  from add_default_ok [OF this s1(1)] have "boot_ok s1" "bo_local s1 \<noteq> LocalNil" by simp_all
  then show ?thesis
    using s1(2,3) router_ok_SetRules [of "heap s1" "bo_router s1" sorter "ac_Routing app"]
    by (auto simp: boot_ok_def SetRules_frame)
qed

text \<open>
  C10: every successful start establishes what the other properties assume: the router holds
  each object once, under its own ID, and only objects \<open>main\<close> made, all of them healthy; all
  breakers are closed and in range; nothing is evicted and the checker watches only objects
  \<open>main\<close> made; nothing waits to be written. There is a local cache among the backends, a
  memory backend, and the service uses it, unless its construction failed and left a nil
  pointer.
\<close>

theorem boot_establishes:
  assumes "boot E M sorter ns app h w = Inr (s, cs)"
    "\<forall>cfg \<in> set (ac_Backends app). \<forall>cb. bc_CircuitBreaker cfg = Some cb \<longrightarrow> config_in_range cb"
  shows "router_ok (heap s) (bo_router s) \<and> snd ` set (r_backends (bo_router s)) \<subseteq> set (bo_backends s) \<and>
    (\<forall>p \<in> set (bo_backends s). obj_Healthy (heap s) p) \<and>
    manager_ok (breakers s) \<and> all_closed (breakers s) \<and> checker_ok (bo_hc s) \<and> hc_evicted (bo_hc s) = {} \<and>
    (\<forall>i st. hc_backends (bo_hc s) i = Some st \<longrightarrow> he_backend st \<in> set (bo_backends s)) \<and>
    (case cs of
       None \<Rightarrow> bo_local s = LocalTypedNil
     | Some svc \<Rightarrow> service_ok svc s \<and> cs_router svc = bo_router s \<and>
         (\<exists>p m. cs_localCache svc = Some p \<and> p \<in> set (bo_backends s) \<and> heap s p = MemoryBackend m))"
proof -
  note b = boot_cases [OF assms]
  then have ok: "boot_ok s" and cs: "cs = boot_service app s" "bo_local s \<noteq> LocalNil" by simp_all
  have "case cs of
       None \<Rightarrow> bo_local s = LocalTypedNil
     | Some svc \<Rightarrow> service_ok svc s \<and> cs_router svc = bo_router s \<and>
         (\<exists>p m. cs_localCache svc = Some p \<and> p \<in> set (bo_backends s) \<and> heap s p = MemoryBackend m)"
  proof (cases "bo_local s")
    case LocalNil
    with cs(2) show ?thesis by simp
  next
    case LocalTypedNil
    with cs(1) show ?thesis by (simp add: boot_service_def)
  next
    case (LocalAt p)
    with cs(1) ok show ?thesis
      by (auto simp: boot_service_def CacheService_New_def boot_ok_def service_ok_def waiting_def queue_capacity_def)
  qed
  moreover have "router_ok (heap s) (bo_router s) \<and> snd ` set (r_backends (bo_router s)) \<subseteq> set (bo_backends s) \<and>
    (\<forall>p \<in> set (bo_backends s). obj_Healthy (heap s) p) \<and>
    manager_ok (breakers s) \<and> all_closed (breakers s) \<and> checker_ok (bo_hc s) \<and> hc_evicted (bo_hc s) = {} \<and>
    (\<forall>i st. hc_backends (bo_hc s) i = Some st \<longrightarrow> he_backend st \<in> set (bo_backends s))"
    using ok by (simp add: boot_ok_def)
  ultimately show ?thesis by (intro conjI) (elim conjE, assumption)+
qed

definition sample_makers :: "sim makers" where
  "sample_makers =
     \<lparr>mk_cache = (\<lambda>cfg w. (Inr 0, w)), mk_redis = (\<lambda>cfg w. (0, w)), mk_http = (\<lambda>cfg w. (0, w)), mk_creds = (\<lambda>f w. (None, w)),
      mk_dial = (\<lambda>addr cfg d w. (Inr 0, w)), mk_job = (\<lambda>i d w. (Inr 0, w))\<rparr>"

lemma sample_boot:
  "\<exists>s svc. boot sim_env sample_makers insertion_sort None sample_app_config sample_heap sim0 = Inr (s, Some svc)"
  by (simp add: boot_def HealthChecker_New_def sample_app_config_def boot_start_def add_default_def Memory_New_def
      sample_makers_def enlist_def boot_service_def Let_def)

lemma boot_establishes_witness:
  "\<exists>s svc. boot sim_env sample_makers insertion_sort None sample_app_config sample_heap sim0 = Inr (s, Some svc) \<and>
     service_ok svc s \<and> router_ok (heap s) (bo_router s)"
proof -
  obtain s svc where b: "boot sim_env sample_makers insertion_sort None sample_app_config sample_heap sim0 = Inr (s, Some svc)"
    using sample_boot by blast
  moreover have "ac_Backends sample_app_config = []" by (simp add: sample_app_config_def)
  ultimately show ?thesis using boot_establishes [OF b] by auto
qed

section \<open>Routing hints\<close>

lemma route_no_hint:
  assumes "r_hintRoutes (cs_router cs) = []"
  shows "route_write E cs key hint c = route_write E cs key '''' c" "route_read E cs key hint c = route_read E cs key '''' c"
  using assms
  by (simp_all add: route_write_def route_read_def GetBackend_def GetBackendsForRead_def list_of_key_def)

lemma get_ignores_hint:
  "get_backends E cs key (opts\<lparr>go_RoutingHint := x\<rparr>) ps lastErr c = get_backends E cs key opts ps lastErr c"
  "get_local E cs key (opts\<lparr>go_RoutingHint := x\<rparr>) c = get_local E cs key opts c"
proof -
  have s: "stale_version cs (opts\<lparr>go_RoutingHint := x\<rparr>) = stale_version cs opts"
    by (simp add: stale_version_def fun_eq_iff)
  show "get_backends E cs key (opts\<lparr>go_RoutingHint := x\<rparr>) ps lastErr c = get_backends E cs key opts ps lastErr c"
    by (induction ps arbitrary: lastErr c) (simp_all add: s Let_def split: prod.splits option.splits sum.splits)
  show "get_local E cs key (opts\<lparr>go_RoutingHint := x\<rparr>) c = get_local E cs key opts c"
    by (simp add: get_local_def s Let_def split: option.splits prod.splits sum.splits)
qed

lemma set_ignores_hint:
  assumes "r_hintRoutes (cs_router cs) = []"
  shows "set_body E cs e (opts\<lparr>so_RoutingHint := x\<rparr>) c = set_body E cs e opts c"
proof -
  note h = route_no_hint [OF assms]
  have w: "write_backend E cs e (opts\<lparr>so_RoutingHint := x\<rparr>) c = write_backend E cs e opts c" for e c
    unfolding write_backend_def by (subst (1 2) h(1)) simp
  have p: "setPassthrough E cs e (opts\<lparr>so_RoutingHint := x\<rparr>) c = setPassthrough E cs e opts c" for e c
    unfolding setPassthrough_def by (subst (1 2) h(1)) simp
  have t: "setWriteThrough E cs e (opts\<lparr>so_RoutingHint := x\<rparr>) c = setWriteThrough E cs e opts c" for e c
    by (simp add: setWriteThrough_def w)
  have b: "setWriteBehind E cs e (opts\<lparr>so_RoutingHint := x\<rparr>) c = setWriteBehind E cs e opts c" for e c
    by (simp add: setWriteBehind_def t Let_def)
  have a: "setCacheAside E cs e (opts\<lparr>so_RoutingHint := x\<rparr>) c = setCacheAside E cs e opts c" for e c
    by (simp add: setCacheAside_def w)
  have k: "set_conflict E cs e (opts\<lparr>so_RoutingHint := x\<rparr>) c = set_conflict E cs e opts c" for e c
    by (simp add: set_conflict_def Let_def split: option.splits prod.splits sum.splits)
  show ?thesis
    by (simp add: set_body_def p w t b a k Let_def split: prod.splits ReadWriteMode.splits)
qed

text \<open>
  C28: the routing hint of a request has no effect. After every successful start the table
  of hint routes is empty, because setting the rules clears it and nothing fills it, so a
  read, a write or a delete does the same with any hint as with none.
\<close>

theorem hints_have_no_effect:
  fixes c :: "('v, 'z) cs_ctx_scheme"
  assumes "boot E M sorter ns app h w = Inr (s, Some cs)"
  shows "CacheService_Get E' cs key (Some (go\<lparr>go_RoutingHint := hint\<rparr>)) c = CacheService_Get E' cs key (Some go) c \<and>
    CacheService_Set E' cs e (Some (so\<lparr>so_RoutingHint := hint\<rparr>)) c = CacheService_Set E' cs e (Some so) c \<and>
    CacheService_Delete E' cs key (Some (dopts\<lparr>do_RoutingHint := hint\<rparr>)) c = CacheService_Delete E' cs key (Some dopts) c"
proof -
  have r: "r_hintRoutes (cs_router cs) = []"
    using assms
    by (auto simp: boot_def boot_service_def CacheService_New_def SetRules_frame Let_def
        split: sum.splits local_cache.splits)
  note h = route_no_hint [OF r]
  have "get_body E' cs key (go\<lparr>go_RoutingHint := hint\<rparr>) d = get_body E' cs key go d"
    for d :: "('v, 'z) cs_ctx_scheme"
    unfolding get_body_def get_ignores_hint by (subst (1 2) h(2)) simp
  moreover have "delete_body E' cs key (do_RoutingHint (dopts\<lparr>do_RoutingHint := hint\<rparr>)) d = delete_body E' cs key (do_RoutingHint dopts) d"
    for d :: "('v, 'z) cs_ctx_scheme"
    unfolding delete_body_def by (subst (1 2) h(1)) simp
  ultimately show ?thesis
    by (simp add: CacheService_Get_def CacheService_Set_def CacheService_Delete_def get_or_zero_def set_or_zero_def
        set_ignores_hint [OF r] split: prod.splits)
qed

lemma hints_have_no_effect_witness:
  "\<exists>s cs. boot sim_env sample_makers insertion_sort None sample_app_config sample_heap sim0 = Inr (s, Some cs) \<and>
     CacheService_Get sim_env cs ''k'' (Some (zero_get_options\<lparr>go_RoutingHint := ''bulk''\<rparr>)) sample_cs_ctx =
     CacheService_Get sim_env cs ''k'' (Some zero_get_options) sample_cs_ctx"
proof -
  obtain s svc where b: "boot sim_env sample_makers insertion_sort None sample_app_config sample_heap sim0 = Inr (s, Some svc)"
    using sample_boot by blast
  from hints_have_no_effect [OF b] b show ?thesis by blast
qed

section \<open>Shutdown\<close>

lemma GetBackend_registered:
  assumes "GetBackend xx h r ks key hint = Inr p"
  shows "p \<in> snd ` set (r_backends r)"
proof -
  have "\<exists>i. live h r i = Some p"
  proof (cases "first_live h r (candidates xx r key hint)")
    case None
    with assms have "heaviest h r ks None = Some p" by (simp add: GetBackend_candidates fallback_Inr)
    then show ?thesis using heaviest_mem by fastforce
  next
    case (Some q)
    with assms have "q = p" by (simp add: GetBackend_candidates)
    with first_live_Some [OF Some] show ?thesis by blast
  qed
  then show ?thesis by (force simp: live_Some dest: map_of_SomeD)
qed

text \<open>
  What the documentation of the clients says of a closed one: a backend whose client is
  closed answers a write with an error. The HTTP client has nothing to close, and nothing is
  said of the answer of an HTTP backend. \<open>dead\<close> is a property of the world once the clients
  are closed, which nothing that follows undoes.
\<close>

definition has_client :: "backend \<Rightarrow> bool" where
  "has_client b \<longleftrightarrow> (\<forall>h. b \<noteq> HTTPBackend h)"

definition writes_fail :: "'w env \<Rightarrow> ('w \<Rightarrow> bool) \<Rightarrow> bool" where
  "writes_fail E dead \<longleftrightarrow>
     (\<forall>b e w. dead w \<longrightarrow> dead (snd (snd (Backend_Set E b e w))) \<and> (has_client b \<longrightarrow> fst (Backend_Set E b e w) \<noteq> None)) \<and>
     (\<forall>ks w. dead w \<longrightarrow> dead (snd (env_iter E ks w))) \<and>
     (\<forall>h w. dead w \<longrightarrow> dead (snd (env_close E h w)))"

definition slept :: "wb_item list \<Rightarrow> wb_item list" where
  "slept items = map (\<lambda>x. x\<lparr>wb_retry := wb_retry x + 1\<rparr>) (filter (\<lambda>x. wb_retry x < 3) items)"

lemma slept_simps [simp]:
  "slept [] = []" "slept (x # xs) = (if wb_retry x < 3 then x\<lparr>wb_retry := wb_retry x + 1\<rparr> # slept xs else slept xs)"
  by (simp_all add: slept_def)

lemma has_client_Set: "Backend_Set E b e w = (r, b', w') \<Longrightarrow> has_client b' = has_client b"
  by (cases b) (auto simp: Backend_Set_def on_object_def has_client_def split: prod.splits)

text \<open>
  A delayed write that the rules, in whatever order the fallback meets the backends, do not
  send to an HTTP backend; what routing reads of the objects, and no write changes.
\<close>

definition to_client :: "'w env \<Rightarrow> cache_service \<Rightarrow> (bref \<Rightarrow> backend) \<Rightarrow> wb_item \<Rightarrow> bool" where
  "to_client E cs hp item \<longleftrightarrow>
     (\<forall>ks p. GetBackend (env_xxhash E) hp (cs_router cs) ks (entry_Key (wb_entry item)) '''' = Inr p \<longrightarrow> has_client (hp p))"

definition same_targets :: "(bref \<Rightarrow> backend) \<Rightarrow> (bref \<Rightarrow> backend) \<Rightarrow> bool" where
  "same_targets h h' \<longleftrightarrow>
     (\<forall>p. Backend_ident (h' p) = Backend_ident (h p) \<and> Backend_Healthy (h' p) = Backend_Healthy (h p) \<and>
          has_client (h' p) = has_client (h p))"

lemma same_targets_route:
  assumes "same_targets h h'"
  shows "GetBackend xx h' r ks key hint = GetBackend xx h r ks key hint"
proof -
  have l: "live h' r i = live h r i" "obj_Weight h' p = obj_Weight h p" for i p
    using assms by (simp_all add: same_targets_def live_def obj_Healthy_def obj_Weight_def split: option.split)
  have "first_live h' r is = first_live h r is" for "is"
    by (induction "is") (simp_all add: l split: option.split)
  moreover have "heaviest h' r ks best = heaviest h r ks best" for best
    by (induction ks arbitrary: best) (simp_all add: l cong: option.case_cong)
  then have "getFallbackBackend h' r ks = getFallbackBackend h r ks" by (simp add: getFallbackBackend_def)
  ultimately show ?thesis by (simp add: GetBackend_candidates split: option.split)
qed

lemma same_targets_to_client: "same_targets h h' \<Longrightarrow> to_client E cs h' = to_client E cs h"
  by (simp add: to_client_def fun_eq_iff same_targets_route) (simp add: same_targets_def)

lemma clients_of_targets:
  "\<forall>p \<in> snd ` set (r_backends (cs_router cs)). has_client (hp p) \<Longrightarrow> to_client E cs hp item"
  by (auto simp: to_client_def dest!: GetBackend_registered)

lemma dead_item:
  assumes "writes_fail E dead" "dead (world c)"
  shows "let c' = processWriteBehindItem E cs item c in
    dead (world c') \<and> same_targets (heap c) (heap c') \<and> queue c' = queue c \<and> batch c' = batch c \<and> stopped c' = stopped c \<and>
    (sleeping c' = sleeping c @ slept [item] \<or> \<not> to_client E cs (heap c) item \<and> sleeping c' = sleeping c)"
proof -
  obtain target c1 where t: "route_write E cs (entry_Key (wb_entry item)) '''' c = (target, c1)" by fastforce
  have "dead (snd (env_iter E (map fst (r_backends (cs_router cs))) (world c)))"
    using assms(1,2) unfolding writes_fail_def by blast
  then have c1: "dead (world c1)" "heap c1 = heap c" "same_work c c1"
    using t route_write_cs [OF t] by (auto simp: route_write_def split: prod.splits)
  show ?thesis
  proof (cases target)
    case (Inl err)
    with t c1 show ?thesis
      by (auto simp: processWriteBehindItem_def retry_later_def same_targets_def same_work_def Let_def)
  next
    case (Inr p)
    obtain r b w where s: "Backend_Set E (heap c p) (wb_entry item) (world c1) = (r, b, w)" by (metis prod_cases3)
    have "fst (Backend_Set E (heap c p) (wb_entry item) (world c1)) \<noteq> None \<or> \<not> has_client (heap c p)"
      "dead (snd (snd (Backend_Set E (heap c p) (wb_entry item) (world c1))))"
      using assms(1) c1(1) unfolding writes_fail_def by blast+
    then have r: "r \<noteq> None \<or> \<not> has_client (heap c p)" "dead w" using s by simp_all
    have "\<not> has_client (heap c p) \<Longrightarrow> \<not> to_client E cs (heap c) item"
      using t Inr c1(2) by (auto simp: to_client_def route_write_def split: prod.splits)
    with r(1) have f: "r \<noteq> None \<or> \<not> to_client E cs (heap c) item" by blast
    have o: "obj_Set E p (wb_entry item) c1 = (r, c1\<lparr>world := w, heap := (heap c)(p := b)\<rparr>)"
      using s c1(2) by (simp add: obj_Set_def obj_call_def)
    have "same_targets (heap c) ((heap c)(p := b))"
      using obj_Set_view [OF o] has_client_Set [OF s] c1(2) by (auto simp: same_targets_def same_view_def)
    with Inr t o r(2) c1 f show ?thesis
      by (cases r) (auto simp: processWriteBehindItem_def retry_later_def same_work_def Let_def)
  qed
qed

lemma dead_batch:
  assumes "writes_fail E dead" "dead (world c)"
  shows "let c' = processWriteBehindBatch E cs items c in
    queue c' = queue c \<and> stopped c' = stopped c \<and>
    (\<exists>failed. subseq failed items \<and> subseq (filter (to_client E cs (heap c)) items) failed \<and>
      sleeping c' = sleeping c @ slept failed)"
  using assms(2)
proof (induction items arbitrary: c)
  case Nil
  then show ?case by (auto intro: exI [of _ "[]"])
next
  case (Cons item items)
  let ?c1 = "processWriteBehindItem E cs item c" and ?to = "to_client E cs (heap c)"
  have c1: "dead (world ?c1)" "same_targets (heap c) (heap ?c1)" "queue ?c1 = queue c" "stopped ?c1 = stopped c"
    "sleeping ?c1 = sleeping c @ slept [item] \<or> \<not> ?to item \<and> sleeping ?c1 = sleeping c"
    using dead_item [OF assms(1) Cons.prems, of cs item] by (simp_all add: Let_def)
  from Cons.IH [OF c1(1)] c1(2-4) obtain failed where f: "subseq failed items" "subseq (filter ?to items) failed"
      "sleeping (processWriteBehindBatch E cs (item # items) c) = sleeping ?c1 @ slept failed"
    and q: "queue (processWriteBehindBatch E cs (item # items) c) = queue c"
      "stopped (processWriteBehindBatch E cs (item # items) c) = stopped c"
    by (auto simp: Let_def same_targets_to_client)
  from c1(5) have "\<exists>failed. subseq failed (item # items) \<and> subseq (filter ?to (item # items)) failed \<and>
      sleeping (processWriteBehindBatch E cs (item # items) c) = sleeping c @ slept failed"
  proof
    assume "sleeping ?c1 = sleeping c @ slept [item]"
    with f show ?thesis by (intro exI [of _ "item # failed"]) auto
  next
    assume "\<not> ?to item \<and> sleeping ?c1 = sleeping c"
    with f show ?thesis by (intro exI [of _ failed]) auto
  qed
  with q show ?case by (simp add: Let_def)
qed

lemma close_backends_frame:
  "heap (close_backends E ps c) = heap c \<and> same_work c (close_backends E ps c)"
proof (induction ps arbitrary: c)
  case Nil
  then show ?case by simp
next
  case (Cons p ps)
  obtain r w where "Backend_Close E (heap c p) (world c) = (r, w)" by fastforce
  with Cons.IH [of "c\<lparr>world := w\<rparr>"] show ?case by (simp add: same_work_def)
qed

text \<open>After \<open>Close\<close> nothing takes an item any more: what waits, waits for ever.\<close>

lemma remove_nth_set: "n < length xs \<Longrightarrow> set xs \<subseteq> insert (xs ! n) (set (remove_nth n xs))"
  by (metis remove_nth_def append_take_drop_id Cons_nth_drop_Suc set_append list.simps(15) Un_insert_right order_refl)

lemma grows_waits: "grows cs c d \<Longrightarrow> stopped c \<Longrightarrow> stopped d \<and> set (waiting c) \<subseteq> set (waiting d)"
  by (auto simp: grows_def waiting_def)

lemma stopped_waits:
  assumes "service_step E cs c c'" "stopped c"
  shows "stopped c' \<and> set (waiting c) \<subseteq> set (waiting c')"
  using assms
proof (induction rule: service_step.induct)
  case (did_get key o0 c r c')
  then show ?case using get_grows [of E cs key o0 c r c'] grows_waits [of cs c c'] by blast
next
  case (did_set e o1 c err c')
  then show ?case using set_grows [of E cs e o1 c err c'] grows_waits [of cs c c'] by blast
next
  case (did_delete key o2 c err c')
  then show ?case using delete_work [of E cs key o2 c err c'] grows_same [of c c' cs] grows_waits [of cs c c'] by blast
next
  case (invalidated c key)
  then show ?case
    using delete_local_quiet [of c E cs key] grows_same [of c "delete_local E cs key c" cs]
      grows_waits [of cs c "delete_local E cs key c"] by (simp add: InvalidateLocal_def)
next
  case (woke c n)
  then show ?case
    using remove_nth_set [of n "sleeping c"] by (auto simp: wake_def waiting_def)
next
  case (ran c n)
  let ?d = "c\<lparr>local_sets := remove_nth n (local_sets c)\<rparr>"
  have "same_work ?d (write_local E cs (local_sets c ! n) ?d)" using write_local_quiet by blast
  with ran show ?case by (auto simp: run_local_set_def same_work_def waiting_def)
qed simp_all

lemma stopped_waits_run:
  assumes "(service_step E cs)\<^sup>*\<^sup>* c c'" "stopped c"
  shows "stopped c' \<and> set (waiting c) \<subseteq> set (waiting c')"
  using assms
proof (induction rule: rtranclp_induct)
  case base
  then show ?case by simp
next
  case (step c1 c2)
  then show ?case using stopped_waits [of E cs c1 c2] by blast
qed

text \<open>
  C27: a shutdown loses the writes that were accepted and not yet made. \<open>main\<close> closes the
  backends before the deferred \<open>Close\<close> of the service flushes its queue, so every write of the
  flush fails that goes to a backend with a client of its own (memory, Redis, gRPC); a write
  that goes to an HTTP backend, which has nothing to close, may still be made. Whatever the mix
  of backends, the failed writes are a part of the batch and the queue, in their order, that
  holds all of those not sent to an HTTP backend, and all writes when none is registered. The
  failed ones with a retry left are put to sleep, and no step of the service that may still run
  ever takes one of them again.
\<close>

theorem shutdown_loses_queue:
  assumes "shutdown E P g r cs ps c = Some c'"
    "writes_fail E dead" "\<forall>h d w. dead w \<longrightarrow> dead (snd (pe_Leave P h d w))"
    "dead (world (close_backends E ps c))"
  shows "stopped c' \<and> queue c' = [] \<and>
    (\<exists>failed. subseq failed (batch c @ queue c) \<and>
      subseq (filter (to_client E cs (heap c)) (batch c @ queue c)) failed \<and>
      ((\<forall>p \<in> snd ` set (r_backends (cs_router cs)). has_client (heap c p)) \<longrightarrow> failed = batch c @ queue c) \<and>
      sleeping c' = sleeping c @ slept failed \<and>
      ((service_step E' cs)\<^sup>*\<^sup>* c' c'' \<longrightarrow> set (sleeping c @ slept failed) \<subseteq> set (waiting c'')))"
proof -
  let ?c1 = "close_backends E ps c" and ?items = "batch c @ queue c"
  obtain err2 g2 w2 where g: "Gossip_Close P g (world ?c1) = Some (err2, g2, w2)"
    using assms(1) by (fastforce simp: shutdown_def Let_def split: option.splits)
  obtain err3 r3 w3 where r: "PubSub_Close E r w2 = Some (err3, r3, w3)"
    using assms(1) g by (fastforce simp: shutdown_def Let_def split: option.splits)
  have "dead w2"
    using g assms(3,4) by (auto simp: Gossip_Close_def split: option.splits if_splits prod.splits) (metis snd_conv)
  then have w3: "dead w3"
    using r assms(2) unfolding writes_fail_def
    by (auto simp: PubSub_Close_def split: option.splits if_splits prod.splits) (metis snd_conv)
  let ?c4 = "?c1\<lparr>world := w3, queue := [], batch := [], stopped := True\<rparr>"
  have f: "heap ?c1 = heap c" "same_work c ?c1" using close_backends_frame [of E ps c] by simp_all
  have c': "c' = processWriteBehindBatch E cs ?items ?c4"
    using assms(1) g r f(2) by (simp add: shutdown_def Let_def CacheService_Close_def worker_stop_def same_work_def)
  obtain failed where e: "stopped c'" "queue c' = []" "sleeping c' = sleeping c @ slept failed"
      "subseq failed ?items" "subseq (filter (to_client E cs (heap c)) ?items) failed"
    using dead_batch [OF assms(2), of ?c4 cs ?items] w3 f by (auto simp: c' Let_def same_work_def)
  have "failed = ?items" if "\<forall>p \<in> snd ` set (r_backends (cs_router cs)). has_client (heap c p)"
    using e(4,5) clients_of_targets [OF that, of E] by (simp add: subseq_order.antisym)
  moreover have "(service_step E' cs)\<^sup>*\<^sup>* c' c'' \<longrightarrow> set (sleeping c @ slept failed) \<subseteq> set (waiting c'')"
    using stopped_waits_run [of E' cs c' c''] e(1,3) by (auto simp: waiting_def)
  ultimately show ?thesis using e by blast
qed

text \<open>A world whose clients can be closed: the flag of the reachable addresses stands for it.\<close>

definition closable_env :: "sim env" where
  "closable_env =
     sim_env\<lparr>env_close := (\<lambda>h w. (None, w\<lparr>sim_reachable := (\<lambda>_. False)\<rparr>)),
             env_cache_close := (\<lambda>h w. w\<lparr>sim_reachable := (\<lambda>_. False)\<rparr>),
             env_cache_set := (\<lambda>h k v cost ttl w. (sim_reachable w '''', w)),
             env_redis := (\<lambda>h cs w. ((if sim_reachable w '''' then None else Some (ErrorText ''redis: client is closed''), []), w)),
             env_grpc_set := (\<lambda>h path rq w. (if sim_reachable w '''' then Inr True else Inl (ErrorText ''closing''), w))\<rparr>"

lemma closable_writes_fail: "writes_fail closable_env (\<lambda>w. \<not> sim_reachable w '''')"
proof -
  have "\<not> sim_reachable (snd (snd (Backend_Set closable_env b e w))) '''' \<and> (has_client b \<longrightarrow> fst (Backend_Set closable_env b e w) \<noteq> None)"
    if "\<not> sim_reachable w ''''" for b e w
    using that
    by (cases b) (auto simp: Backend_Set_def on_object_def has_client_def closable_env_def Memory_Set_def Redis_Set_def
        Http_Set_def Grpc_Set_def kvClient_Set_def Let_def split: if_splits prod.splits sum.splits)
  then show ?thesis by (auto simp: writes_fail_def closable_env_def)
qed

text \<open>
  A node with an HTTP backend, a delayed write for Redis's keys and others: the first one is
  lost, whatever became of the others.
\<close>

definition mixed_heap :: "bref \<Rightarrow> backend" where
  "mixed_heap = sample_heap(2 := HTTPBackend
     \<lparr>hb_id = ''http-service'', hb_name = ''http-service'', hb_weight = 2, hb_healthy = True, hb_client = 0,
      hb_baseURL = '''', hb_headers = [], hb_keyParam = ''key'', hb_valueParam = ''value'', hb_ttlParam = ''ttl'',
      hb_timeout = Second, hb_defaultTTL = Minute\<rparr>)"

definition profile_item :: wb_item where
  "profile_item = \<lparr>wb_entry = \<lparr>entry_Key = ''user:profile:7'', entry_Value = [1], entry_Version = 0, entry_TTL = 0\<rparr>, wb_retry = 0\<rparr>"

lemma profile_to_client: "to_client E (sample_service None) mixed_heap profile_item"
proof -
  have "live mixed_heap sample_router ''redis-master'' = Some 1"
    by (simp add: live_def obj_Healthy_def mixed_heap_def sample_heap_def sample_object_def Backend_Healthy_def)
  then have "GetBackend (env_xxhash E) mixed_heap sample_router ks ''user:profile:7'' '''' = Inr 1" for ks
    by (simp add: GetBackend_candidates candidates_def sample_profile_rule)
  then show ?thesis
    by (simp add: to_client_def profile_item_def has_client_def mixed_heap_def sample_heap_def sample_object_def)
qed

lemma shutdown_loses_queue_witness:
  "\<exists>c'. shutdown closable_env
      \<lparr>pe_Create = \<lambda>cfg w. (Inr 0, w), pe_Join = \<lambda>h s w. (None, w), pe_Members = \<lambda>h w. [], pe_Send = \<lambda>h m d w. w,
       pe_Leave = \<lambda>h d w. (None, w)\<rparr> None None (sample_service None) [0, 1, 2]
      (sample_cs_ctx\<lparr>heap := mixed_heap, queue := profile_item # sample_items\<rparr>) = Some c' \<and>
    queue c' = [] \<and> profile_item\<lparr>wb_retry := 1\<rparr> \<in> set (sleeping c')"
proof -
  let ?P = "\<lparr>pe_Create = \<lambda>cfg w. (Inr 0, w), pe_Join = \<lambda>h s w. (None, w), pe_Members = \<lambda>h w. [], pe_Send = \<lambda>h m d w. w,
    pe_Leave = \<lambda>h d w. (None, w)\<rparr> :: sim peers"
  let ?c = "sample_cs_ctx\<lparr>heap := mixed_heap, queue := profile_item # sample_items\<rparr>" and ?cs = "sample_service None"
  obtain c' where s: "shutdown closable_env ?P None None ?cs [0, 1, 2] ?c = Some c'"
    by (simp add: shutdown_def Gossip_Close_def PubSub_Close_def)
  have "\<not> sim_reachable (world (close_backends closable_env [0, 1, 2] ?c)) ''''"
    by (simp add: Backend_Close_def mixed_heap_def sample_heap_def sample_object_def Memory_Close_def Http_Close_def closable_env_def)
  from shutdown_loses_queue [OF s closable_writes_fail _ this, of sim_env c']
  obtain failed where f: "queue c' = []" "sleeping c' = sleeping ?c @ slept failed"
      "subseq (filter (to_client closable_env ?cs (heap ?c)) (batch ?c @ queue ?c)) failed"
    by (metis snd_conv peers.select_convs(5))
  from subseq_set_subset [OF f(3)] have "profile_item \<in> set failed" by (simp add: profile_to_client)
  then have "profile_item\<lparr>wb_retry := 1\<rparr> \<in> set (slept failed)"
    unfolding slept_def by (force simp: profile_item_def)
  with f(1,2) s show ?thesis by auto
qed

end
