(* ===== verification/Invalidation_Properties.thy ===== *)
theory Invalidation_Properties
  imports Server Api_Properties
begin

text \<open>
  What an announcement of a stale key does: which handlers of which nodes it starts, over
  Redis and over gossip, and what the handler \<open>main\<close> subscribes does to the local cache.
\<close>

section \<open>A sample\<close>

text \<open>
  A coding of messages the hypotheses on JSON hold for: the texts one after the other, each
  behind its length in decimal and a colon.
\<close>

definition net_string :: "string \<Rightarrow> string" where
  "net_string s = replicate (length s) CHR ''1'' @ '':'' @ s"

definition net_read :: "string \<Rightarrow> (string \<times> string) option" where
  "net_read t =
     (let n = length (takeWhile (\<lambda>c. c = CHR ''1'') t); r = drop (n + 1) t
      in if length r < n then None else Some (take n r, drop n r))"

lemma net_read_string: "net_read (net_string s @ r) = Some (s, r)"
proof -
  have "takeWhile (\<lambda>c. c = CHR ''1'') (replicate n CHR ''1'' @ CHR '':'' # t) = replicate n CHR ''1''" for n t
    by (induction n) simp_all
  then show ?thesis by (simp add: net_read_def net_string_def Let_def)
qed

definition sample_codec :: "InvalidationMessage codec" where
  "sample_codec =
     \<lparr>cd_Marshal = (\<lambda>m. Inr (net_string (im_Key m) @ net_string (im_NodeID m) @ net_string (im_Type m) @
        net_string (if im_Timestamp m < 0 then ''-'' else ''+'') @ net_string (replicate (nat \<bar>im_Timestamp m\<bar>) CHR ''1''))),
      cd_Unmarshal = (\<lambda>s0.
        case net_read s0 of None \<Rightarrow> None | Some (k, s1) \<Rightarrow>
        (case net_read s1 of None \<Rightarrow> None | Some (i, s2) \<Rightarrow>
        (case net_read s2 of None \<Rightarrow> None | Some (ty, s3) \<Rightarrow>
        (case net_read s3 of None \<Rightarrow> None | Some (sg, s4) \<Rightarrow>
        (case net_read s4 of None \<Rightarrow> None | Some (ts, s5) \<Rightarrow>
           Some \<lparr>im_Key = k, im_NodeID = i,
                 im_Timestamp = (if sg = ''-'' then - int (length ts) else int (length ts)), im_Type = ty\<rparr>)))))\<rparr>"

lemma sample_codec_ok: "codec_ok pubsub_texts im_Timestamp sample_codec"
proof -
  have "net_read (net_string s) = Some (s, [])" for s using net_read_string [of s "[]"] by simp
  then show ?thesis
    by (auto simp: codec_ok_def sample_codec_def net_read_string split: option.splits)
qed

text \<open>A node whose clock shows September 2001.\<close>

definition clocked_ctx :: "sim cs_ctx" where
  "clocked_ctx = sample_cs_ctx\<lparr>world := sim0\<lparr>sim_clock := 1000000000 * Second\<rparr>\<rparr>"

lemma clocked_time: "\<exists>t c1. time_Now sim_env clocked_ctx = (t, c1) \<and> json_time t"
  by (simp add: time_Now_def clocked_ctx_def json_time_def)

section \<open>Redis\<close>

text \<open>
  An announcement over Redis is one \<open>PUBLISH\<close> on the node's channel, and of the nodes
  that receive its payload exactly the others act: each of their handlers is started with
  the key, in order, and nothing else is started anywhere. A node ignores its own.
\<close>

theorem publish_reaches_exactly_others:
  fixes r :: "'h redis_pubsub" and ns :: "'h redis_pubsub list"
  assumes "codec_ok pubsub_texts im_Timestamp C" "ascii key" "ascii (ps_nodeID r)" "time_Now E c = (t, c1)" "json_time t"
    "\<forall>n \<in> set ns. ps_listening n \<and> \<not> ps_stopped n"
  shows "\<exists>data.
    PubSub_Publish E C (Some r) key c =
      (let ((err, replies), w) = env_redis E (ps_client r) [RedisPublish (ps_channel r) data] (world c1)
       in (err, c1\<lparr>world := w\<rparr>)) \<and>
    concat (map (\<lambda>n. map (\<lambda>(h, k). (ps_nodeID n, h, k)) (fst (PubSub_receive C (Some data) n))) ns) =
    concat (map (\<lambda>n. map (\<lambda>h. (ps_nodeID n, h, key)) (ps_handlers n)) (filter (\<lambda>n. ps_nodeID n \<noteq> ps_nodeID r) ns))"
proof -
  obtain data where d: "cd_Marshal C (PubSub_message r key t) = Inr data"
    "cd_Unmarshal C data = Some (PubSub_message r key t)"
    using pubsub_codecD [OF assms(1-3,5)] by blast
  have "PubSub_Publish E C (Some r) key c =
      (let ((err, replies), w) = env_redis E (ps_client r) [RedisPublish (ps_channel r) data] (world c1)
       in (err, c1\<lparr>world := w\<rparr>))"
    using assms(4) d(1) by (simp add: PubSub_Publish_def)
  with pubsub_bus.started_exactly [OF d(2) assms(6)] show ?thesis
    unfolding pubsub_bus.started_def by blast
qed

definition sample_node :: "string \<Rightarrow> unit redis_pubsub" where
  "sample_node i =
     \<lparr>ps_nodeID = i, ps_client = 0, ps_channel = ''cache-invalidation'', ps_handlers = [()], ps_listening = True,
      ps_stopped = False\<rparr>"

lemma publish_reaches_exactly_others_witness:
  "\<exists>data. concat (map (\<lambda>n. map (\<lambda>(h, k). (ps_nodeID n, h, k)) (fst (PubSub_receive sample_codec (Some data) n)))
      [sample_node ''a'', sample_node ''b'']) = [(''b'', (), ''user:1'')]"
proof -
  have "ascii ''user:1''" "ascii (ps_nodeID (sample_node ''a''))" by (simp_all add: ascii_def sample_node_def)
  moreover have "\<forall>n \<in> set [sample_node ''a'', sample_node ''b'']. ps_listening n \<and> \<not> ps_stopped n"
    by (simp add: sample_node_def)
  moreover obtain t c1 where "time_Now sim_env clocked_ctx = (t, c1)" "json_time t" using clocked_time by blast
  ultimately obtain data where
    "concat (map (\<lambda>n. map (\<lambda>(h, k). (ps_nodeID n, h, k)) (fst (PubSub_receive sample_codec (Some data) n)))
      [sample_node ''a'', sample_node ''b'']) =
     concat (map (\<lambda>n. map (\<lambda>h. (ps_nodeID n, h, ''user:1'')) (ps_handlers n))
       (filter (\<lambda>n. ps_nodeID n \<noteq> ps_nodeID (sample_node ''a'')) [sample_node ''a'', sample_node ''b'']))"
    using publish_reaches_exactly_others [OF sample_codec_ok] by blast
  then show ?thesis by (auto simp: sample_node_def)
qed

section \<open>Gossip\<close>

lemma send_members_fold:
  "send_members P g data ms w =
   fold (\<lambda>m. pe_Send P (gp_memberlist g) m data) (filter (\<lambda>m. mm_Name m \<noteq> gp_nodeID g) ms) w"
  by (induction ms arbitrary: w) simp_all

text \<open>
  C39: an announcement over gossip, at a time JSON can carry, is sent once to every other member and not to the node
  itself; a node that receives it starts its handlers with the key, the announcing node
  (should the message come back) does not.
\<close>

theorem gossip_reaches_each_other_member:
  fixes g :: "'h gossip"
  assumes "codec_ok gossip_texts gm_Timestamp C" "ascii key" "ascii (gp_nodeID g)" "time_Now E c = (t, c1)" "json_time t"
  shows "\<exists>data.
    Gossip_Publish E P C (Some g) key c =
      (None, c1\<lparr>world := fold (\<lambda>m. pe_Send P (gp_memberlist g) m data)
         (filter (\<lambda>m. mm_Name m \<noteq> gp_nodeID g) (pe_Members P (gp_memberlist g) (world c1))) (world c1)\<rparr>) \<and>
    (\<forall>n :: 'h gossip. NotifyMsg C data n =
       (if gp_nodeID n = gp_nodeID g then [] else map (\<lambda>h. (h, key)) (gp_handlers n)))"
proof -
  obtain data where d: "cd_Marshal C (Gossip_message g key t) = Inr data"
    "cd_Unmarshal C data = Some (Gossip_message g key t)"
    using gossip_codecD [OF assms(1-3,5)] by blast
  have "NotifyMsg C data n = (if gp_nodeID n = gp_nodeID g then [] else map (\<lambda>h. (h, key)) (gp_handlers n))"
    for n :: "'h gossip"
    using gossip_bus.own_ignored [OF d(2), of n] gossip_bus.others_start [OF d(2), of n] by simp
  with assms(4) d(1) show ?thesis by (auto simp: Gossip_Publish_def send_members_fold)
qed

definition sample_gossip_codec :: "GossipMessage codec" where
  "sample_gossip_codec =
     \<lparr>cd_Marshal = (\<lambda>m. map_sum id id (cd_Marshal sample_codec
        \<lparr>im_Key = gm_Key m, im_NodeID = gm_NodeID m, im_Timestamp = gm_Timestamp m, im_Type = ''''\<rparr>)),
      cd_Unmarshal = (\<lambda>s. map_option (\<lambda>m. \<lparr>gm_Key = im_Key m, gm_NodeID = im_NodeID m, gm_Timestamp = im_Timestamp m\<rparr>)
        (cd_Unmarshal sample_codec s))\<rparr>"

lemma sample_gossip_codec_ok: "codec_ok gossip_texts gm_Timestamp sample_gossip_codec"
  unfolding codec_ok_def
proof (intro allI impI)
  fix m :: GossipMessage
  assume "\<forall>s \<in> set (gossip_texts m). ascii s" "json_time (gm_Timestamp m)"
  let ?m = "\<lparr>im_Key = gm_Key m, im_NodeID = gm_NodeID m, im_Timestamp = gm_Timestamp m, im_Type = ''''\<rparr>"
  have "\<forall>s \<in> set (pubsub_texts ?m). ascii s"
    using \<open>\<forall>s \<in> set (gossip_texts m). ascii s\<close> by (simp add: ascii_def)
  moreover have "json_time (im_Timestamp ?m)" using \<open>json_time (gm_Timestamp m)\<close> by simp
  ultimately obtain data where "cd_Marshal sample_codec ?m = Inr data" "cd_Unmarshal sample_codec data = Some ?m"
    using sample_codec_ok unfolding codec_ok_def by blast
  then show "\<exists>data. cd_Marshal sample_gossip_codec m = Inr data \<and> cd_Unmarshal sample_gossip_codec data = Some m"
    by (simp add: sample_gossip_codec_def)
qed

lemma gossip_reaches_each_other_member_witness:
  "\<exists>data. NotifyMsg sample_gossip_codec data \<lparr>gp_nodeID = ''b'', gp_memberlist = 0, gp_handlers = [()], gp_stopped = False\<rparr> =
     [((), ''user:1'')]"
proof -
  let ?g = "\<lparr>gp_nodeID = ''a'', gp_memberlist = 0, gp_handlers = [()], gp_stopped = False\<rparr>"
  have "ascii ''user:1''" "ascii (gp_nodeID ?g)" by (simp_all add: ascii_def)
  moreover obtain t c1 where "time_Now sim_env clocked_ctx = (t, c1)" "json_time t" using clocked_time by blast
  ultimately obtain data where
    "\<forall>n :: unit gossip. NotifyMsg sample_gossip_codec data n = (if gp_nodeID n = gp_nodeID ?g then [] else map (\<lambda>h. (h, ''user:1'')) (gp_handlers n))"
    using gossip_reaches_each_other_member [OF sample_gossip_codec_ok] by blast
  then show ?thesis by (intro exI [of _ data]) simp
qed

section \<open>The handler\<close>

text \<open>What ristretto documents of a deletion.\<close>

definition deletes :: "'w env \<Rightarrow> bool" where
  "deletes E \<longleftrightarrow> (\<forall>h k w. fst (env_cache_get E h k (env_cache_del E h k w)) = None)"

lemma InvalidateLocal_memory:
  assumes "cs_localCache cs = Some p" "heap c p = MemoryBackend m" "mb_healthy m"
  shows "InvalidateLocal E cs key c =
    c\<lparr>world := env_cache_del E (mb_cache m) key (world c), heap := (heap c)(p := MemoryBackend (deleteVersion m key))\<rparr>"
  using assms
  by (simp add: InvalidateLocal_def delete_local_def obj_Delete_def obj_call_def Backend_Delete_def on_object_def Memory_Delete_def)

lemma InvalidateLocal_misses:
  assumes "deletes E" "cs_localCache cs = Some p" "heap c p = MemoryBackend m" "mb_healthy m"
  shows "fst (obj_Get E p key (InvalidateLocal E cs key c)) = Inl ErrKeyNotFound"
proof -
  have "fst (env_cache_get E (mb_cache m) key (env_cache_del E (mb_cache m) key (world c))) = None"
    using assms(1) by (simp add: deletes_def)
  then show ?thesis
    using assms(4)
    by (auto simp: InvalidateLocal_memory [OF assms(2-4)] obj_Get_def obj_call_def Backend_Get_def on_object_def
        Memory_Get_def deleteVersion_def split: prod.splits option.splits)
qed

text \<open>
  The handler a node subscribes removes the key from its local cache: the next lookup
  there misses and the key's version starts anew; the versions of the other keys, the other
  objects, the queue and the breakers are as before. (With an unhealthy local cache it
  does nothing, and the stale value is back when the cache is.)
\<close>

theorem invalidation_drops_local_copy:
  assumes "deletes E" "cs_localCache cs = Some p" "heap c p = MemoryBackend m"
  shows "let c' = run_invalidations E cs [((), key)] c in
    (if mb_healthy m
     then fst (obj_Get E p key c') = Inl ErrKeyNotFound \<and>
       (\<exists>m'. heap c' p = MemoryBackend m' \<and> getVersion m' key = 0 \<and> (\<forall>k. k \<noteq> key \<longrightarrow> getVersion m' k = getVersion m k))
     else c' = c) \<and>
    (\<forall>q. q \<noteq> p \<longrightarrow> heap c' q = heap c q) \<and> same_work c c' \<and> breakers c' = breakers c"
proof (cases "mb_healthy m")
  case True
  let ?c' = "InvalidateLocal E cs key c"
  note i = InvalidateLocal_memory [OF assms(2,3) True, of E key]
  with True InvalidateLocal_misses [OF assms True, of key] show ?thesis
    by (simp add: run_invalidations_def i getVersion_delete same_work_def Let_def)
next
  case False
  have "InvalidateLocal E cs key c = c"
    using assms False
    by (simp add: InvalidateLocal_def delete_local_def obj_Delete_def obj_call_def Backend_Delete_def on_object_def
        Memory_Delete_def fun_upd_idem)
  with False show ?thesis by (simp add: run_invalidations_def Let_def)
qed

lemma invalidation_drops_local_copy_witness:
  "fst (obj_Get sim_env 0 ''k'' (run_invalidations sim_env (sample_service (Some 0)) [((), ''k'')]
      (sample_cs_ctx\<lparr>world := sim0\<lparr>sim_cache := (\<lambda>_. (\<lambda>_. [])(''k'' := [AnyBytes [7]]))\<rparr>\<rparr>))) = Inl ErrKeyNotFound"
proof -
  let ?c = "sample_cs_ctx\<lparr>world := sim0\<lparr>sim_cache := (\<lambda>_. (\<lambda>_. [])(''k'' := [AnyBytes [7]]))\<rparr>\<rparr>"
  obtain m where m: "heap ?c 0 = MemoryBackend m" "mb_healthy m"
    by (simp add: sample_heap_def sample_object_def)
  have "deletes sim_env" by (simp add: deletes_def)
  from invalidation_drops_local_copy [OF this _ m(1), of "sample_service (Some 0)" "''k''"] m(2)
  show ?thesis by (simp add: Let_def)
qed

section \<open>Two nodes\<close>

text \<open>
  C18: from one node's announcement, at a time JSON can carry, to the other node's cache. Two nodes were started with
  Pub/Sub enabled and different random bytes, and the second one listens. What the first
  one publishes about a key starts nothing in itself, and in the second one it starts the
  handler \<open>main\<close> subscribed, after which the second node's local cache misses the key.
\<close>

theorem announcement_clears_other_node:
  assumes "codec_ok pubsub_texts im_Timestamp C" "ascii key" "a \<noteq> b" "json_time (fst (time_Now E' c1))"
    "boot_pubsub url_ok new_client received (generateNodeID (Inr a) t) app w = (Some ra, w1)"
    "boot_pubsub url_ok' new_client' True (generateNodeID (Inr b) t') app' w' = (Some rb, w1')"
    "deletes E" "cs_localCache cs = Some p" "heap c p = MemoryBackend m" "mb_healthy m"
  shows "\<exists>data. (\<exists>c2. snd (PubSub_Publish E' C (Some ra) key c1) =
        c2\<lparr>world := snd (env_redis E' (ps_client ra) [RedisPublish (ps_channel ra) data] (world c2))\<rparr>) \<and>
    fst (PubSub_receive C (Some data) ra) = [] \<and>
    fst (PubSub_receive C (Some data) rb) = [((), key)] \<and>
    fst (obj_Get E p key (run_invalidations E cs (fst (PubSub_receive C (Some data) rb)) c)) = Inl ErrKeyNotFound"
proof -
  note ra = boot_pubsub_node [OF assms(5)] and rb = boot_pubsub_node [OF assms(6)]
  have ids: "ascii (ps_nodeID ra)" "ps_nodeID ra \<noteq> ps_nodeID rb"
    using ra rb node_ids_distinct [of a t b t'] assms(3) by auto
  obtain s c2 where now: "time_Now E' c1 = (s, c2)" by fastforce
  obtain data where d: "cd_Marshal C (PubSub_message ra key s) = Inr data"
    "cd_Unmarshal C data = Some (PubSub_message ra key s)"
    using pubsub_codecD [OF assms(1,2) ids(1), of s] assms(4) now by auto
  have "snd (PubSub_Publish E' C (Some ra) key c1) =
      c2\<lparr>world := snd (env_redis E' (ps_client ra) [RedisPublish (ps_channel ra) data] (world c2))\<rparr>"
    using now d(1) by (simp add: PubSub_Publish_def split: prod.splits)
  moreover have "fst (PubSub_receive C (Some data) ra) = []"
    by (rule pubsub_bus.own_ignored [OF d(2)]) simp
  moreover have r: "fst (PubSub_receive C (Some data) rb) = [((), key)]"
    using pubsub_bus.others_start [OF d(2), of rb] ids(2) rb by simp
  ultimately show ?thesis
    using InvalidateLocal_misses [OF assms(7-10), of key] by (auto simp: run_invalidations_def)
qed

definition sample_pubsub_config :: AppConfig where
  "sample_pubsub_config = sample_app_config\<lparr>ac_PubSub := (ac_PubSub sample_app_config)\<lparr>pc_Enabled := True\<rparr>\<rparr>"

lemma announcement_clears_other_node_witness:
  "\<exists>ra rb w1 w2 data.
     boot_pubsub (\<lambda>_. True) (\<lambda>_ w. (0, w)) True (generateNodeID (Inr [1]) 0) sample_pubsub_config sim0 = (Some ra, w1) \<and>
     boot_pubsub (\<lambda>_. True) (\<lambda>_ w. (0, w)) True (generateNodeID (Inr [2]) 0) sample_pubsub_config sim0 = (Some rb, w2) \<and>
     fst (PubSub_receive sample_codec (Some data) ra) = [] \<and> fst (PubSub_receive sample_codec (Some data) rb) = [((), ''k'')]"
proof -
  let ?boot = "\<lambda>i. boot_pubsub (\<lambda>_. True) (\<lambda>_ w. (0, w)) True i sample_pubsub_config sim0"
  have boots: "\<exists>r w1. ?boot i = (Some r, w1)" for i
    by (simp add: boot_pubsub_def NewRedisPubSub_def PubSub_Subscribe_def sample_pubsub_config_def sample_app_config_def)
  then obtain ra w1 rb w2 where a: "?boot (generateNodeID (Inr [1]) 0) = (Some ra, w1)"
    and b: "?boot (generateNodeID (Inr [2]) 0) = (Some rb, w2)"
    by blast
  obtain m where m: "heap sample_cs_ctx 0 = MemoryBackend m" "mb_healthy m"
    by (simp add: sample_heap_def sample_object_def)
  have "json_time (fst (time_Now sim_env clocked_ctx))" using clocked_time by (metis fst_conv)
  moreover have "ascii ''k''" "([1] :: bytes) \<noteq> [2]" "deletes sim_env" "cs_localCache (sample_service (Some 0)) = Some 0"
    by (simp_all add: ascii_def deletes_def)
  ultimately show ?thesis
    using announcement_clears_other_node [OF sample_codec_ok _ _ _ a b _ _ m, of "''k''" sim_env clocked_ctx sim_env] a b by blast
qed

end
