(* ===== verification/Proxy_Runs.thy ===== *)
theory Proxy_Runs
  imports Server_Properties
begin

text \<open>
  The whole proxy as a step relation: requests through the engine, health checks,
  announcements from other nodes and the goroutines of the service, in any order, from the
  state \<open>main\<close> has built. The invariant of every run is put together from those of the
  components.
\<close>

section \<open>Steps\<close>

text \<open>The state is the context the service works on and the health checker.\<close>

type_synonym 'w proxy = "'w cs_ctx \<times> health_checker"

inductive proxy_step ::
  "'w env \<Rightarrow> (string \<Rightarrow> go_error + SetRequest) \<Rightarrow> (route_table \<Rightarrow> string \<Rightarrow> string \<Rightarrow> (api_route \<times> string) option) \<Rightarrow>
   cache_handler \<Rightarrow> 'w proxy \<Rightarrow> 'w proxy \<Rightarrow> bool"
  for E :: "'w env" and bind :: "string \<Rightarrow> go_error + SetRequest"
    and gm :: "route_table \<Rightarrow> string \<Rightarrow> string \<Rightarrow> (api_route \<times> string) option" and h :: cache_handler
where
  request: "serve E bind gm h hc ks rq c = (rs, c') \<Longrightarrow> proxy_step E bind gm h (c, hc) (c', hc)"
| checked: "checkBackend E i hc c = (hc', c') \<Longrightarrow> proxy_step E bind gm h (c, hc) (c', hc')"
| announced: "proxy_step E bind gm h (c, hc) (run_invalidations E (ah_service h) calls c, hc)"
| took: "\<not> stopped c \<Longrightarrow> proxy_step E bind gm h (c, hc) (worker_take E (ah_service h) c, hc)"
| ticked: "\<not> stopped c \<Longrightarrow> proxy_step E bind gm h (c, hc) (worker_tick E (ah_service h) c, hc)"
| woke: "proxy_step E bind gm h (c, hc) (wake n c, hc)"
| ran: "proxy_step E bind gm h (c, hc) (run_local_set E (ah_service h) n c, hc)"

inductive_cases proxy_stepE: "proxy_step E bind gm h (c, hc) (c', hc')"

text \<open>A request is at most one operation of the service, between readings of the clock.\<close>

definition idle :: "('w, 'z) cs_ctx_scheme \<Rightarrow> ('w, 'z) cs_ctx_scheme \<Rightarrow> bool" where
  "idle c c' \<longleftrightarrow> heap c' = heap c \<and> breakers c' = breakers c \<and> same_work c c'"

lemma run_route_step:
  assumes "run_route E bind h hc ks route rq c = (rs, c')"
  shows "c' = c \<or> service_step E (ah_service h) c c'"
  using assms
  by (cases route)
    (auto simp: run_route_def Api_Get_def Api_Set_def Api_Delete_def Api_Exists_def exists_in_stub Let_def
      intro: service_step.intros split: if_splits sum.splits option.splits prod.splits)

lemma serve_step:
  assumes "serve E bind gm h hc ks rq c = (rs, c')"
  shows "\<exists>c1 c2. idle c c1 \<and> (c2 = c1 \<or> service_step E (ah_service h) c1 c2) \<and> idle c2 c'"
proof (cases "rq_Method rq = ''OPTIONS''")
  case True
  with assms have "c' = c" by (simp add: serve_def CORSMiddleware_def)
  then have "idle c c'" by (simp add: idle_def)
  then show ?thesis by (auto simp: idle_def)
next
  case False
  let ?rest = "GetRoutingHint (\<lambda>rq c. case gm (RegisterRoutes (ah_config h)) (rq_Method rq) (rq_Path rq) of
      None \<Rightarrow> (respond 404 NoBody, c)
    | Some (route, key) \<Rightarrow> run_route E bind h hc ks route (rq\<lparr>rq_Key := key\<rparr>) c)"
  obtain start c1 where t1: "time_Now E c = (start, c1)" by fastforce
  obtain rs2 c2 where r: "?rest rq c1 = (rs2, c2)" by fastforce
  obtain d c3 where t3: "time_Since E start c2 = (d, c3)" by fastforce
  from False assms t1 r t3 have "c' = c3" by (auto simp: serve_def CORSMiddleware_def RequestLogger_def)
  then have "idle c c1" "idle c2 c'"
    using time_Now_cs [OF t1] time_Since_cs [OF t3] by (simp_all add: idle_def)
  moreover have "c2 = c1 \<or> service_step E (ah_service h) c1 c2"
    using r run_route_step by (fastforce simp: GetRoutingHint_def Let_def split: if_splits option.splits prod.splits)
  ultimately show ?thesis by blast
qed

text \<open>A health check touches flags, the metrics and the clock.\<close>

lemma same_more:
  fixes c c' :: "('w, 'z) cs_ctx_scheme"
  assumes "heap_ctx.more c' = heap_ctx.more c"
  shows "breakers c' = breakers c \<and> same_work c c'"
  using assms by (cases c; cases c') (simp add: same_work_def)

lemma time_more:
  "time_Now E c = (t, c') \<Longrightarrow> heap_ctx.more c' = heap_ctx.more c"
  "time_Since E t0 c = (d, c') \<Longrightarrow> heap_ctx.more c' = heap_ctx.more c"
  by (auto simp: time_Since_def time_Now_def split: prod.splits)

lemma metric_more [simp]: "heap_ctx.more (record_metric f c) = heap_ctx.more c"
  by (cases c) (simp add: record_metric_def)

lemma SetHealthy_frame:
  "heap_ctx.more (obj_SetHealthy p x c) = heap_ctx.more c"
  "Backend_ident (heap (obj_SetHealthy p x c) q) = Backend_ident (heap c q)"
  by (simp_all add: obj_SetHealthy_def dispatch_kv.set_healthy_ident)

lemma probe_ident:
  assumes "probe E st c = (err, c')"
  shows "Backend_ident (heap c' q) = Backend_ident (heap c q)"
  using assms dispatch_kv.ping_frame
  by (auto simp: probe_def checkTCP_def Let_def obj_Ping_def obj_call_def split: HealthCheckType.splits if_splits prod.splits)

lemma passed_frame:
  "passed i st hc c = (hc', c') \<Longrightarrow> heap_ctx.more c' = heap_ctx.more c \<and> Backend_ident (heap c' q) = Backend_ident (heap c q)"
  by (auto simp: passed_def SetHealthy_frame split: if_splits)

lemma failed_frame:
  "failed i st hc c = (hc', c') \<Longrightarrow> heap_ctx.more c' = heap_ctx.more c \<and> Backend_ident (heap c' q) = Backend_ident (heap c q)"
  by (auto simp: failed_def SetHealthy_frame split: if_splits)

lemma check_frame:
  fixes c c' :: "('w, 'z) cs_ctx_scheme"
  assumes "checkBackend E i hc c = (hc', c')"
  shows "breakers c' = breakers c \<and> same_work c c' \<and> (\<forall>q. Backend_ident (heap c' q) = Backend_ident (heap c q)) \<and>
    map_option he_backend \<circ> hc_backends hc' = map_option he_backend \<circ> hc_backends hc"
proof (cases "hc_backends hc i")
  case None
  with assms show ?thesis by (simp add: checkBackend_def)
next
  case (Some st)
  obtain s c1 where n1: "time_Now E c = (s, c1)" by fastforce
  obtain err c2 where p: "probe E st c1 = (err, c2)" by fastforce
  obtain d c3 where n3: "time_Since E s c2 = (d, c3)" by fastforce
  obtain t c4 where n4: "time_Now E c3 = (t, c4)" by fastforce
  let ?st = "if err = None then count_success t st else count_failure t st"
  have f: "(if err = None then passed else failed) i ?st (hc\<lparr>hc_backends := (hc_backends hc)(i \<mapsto> ?st)\<rparr>) c4 = (hc', c')"
    using assms Some n1 p n3 n4 by (simp add: checkBackend_def Let_def split: if_splits)
  then have m: "heap_ctx.more c' = heap_ctx.more c4 \<and> Backend_ident (heap c' q) = Backend_ident (heap c4 q)" for q
    by (cases "err = None") (simp_all only: simp_thms if_True if_False passed_frame failed_frame)
  have "heap_ctx.more c' = heap_ctx.more c"
    using m time_more(1) [OF n1] probe_frame [OF p] time_more(2) [OF n3] time_more(1) [OF n4] by simp
  moreover have "Backend_ident (heap c' q) = Backend_ident (heap c q)" for q
    using m [of q] time_Now_heap [OF n1] probe_ident [OF p, of q] time_Since_heap [OF n3] time_Now_heap [OF n4] by simp
  moreover have "hc_backends hc' = (hc_backends hc)(i \<mapsto> ?st)"
  proof (cases "err = None")
    case True
    with f show ?thesis
      using passed_result [of i "count_success t st" "hc\<lparr>hc_backends := (hc_backends hc)(i \<mapsto> count_success t st)\<rparr>" c4 hc' c'] by simp
  next
    case False
    with f show ?thesis
      using failed_result [of i "count_failure t st" "hc\<lparr>hc_backends := (hc_backends hc)(i \<mapsto> count_failure t st)\<rparr>" c4 hc' c'] by auto
  qed
  moreover have "he_backend ?st = he_backend st" by simp
  ultimately show ?thesis using same_more [of c' c] Some by (simp add: fun_eq_iff)
qed

lemma idle_quiet: "idle c c' \<Longrightarrow> quiet c c'"
  by (simp add: idle_def)

lemma invalidations_quiet: "quiet c (run_invalidations E cs calls c)"
  unfolding run_invalidations_def
proof (induction calls arbitrary: c)
  case Nil
  then show ?case by simp
next
  case (Cons x calls)
  have "quiet c (InvalidateLocal E cs (snd x) c)"
    using delete_local_quiet [of c E cs "snd x"] by (simp add: InvalidateLocal_def)
  from quiet_trans [OF this Cons.IH] show ?case by (simp add: case_prod_beta)
qed

text \<open>While the breakers are closed, only a health check changes a health flag.\<close>

lemma flags_change_only_by_checks:
  assumes "proxy_step E bind gm h (c, hc) (c', hc')" "all_closed (breakers c)"
    "obj_Healthy (heap c') p \<noteq> obj_Healthy (heap c) p"
  shows "\<exists>i. checkBackend E i hc c = (hc', c')"
proof -
  have calm: False if "quiet c c'" using that assms(3) by (simp add: quiet_def obj_Healthy_def)
  have req: "quiet c c'" if serve: "serve E bind gm h hc ks rq c = (rs, c')" for ks rq rs
  proof -
    from serve_step [OF serve] obtain c1 c2 where
      s: "idle c c1" "c2 = c1 \<or> service_step E (ah_service h) c1 c2" "idle c2 c'" by blast
    then have "quiet c1 c2" using assms(2) step_quiet [of E "ah_service h" c1 c2] by (auto simp: idle_def)
    with s(1,3) show ?thesis using idle_quiet quiet_trans by blast
  qed
  have work: "quiet c c'" if "service_step E (ah_service h) c c'" using step_quiet [OF that assms(2)] .
  from assms(1) show ?thesis
    by (elim proxy_stepE)
      (use calm req work invalidations_quiet [of c E "ah_service h"] service_step.took [of c E "ah_service h"]
         service_step.ticked [of c E "ah_service h"] service_step.woke service_step.ran in blast)+
qed

section \<open>The invariant\<close>

definition proxy_ok :: "cache_service \<Rightarrow> 'w proxy \<Rightarrow> 'w proxy \<Rightarrow> bool" where
  "proxy_ok cs start now =
     (case (start, now) of ((c0, hc0), (c, hc)) \<Rightarrow>
        service_ok cs c \<and> all_closed (breakers c) \<and>
        (\<forall>p. Backend_ident (heap c p) = Backend_ident (heap c0 p)) \<and>
        checker_ok hc \<and> map_option he_backend \<circ> hc_backends hc = map_option he_backend \<circ> hc_backends hc0)"

lemma proxy_ok_service:
  assumes "proxy_ok cs start (c, hc)" "service_step E cs c c'"
  shows "proxy_ok cs start (c', hc)"
  using assms step_ok [of E cs c c'] step_quiet [of E cs c c'] by (auto simp: proxy_ok_def quiet_def split: prod.splits)

lemma proxy_ok_idle:
  assumes "proxy_ok cs start (c, hc)" "idle c c'"
  shows "proxy_ok cs start (c', hc)"
  using assms grows_ok [OF grows_same, of c c' cs] by (auto simp: proxy_ok_def idle_def split: prod.splits)

lemma proxy_ok_invalidations:
  assumes "proxy_ok cs start (c, hc)"
  shows "proxy_ok cs start (run_invalidations E cs calls c, hc)"
  unfolding run_invalidations_def using assms
proof (induction calls arbitrary: c)
  case Nil
  then show ?case by simp
next
  case (Cons x calls)
  have "proxy_ok cs start (InvalidateLocal E cs (snd x) c, hc)"
    by (rule proxy_ok_service [OF Cons.prems service_step.invalidated])
  from Cons.IH [OF this] show ?case by (simp add: case_prod_beta)
qed

lemma proxy_step_ok:
  assumes "proxy_step E bind gm h s s'" "proxy_ok (ah_service h) start s"
  shows "proxy_ok (ah_service h) start s'"
  using assms
proof (induction rule: proxy_step.induct)
  case (request hc ks rq c rs c')
  then obtain c1 c2 where s: "idle c c1" "c2 = c1 \<or> service_step E (ah_service h) c1 c2" "idle c2 c'"
    using serve_step by blast
  from proxy_ok_idle [OF request.prems s(1)] have "proxy_ok (ah_service h) start (c1, hc)" .
  with s(2) have "proxy_ok (ah_service h) start (c2, hc)" using proxy_ok_service by blast
  from proxy_ok_idle [OF this s(3)] show ?case .
next
  case (checked i hc c hc' c')
  from check_frame [OF checked.hyps] have f: "breakers c' = breakers c" "same_work c c'"
    "\<forall>q. Backend_ident (heap c' q) = Backend_ident (heap c q)"
    "map_option he_backend \<circ> hc_backends hc' = map_option he_backend \<circ> hc_backends hc" by blast+
  moreover have "service_ok (ah_service h) c'" "checker_ok hc'"
    using checked.prems checkBackend_ok [OF checked.hyps] grows_ok [OF grows_same [OF f(2)]]
    by (auto simp: proxy_ok_def split: prod.splits)
  ultimately show ?case using checked.prems by (auto simp: proxy_ok_def split: prod.splits)
next
  case (announced c hc calls)
  then show ?case by (rule proxy_ok_invalidations)
next
  case (took c hc)
  then show ?case using proxy_ok_service service_step.took by blast
next
  case (ticked c hc)
  then show ?case using proxy_ok_service service_step.ticked by blast
next
  case (woke c hc n)
  then show ?case using proxy_ok_service service_step.woke by blast
next
  case (ran c hc n)
  then show ?case using proxy_ok_service service_step.ran by blast
qed

lemma proxy_run_ok:
  assumes "(proxy_step E bind gm h)\<^sup>*\<^sup>* s s'" "proxy_ok (ah_service h) start s"
  shows "proxy_ok (ah_service h) start s'"
  using assms by (induction rule: rtranclp_induct) (blast intro: proxy_step_ok)+

text \<open>The type of an object is part of its identity.\<close>

lemma memory_ident: "(\<exists>m. b = MemoryBackend m) \<longleftrightarrow> id_Type (Backend_ident b) = ''memory''"
  by (cases b) (simp_all add: Backend_ident_def Memory_ident_def Redis_ident_def Http_ident_def Grpc_ident_def)

lemma router_ok_ident:
  assumes "router_ok h r" "\<forall>p. Backend_ident (h' p) = Backend_ident (h p)"
  shows "router_ok h' r"
  using assms by (simp add: router_ok_def obj_ID_def)

text \<open>
  C5: what holds in every state the running proxy reaches. From a successful start, through
  any sequence of requests, health checks, announcements and steps of the goroutines: the
  breakers are closed; the queue holds at most 10000 writes and the batch fewer than 100; no
  object has changed its identity, and the local cache is still the memory backend \<open>main\<close>
  gave the service; the checker watches the same objects as at the start and nothing else is
  evicted; and a read of any key tries every registered object whose health flag is up at
  that moment, once, and no other.
\<close>

theorem every_run_keeps:
  assumes "boot E0 M sorter ns app hp w = Inr (s0, Some cs)"
    "\<forall>cfg \<in> set (ac_Backends app). \<forall>cb. bc_CircuitBreaker cfg = Some cb \<longrightarrow> config_in_range cb"
    "ah_service h = cs"
    "(proxy_step E bind gm h)\<^sup>*\<^sup>* (cs_ctx.truncate s0, bo_hc s0) (c, hc)"
  shows "all_closed (breakers c) \<and> length (queue c) \<le> 10000 \<and> length (batch c) < 100 \<and>
    (\<forall>p. Backend_ident (heap c p) = Backend_ident (heap s0 p)) \<and>
    (\<exists>p m. cs_localCache cs = Some p \<and> heap c p = MemoryBackend m) \<and>
    (\<forall>i. map_option he_backend (hc_backends hc i) = map_option he_backend (hc_backends (bo_hc s0) i)) \<and>
    (\<forall>i. IsEvicted hc i \<longrightarrow> hc_backends hc i \<noteq> None) \<and>
    (\<forall>xx ks key hint. key_order ks (map_of (r_backends (cs_router cs))) \<longrightarrow>
      set (GetBackendsForRead xx (heap c) (cs_router cs) ks key hint) =
        {p \<in> snd ` set (r_backends (cs_router cs)). obj_Healthy (heap c) p} \<and>
      distinct (map (obj_ID (heap c)) (GetBackendsForRead xx (heap c) (cs_router cs) ks key hint)))"
proof -
  let ?start = "(cs_ctx.truncate s0, bo_hc s0)"
  note b = boot_cases [OF assms(1,2)]
  then have ok: "boot_ok s0" and svc: "Some cs = boot_service app s0" "bo_local s0 \<noteq> LocalNil" by simp_all
  then obtain q m0 where cs: "cs = CacheService_New (ac_Cache app) (bo_router s0) (Some q)"
    and m0: "heap s0 q = MemoryBackend m0"
    by (auto simp: boot_service_def boot_ok_def split: local_cache.splits)
  have [simp]: "heap (cs_ctx.truncate s0) = heap s0" by (simp add: cs_ctx.truncate_def)
  have "proxy_ok cs ?start ?start"
    using ok by (simp add: proxy_ok_def boot_ok_def service_ok_def waiting_def cs_ctx.truncate_def)
  with proxy_run_ok [OF assms(4), of ?start] assms(3) have "proxy_ok cs ?start (c, hc)" by simp
  then have p: "service_ok cs c" "all_closed (breakers c)" "\<forall>p. Backend_ident (heap c p) = Backend_ident (heap s0 p)"
    "checker_ok hc" "map_option he_backend \<circ> hc_backends hc = map_option he_backend \<circ> hc_backends (bo_hc s0)"
    by (simp_all add: proxy_ok_def)
  have r: "router_ok (heap c) (cs_router cs)"
    using router_ok_ident [OF _ p(3)] ok cs by (simp add: boot_ok_def CacheService_New_def)
  have "\<exists>m. heap c q = MemoryBackend m" using m0 p(3) memory_ident by metis
  moreover have "map_option he_backend (hc_backends hc i) = map_option he_backend (hc_backends (bo_hc s0) i)" for i
    using fun_cong [OF p(5), of i] by simp
  moreover have "set (GetBackendsForRead xx (heap c) (cs_router cs) ks key hint) =
        {p \<in> snd ` set (r_backends (cs_router cs)). obj_Healthy (heap c) p} \<and>
      distinct (map (obj_ID (heap c)) (GetBackendsForRead xx (heap c) (cs_router cs) ks key hint))"
    if "key_order ks (map_of (r_backends (cs_router cs)))" for xx ks key hint
    using reads_set [of "heap c" "cs_router cs" ks] reads_distinct_IDs [of "heap c" "cs_router cs" ks] r that
    by (auto simp: live_backend_def)
  ultimately show ?thesis
    using p cs by (auto simp: service_ok_def checker_ok_def queue_capacity_def CacheService_New_def)
qed

lemma every_run_keeps_witness:
  "\<exists>s0 cs. boot sim_env sample_makers insertion_sort None sample_app_config sample_heap sim0 = Inr (s0, Some cs) \<and>
     all_closed (breakers (snd (serve sim_env (\<lambda>_. Inl ErrKeyNotFound) (\<lambda>_ _ _. Some (RouteGet, ''k''))
       \<lparr>ah_service = cs, ah_config = sample_app_config\<rparr> (bo_hc s0) [] sample_request (cs_ctx.truncate s0))))"
proof -
  obtain s0 cs where b: "boot sim_env sample_makers insertion_sort None sample_app_config sample_heap sim0 = Inr (s0, Some cs)"
    using sample_boot by blast
  let ?h = "\<lparr>ah_service = cs, ah_config = sample_app_config\<rparr>"
  let ?gm = "\<lambda>_ _ _. Some (RouteGet, ''k'')" and ?bind = "\<lambda>_. Inl ErrKeyNotFound"
  obtain rs c where c: "serve sim_env ?bind ?gm ?h (bo_hc s0) [] sample_request (cs_ctx.truncate s0) = (rs, c)" by fastforce
  then have "(proxy_step sim_env ?bind ?gm ?h)\<^sup>*\<^sup>* (cs_ctx.truncate s0, bo_hc s0) (c, bo_hc s0)"
    by (intro r_into_rtranclp proxy_step.request)
  moreover have "ac_Backends sample_app_config = []" by (simp add: sample_app_config_def)
  ultimately have "all_closed (breakers c)" using every_run_keeps [OF b, of ?h] by simp
  with b c show ?thesis by (intro exI [of _ s0] exI [of _ cs]) simp
qed

end
