(* ===== verification/Redis_Properties.thy ===== *)
theory Redis_Properties
  imports Redis_Backend Samples
begin

text \<open>
  What the Redis backend makes of a server that executes the documented commands
  (\<open>redis_exec\<close>): what a read answers in terms of the two keys of an entry, and that what was
  written is read until it expires.
\<close>

section \<open>The server\<close>

text \<open>
  The hypothesis on the client and the server: \<open>clock\<close> and \<open>store\<close> read the server's time and
  its data off the world, a call executes its commands at the current time, and time does
  not run backwards.
\<close>

definition redis_server :: "'w env \<Rightarrow> ('w \<Rightarrow> instant) \<Rightarrow> ('w \<Rightarrow> nat \<Rightarrow> redis_store) \<Rightarrow> bool" where
  "redis_server E clock store \<longleftrightarrow>
     (\<forall>h cmds w r w'. env_redis E h cmds w = (r, w') \<longrightarrow>
        r = fst (redis_exec (clock w) cmds (store w h)) \<and>
        store w' = (store w)(h := snd (redis_exec (clock w) cmds (store w h))) \<and> clock w \<le> clock w')"

lemma redis_serverD:
  assumes "redis_server E clock store"
  obtains w' where "env_redis E h cmds w = (fst (redis_exec (clock w) cmds (store w h)), w')"
    "store w' = (store w)(h := snd (redis_exec (clock w) cmds (store w h)))" "clock w \<le> clock w'"
proof -
  obtain r w' where "env_redis E h cmds w = (r, w')" by fastforce
  with assms that show thesis unfolding redis_server_def by blast
qed

lemma sim_redis_server: "redis_server sim_env sim_clock sim_redis"
  by (auto simp: redis_server_def split: prod.splits)

lemma versionKey_neq [simp]: "versionKey k \<noteq> k" "k \<noteq> versionKey k"
  by (simp_all add: versionKey_def)

lemma string_of_bytes_of_string [simp]: "string_of_bytes (bytes_of_string s) = s"
proof -
  have "char_of (unat (of_char c :: 8 word)) = c" for c :: char
  proof -
    have "(of_char c :: 8 word) = of_nat (of_char c)" by (simp only: of_nat_of_char)
    moreover have "(of_char c :: nat) < 256" by simp
    ultimately have "unat (of_char c :: 8 word) = of_char c" by (simp add: unat_of_nat)
    then show ?thesis by simp
  qed
  then show ?thesis by (simp add: string_of_bytes_def bytes_of_string_def comp_def)
qed

section \<open>Reading\<close>

text \<open>
  A read answers exactly this: without a live value, or without a live counter beside it,
  the key is missing; otherwise it returns the value, and as its version the number the
  counter's text begins with (0 if it is not a number). So a value another program wrote
  is not found, and an entry written under the key \<open>k:version\<close> sets the version of \<open>k\<close>.
\<close>

lemma Redis_Get_answer:
  assumes "redis_server E clock store" "rb_healthy r"
  shows "fst (Redis_Get E r k w) =
    (case (redis_alive (clock w) (store w (rb_client r)) k, redis_alive (clock w) (store w (rb_client r)) (versionKey k)) of
       (Some (v, _), Some (n, _)) \<Rightarrow>
         Inr \<lparr>entry_Key = k, entry_Value = v, entry_Version = fst (ParseUint (string_of_bytes n)), entry_TTL = 0\<rparr>
     | _ \<Rightarrow> Inl ErrKeyNotFound)"
proof -
  obtain w' where e: "env_redis E (rb_client r) [RedisGet k, RedisGet (versionKey k)] w =
      (fst (redis_exec (clock w) [RedisGet k, RedisGet (versionKey k)] (store w (rb_client r))), w')"
    using redis_serverD [OF assms(1)] by blast
  have "fst (ParseUint []) = 0" by (simp add: ParseUint_def)
  with e assms(2) show ?thesis
    by (auto simp: Redis_Get_def redis_exec_def reply_error_def List.map_filter_def cmd_Bytes_def reply_at_def Let_def
        split: option.splits prod.splits)
qed

section \<open>Reading what was written\<close>

text \<open>The counter before a write: what it says, and what is missing counts as 0.\<close>

definition counter :: "instant \<Rightarrow> redis_store \<Rightarrow> string \<Rightarrow> int option" where
  "counter t s k = (case redis_alive t s (versionKey k) of None \<Rightarrow> Some 0 | Some (n, _) \<Rightarrow> redis_int n)"

lemma itoa_one: "strconv_Itoa 1 = ''1''"
  by (simp add: strconv_Itoa_def itoa_nat.simps digit_char_def char_of_def bit_0)

lemma set_commands:
  assumes "0 < ttl"
  shows "redis_exec t [RedisSet k v ttl, RedisIncr (versionKey k), RedisExpire (versionKey k) ttl] s = (r, s') \<Longrightarrow>
    (fst r = None \<longleftrightarrow> (\<exists>n. counter t s k = Some n \<and> in_int64 (n + 1))) \<and>
    (\<forall>n. counter t s k = Some n \<and> in_int64 (n + 1) \<longrightarrow>
      s' = s(k \<mapsto> (v, Some (t + value_life ttl)),
             versionKey k \<mapsto> (bytes_of_string (strconv_Itoa (n + 1)), Some (t + counter_life ttl))))"
proof -
  note life = life_pos(2) [OF assms]
  assume r: "redis_exec t [RedisSet k v ttl, RedisIncr (versionKey k), RedisExpire (versionKey k) ttl] s = (r, s')"
  have a: "redis_alive t (s(k \<mapsto> x)) (versionKey k) = redis_alive t s (versionKey k)" for x
    by (simp add: redis_alive_def)
  have alive: "redis_alive t (s'(versionKey k \<mapsto> (x, d))) (versionKey k) = Some (x, d)"
    if "\<forall>u. d = Some u \<longrightarrow> t < u" for s' x d
    using that by (auto simp: redis_alive_def split: option.splits)
  have deadline: "\<forall>u. d = Some u \<longrightarrow> t < u" if "redis_alive t s (versionKey k) = Some (x, d)" for x d
    using that by (auto simp: redis_alive_def split: option.splits if_splits)
  show ?thesis
  proof (cases "redis_alive t s (versionKey k)")
    case None
    have "in_int64 (0 + 1)" by (simp add: in_int64_def)
    with None r assms life show ?thesis
      by (auto simp: redis_exec_def a alive counter_def itoa_one reply_error_def List.map_filter_def Let_def)
  next
    case (Some xd)
    obtain x d where xd: "xd = (x, d)" by fastforce
    note l = deadline [OF Some [unfolded xd]]
    show ?thesis
    proof (cases "redis_int x")
      case None
      with Some xd r assms show ?thesis
        by (auto simp: redis_exec_def a counter_def reply_error_def List.map_filter_def Let_def)
    next
      case (Some n)
      with \<open>redis_alive t s (versionKey k) = Some xd\<close> xd r assms l life show ?thesis
        by (auto simp: redis_exec_def a alive counter_def reply_error_def List.map_filter_def Let_def split: if_splits)
    qed
  qed
qed

lemma ParseUint_Itoa:
  assumes "in_int64 n"
  shows "fst (ParseUint (strconv_Itoa n)) = (if 0 \<le> n then word_of_int n else 0)"
proof (cases "0 \<le> n")
  case True
  with assms have "nat n < 2 ^ 64" by (simp add: in_int64_def)
  with True ParseUint_itoa [of "nat n"] show ?thesis by (simp add: strconv_Itoa_def)
next
  case False
  then show ?thesis by (simp add: strconv_Itoa_def ParseUint_def is_digit_def)
qed

text \<open>Redis reads back every number it writes.\<close>

lemma itoa_no_sign: "\<not> HasPrefix (itoa_nat n) ''-''"
proof -
  obtain c cs where c: "itoa_nat n = c # cs" using itoa_nat_nonempty [of n] by (cases "itoa_nat n") auto
  with itoa_nat_digits [of n] have "is_digit c" by simp
  then have "c \<noteq> CHR ''-''" by (auto simp: is_digit_def)
  with c show ?thesis by (simp add: HasPrefix_def)
qed

lemma redis_int_Itoa:
  assumes "in_int64 n"
  shows "redis_int (bytes_of_string (strconv_Itoa n)) = Some n"
proof -
  have "\<bar>n\<bar> < 18446744073709551616" using assms by (simp add: in_int64_def) linarith
  then have m: "nat \<bar>n\<bar> < 2 ^ 64" by (simp add: nat_less_iff)
  then have "ParseUint (itoa_nat (nat \<bar>n\<bar>)) = (word_of_int \<bar>n\<bar>, True)" using ParseUint_itoa [of "nat \<bar>n\<bar>"] by simp
  moreover have "uint (word_of_int \<bar>n\<bar> :: u64) = \<bar>n\<bar>"
    using m by (simp add: uint_word_of_int nat_less_iff)
  ultimately have u: "uint (fst (ParseUint (itoa_nat (nat \<bar>n\<bar>)))) = \<bar>n\<bar>" by simp
  show ?thesis
  proof (cases "n < 0")
    case True
    then have "strconv_Itoa n = CHR ''-'' # itoa_nat (nat \<bar>n\<bar>)" by (simp add: strconv_Itoa_def)
    with True u assms show ?thesis by (simp add: redis_int_def HasPrefix_def Let_def)
  next
    case False
    then have "strconv_Itoa n = itoa_nat (nat \<bar>n\<bar>)" by (simp add: strconv_Itoa_def)
    with False u assms show ?thesis by (simp add: redis_int_def itoa_no_sign Let_def)
  qed
qed

text \<open>The effective lifetime of an entry.\<close>

definition redis_ttl :: "redis_backend \<Rightarrow> entry \<Rightarrow> duration" where
  "redis_ttl r e = (if entry_TTL e \<le> 0 then rb_defaultTTL r else entry_TTL e)"

lemma Redis_Set_effect:
  assumes "redis_server E clock store" "rb_healthy r" "0 < redis_ttl r e" "Redis_Set E r e w = (None, r1, w1)"
  shows "\<exists>n. counter (clock w) (store w (rb_client r)) (entry_Key e) = Some n \<and> in_int64 (n + 1) \<and> r1 = r \<and>
    clock w \<le> clock w1 \<and>
    store w1 = (store w)(rb_client r := (store w (rb_client r))
      (entry_Key e \<mapsto> (entry_Value e, Some (clock w + value_life (redis_ttl r e))),
       versionKey (entry_Key e) \<mapsto> (bytes_of_string (strconv_Itoa (n + 1)), Some (clock w + counter_life (redis_ttl r e)))))"
proof -
  let ?cmds = "[RedisSet (entry_Key e) (entry_Value e) (redis_ttl r e), RedisIncr (versionKey (entry_Key e)),
    RedisExpire (versionKey (entry_Key e)) (redis_ttl r e)]"
  obtain w' where w': "env_redis E (rb_client r) ?cmds w = (fst (redis_exec (clock w) ?cmds (store w (rb_client r))), w')"
    "store w' = (store w)(rb_client r := snd (redis_exec (clock w) ?cmds (store w (rb_client r))))" "clock w \<le> clock w'"
    using redis_serverD [OF assms(1)] by blast
  obtain x s' where x: "redis_exec (clock w) ?cmds (store w (rb_client r)) = (x, s')" by fastforce
  from assms(2,4) w'(1) x have "fst x = None" "r1 = r" "w1 = w'"
    by (auto simp: Redis_Set_def redis_ttl_def [symmetric] split: prod.splits)
  with set_commands [OF assms(3) x] w'(2,3) x show ?thesis by auto
qed

text \<open>
  An entry is there as long as both its value and its counter are. That is the lifetime
  asked for if it is of whole seconds. Otherwise the counter goes first, with the last whole
  second, and lifetimes below a second are cut to milliseconds.
\<close>

definition entry_life :: "duration \<Rightarrow> duration" where
  "entry_life d = min (value_life d) (counter_life d)"

lemma entry_life_whole: "0 < n \<Longrightarrow> entry_life (n * Second) = n * Second"
  by (simp add: entry_life_def value_life_def counter_life_def sent_units_def)

lemma entry_life_cut:
  assumes "Second \<le> d"
  shows "entry_life d = d div Second * Second"
proof -
  have "d div Second * Second \<le> d div Millisecond * Millisecond"
  proof -
    have "d div Second * 1000 \<le> d div Millisecond"
      using assms div_mult_mod_eq [of d Second] pos_mod_sign [of Second d] by (simp add: int_div_less_self)
    then show ?thesis by simp
  qed
  with assms show ?thesis by (simp add: entry_life_def value_life_def counter_life_def sent_units_def)
qed

lemma entry_life_pos: "0 < d \<Longrightarrow> 0 < entry_life d"
  by (simp add: entry_life_def life_pos)

text \<open>
  C19: what was written is read back exactly until it expires. After a successful write, as
  long as the two keys in Redis are as the write left them, a read of the key returns the
  value and the next version before the lifetime of the entry has passed, and finds nothing
  from then on. The lifetime is the TTL cut to whole seconds (to milliseconds below one
  second), since the counter that a read requires is given its lifetime in seconds.
\<close>

theorem redis_read_after_write:
  assumes "redis_server E clock store" "rb_healthy r" "0 < redis_ttl r e" "Redis_Set E r e w = (None, r1, w1)"
    "\<forall>k \<in> {entry_Key e, versionKey (entry_Key e)}. store w2 (rb_client r) k = store w1 (rb_client r) k"
  shows "\<exists>n. counter (clock w) (store w (rb_client r)) (entry_Key e) = Some n \<and>
    fst (Redis_Get E r1 (entry_Key e) w2) =
      (if clock w2 < clock w + entry_life (redis_ttl r e)
       then Inr \<lparr>entry_Key = entry_Key e, entry_Value = entry_Value e,
                 entry_Version = (if 0 \<le> n + 1 then word_of_int (n + 1) else 0), entry_TTL = 0\<rparr>
       else Inl ErrKeyNotFound)"
proof -
  let ?l = "redis_ttl r e"
  obtain n where n: "counter (clock w) (store w (rb_client r)) (entry_Key e) = Some n" "in_int64 (n + 1)" "r1 = r"
    "store w1 = (store w)(rb_client r := (store w (rb_client r))
      (entry_Key e \<mapsto> (entry_Value e, Some (clock w + value_life ?l)),
       versionKey (entry_Key e) \<mapsto> (bytes_of_string (strconv_Itoa (n + 1)), Some (clock w + counter_life ?l))))"
    using Redis_Set_effect [OF assms(1-4)] by blast
  have "redis_alive (clock w2) (store w2 (rb_client r)) (entry_Key e) =
      (if clock w2 < clock w + value_life ?l then Some (entry_Value e, Some (clock w + value_life ?l)) else None)"
    "redis_alive (clock w2) (store w2 (rb_client r)) (versionKey (entry_Key e)) =
      (if clock w2 < clock w + counter_life ?l
       then Some (bytes_of_string (strconv_Itoa (n + 1)), Some (clock w + counter_life ?l)) else None)"
    using assms(5) n(4) by (simp_all add: redis_alive_def)
  with Redis_Get_answer [OF assms(1,2), of "entry_Key e" w2] n(1-3) ParseUint_Itoa [OF n(2)]
  show ?thesis by (simp add: entry_life_def min_def)
qed

definition sample_redis :: redis_backend where
  "sample_redis =
     \<lparr>rb_id = ''redis'', rb_name = ''redis'', rb_weight = 1, rb_healthy = True, rb_client = 0,
      rb_options = undefined, rb_defaultTTL = Second\<rparr>"

definition sample_entry :: entry where
  "sample_entry = \<lparr>entry_Key = ''k'', entry_Value = [7, 8], entry_Version = 0, entry_TTL = 0\<rparr>"

lemma redis_read_after_write_witness:
  "\<exists>r1 w1. Redis_Set sim_env sample_redis (sample_entry\<lparr>entry_TTL := 1900 * Millisecond\<rparr>) sim0 = (None, r1, w1) \<and>
     fst (Redis_Get sim_env r1 ''k'' (w1\<lparr>sim_clock := 999 * Millisecond\<rparr>)) =
       Inr \<lparr>entry_Key = ''k'', entry_Value = [7, 8], entry_Version = 1, entry_TTL = 0\<rparr> \<and>
     fst (Redis_Get sim_env r1 ''k'' (w1\<lparr>sim_clock := Second\<rparr>)) = Inl ErrKeyNotFound"
proof -
  let ?e = "sample_entry\<lparr>entry_TTL := 1900 * Millisecond\<rparr>"
  obtain w1 where w1: "Redis_Set sim_env sample_redis ?e sim0 = (None, sample_redis, w1)"
    by (simp add: Redis_Set_def sample_redis_def sample_entry_def sim0_def redis_exec_def redis_alive_def
        counter_life_def sent_units_def reply_error_def List.map_filter_def Let_def)
  have l: "redis_ttl sample_redis ?e = 1900 * Millisecond" "entry_life (1900 * Millisecond) = Second"
    "rb_healthy sample_redis" "counter 0 (sim_redis sim0 0) ''k'' = Some 0"
    by (simp_all add: redis_ttl_def sample_redis_def sample_entry_def counter_def sim0_def redis_alive_def entry_life_cut)
  from redis_read_after_write [OF sim_redis_server _ _ w1, of "w1\<lparr>sim_clock := 999 * Millisecond\<rparr>"]
    redis_read_after_write [OF sim_redis_server _ _ w1, of "w1\<lparr>sim_clock := Second\<rparr>"] w1 l show ?thesis
    by (auto simp: sample_entry_def sim0_def sample_redis_def)
qed

end
