(* ===== verification/End_To_End.thy ===== *)
theory End_To_End
  imports Redis_Properties Api_Properties
begin

text \<open>
  A value on its whole way: from the body of a write request through the service, the router
  and the Redis backend to the server, and back into the answer of a read request.
\<close>

section \<open>Steps that do not touch the server\<close>

text \<open>
  The rest of the environment beside a Redis server (see \<open>redis_server\<close>): reading the clock,
  drawing the order of a map and the local cache leave the server's data alone, and time
  does not run backwards in them.
\<close>

definition later :: "('w \<Rightarrow> instant) \<Rightarrow> ('w \<Rightarrow> nat \<Rightarrow> redis_store) \<Rightarrow> 'w \<Rightarrow> 'w \<Rightarrow> bool" where
  "later clock store w w' \<longleftrightarrow> store w' = store w \<and> clock w \<le> clock w'"

definition steady :: "'w env \<Rightarrow> ('w \<Rightarrow> instant) \<Rightarrow> ('w \<Rightarrow> nat \<Rightarrow> redis_store) \<Rightarrow> bool" where
  "steady E clock store \<longleftrightarrow>
     (\<forall>w. later clock store w (snd (env_now E w))) \<and>
     (\<forall>ks w. later clock store w (snd (env_iter E ks w))) \<and>
     (\<forall>h k w. later clock store w (snd (env_cache_get E h k w))) \<and>
     (\<forall>h k v n d w. later clock store w (snd (env_cache_set E h k v n d w)))"

lemma sim_steady: "steady sim_env sim_clock sim_redis"
  by (simp add: steady_def later_def)

definition local_memory :: "cache_service \<Rightarrow> (bref \<Rightarrow> backend) \<Rightarrow> bool" where
  "local_memory cs h \<longleftrightarrow> (\<forall>q. cs_localCache cs = Some q \<longrightarrow> (\<exists>m. h q = MemoryBackend m))"

definition undisturbed ::
  "('w \<Rightarrow> instant) \<Rightarrow> ('w \<Rightarrow> nat \<Rightarrow> redis_store) \<Rightarrow> cache_service \<Rightarrow>
   ('w, 'z) cs_ctx_scheme \<Rightarrow> ('w, 'z) cs_ctx_scheme \<Rightarrow> bool" where
  "undisturbed clock store cs c c' \<longleftrightarrow>
     later clock store (world c) (world c') \<and> quiet c c' \<and>
     (\<forall>x. cs_localCache cs \<noteq> Some x \<longrightarrow> heap c' x = heap c x) \<and>
     (local_memory cs (heap c) \<longrightarrow> local_memory cs (heap c'))"

named_theorems still

lemma undisturbed_refl [still]: "undisturbed clock store cs c c"
  by (simp add: undisturbed_def later_def)

lemma undisturbed_trans:
  "undisturbed clock store cs c c' \<Longrightarrow> undisturbed clock store cs c' c'' \<Longrightarrow> undisturbed clock store cs c c''"
  by (auto simp: undisturbed_def later_def dest: quiet_trans)

lemma undisturbed_same:
  fixes c c' :: "('w, 'z) cs_ctx_scheme"
  shows "world c' = world c \<Longrightarrow> heap c' = heap c \<Longrightarrow> quiet c c' \<Longrightarrow> undisturbed clock store cs c c'"
  by (simp add: undisturbed_def later_def)

lemma undisturbed_world:
  fixes c :: "('w, 'z) cs_ctx_scheme"
  shows "later clock store (world c) w \<Longrightarrow> undisturbed clock store cs c (c\<lparr>world := w\<rparr>)"
  by (simp add: undisturbed_def)

lemma undisturbed_metric [still]: "undisturbed clock store cs c (record_metric f c)"
  by (rule undisturbed_same) simp_all

lemma undisturbed_spawn [still]: "undisturbed clock store cs c (spawn_local_set e c)"
  by (rule undisturbed_same) (simp_all add: spawn_local_set_def)

lemma undisturbed_Now [still]:
  "steady E clock store \<Longrightarrow> time_Now E c = (t, c') \<Longrightarrow> undisturbed clock store cs c c'"
  by (auto simp: time_Now_def steady_def intro!: undisturbed_world split: prod.splits dest: spec [of _ "world c"])

lemma undisturbed_latency [still]:
  assumes "steady E clock store"
  shows "undisturbed clock store cs c (record_latency E op t c)"
  unfolding record_latency_def time_Since_def Let_def
  using undisturbed_Now [OF assms, of c] undisturbed_trans [OF _ undisturbed_metric]
  by (fastforce intro: undisturbed_refl split: option.splits prod.splits)

lemma undisturbed_write [still]:
  "steady E clock store \<Longrightarrow> route_write E cs key hint c = (r, c') \<Longrightarrow> undisturbed clock store cs' c c'"
  by (auto simp: route_write_def steady_def intro!: undisturbed_world split: prod.splits
      dest: spec2 [of _ "map fst (r_backends (cs_router cs))" "world c"])

lemma undisturbed_read [still]:
  "steady E clock store \<Longrightarrow> route_read E cs key hint c = (r, c') \<Longrightarrow> undisturbed clock store cs' c c'"
  by (auto simp: route_read_def steady_def intro!: undisturbed_world split: prod.splits
      dest: spec2 [of _ "map fst (r_backends (cs_router cs))" "world c"])

lemma undisturbed_guard:
  assumes "all_closed (breakers c)" "guard E p c = (r, c')"
  shows "r = None \<and> undisturbed clock store cs c c'"
  using guard_quiet [OF assms] by (simp add: undisturbed_same)

lemma undisturbed_local_call:
  fixes c c' :: "('w, 'z) cs_ctx_scheme"
  assumes "obj_call op q c = (r, c')" "cs_localCache cs = Some q" "quiet c c'"
    "\<And>m. heap c q = MemoryBackend m \<Longrightarrow> \<exists>m' w. snd (op (heap c q) (world c)) = (MemoryBackend m', w) \<and> later clock store (world c) w"
    "local_memory cs (heap c)"
  shows "undisturbed clock store cs c c'"
proof -
  obtain m where m: "heap c q = MemoryBackend m" using assms(2,5) by (auto simp: local_memory_def)
  from assms(4) [OF m] obtain m' w r' where "op (heap c q) (world c) = (r', MemoryBackend m', w)" "later clock store (world c) w"
    by (metis prod.collapse)
  with assms(1-3) show ?thesis
    by (auto simp: obj_call_def undisturbed_def local_memory_def)
qed

lemma undisturbed_local_Get:
  assumes "steady E clock store" "obj_Get E q k c = (r, c')" "cs_localCache cs = Some q" "local_memory cs (heap c)"
  shows "undisturbed clock store cs c c'"
proof (rule undisturbed_local_call [OF assms(2) [unfolded obj_Get_def] assms(3) _ _ assms(4)])
  show "quiet c c'" using obj_Get_cs [OF assms(2)] by blast
  fix m assume m: "heap c q = MemoryBackend m"
  have l: "later clock store (world c) (snd (env_cache_get E (mb_cache m) k (world c)))"
    using assms(1) by (simp add: steady_def)
  show "\<exists>m' w. snd (Backend_Get E (heap c q) k (world c)) = (MemoryBackend m', w) \<and> later clock store (world c) w"
    using l by (auto simp: m Backend_Get_def on_object_def Memory_Get_def later_def
        split: prod.splits option.splits any_value.splits)
qed

lemma undisturbed_write_local:
  assumes "steady E clock store" "local_memory cs (heap c)"
  shows "undisturbed clock store cs c (write_local E cs e c)"
proof (cases "cs_localCache cs")
  case None
  then show ?thesis by (simp add: write_local_def undisturbed_refl)
next
  case (Some q)
  obtain r c' where o: "obj_Set E q e c = (r, c')" by fastforce
  have "undisturbed clock store cs c c'"
  proof (rule undisturbed_local_call [OF o [unfolded obj_Set_def] Some _ _ assms(2)])
    show "quiet c c'" using obj_Set_cs [OF o] by blast
    fix m assume m: "heap c q = MemoryBackend m"
    have l: "later clock store (world c) (snd (env_cache_set E (mb_cache m) (entry_Key e) v n d (world c)))" for v n d
      using assms(1) by (simp add: steady_def)
    show "\<exists>m' w. snd (Backend_Set E (heap c q) e (world c)) = (MemoryBackend m', w) \<and> later clock store (world c) w"
      using l by (auto simp: m Backend_Set_def on_object_def Memory_Set_def later_def Let_def split: prod.splits)
        (metis snd_conv)+
  qed
  with Some o show ?thesis by (simp add: write_local_def)
qed

lemma undisturbed_conflict:
  assumes "steady E clock store" "local_memory cs (heap c)" "set_conflict E cs e opts c = (b, c')"
  shows "undisturbed clock store cs c c'"
  using assms(3) undisturbed_local_Get [OF assms(1) _ _ assms(2)]
  by (auto simp: set_conflict_def undisturbed_refl split: if_splits option.splits prod.splits sum.splits)

section \<open>The write\<close>

text \<open>The live backend that a hint or a rule names for a key.\<close>

definition named_target :: "'w env \<Rightarrow> cache_service \<Rightarrow> (bref \<Rightarrow> backend) \<Rightarrow> string \<Rightarrow> string \<Rightarrow> bref option" where
  "named_target E cs h key hint = first_live h (cs_router cs) (candidates (env_xxhash E) (cs_router cs) key hint)"

lemma named_target_view:
  assumes "\<forall>p. Backend_Healthy (h' p) = Backend_Healthy (h p)"
  shows "named_target E cs h' key hint = named_target E cs h key hint"
proof -
  have "live h' r i = live h r i" for r i
    using assms by (simp add: live_def obj_Healthy_def split: option.split)
  then have "first_live h' r is = first_live h r is" for r "is"
    by (induction "is") (simp_all split: option.split)
  then show ?thesis by (simp add: named_target_def)
qed

lemma undisturbed_target:
  "undisturbed clock store cs c c' \<Longrightarrow> named_target E cs (heap c') key hint = named_target E cs (heap c) key hint"
  by (rule named_target_view) (simp add: undisturbed_def quiet_def)

lemma route_write_named:
  assumes "named_target E cs (heap c) key hint = Some p"
  shows "\<exists>c'. route_write E cs key hint c = (Inr p, c')"
  using assms by (auto simp: named_target_def route_write_def GetBackend_candidates split: prod.splits)

lemma write_backend_reaches:
  assumes "steady E clock store" "all_closed (breakers c)" "named_target E cs (heap c) (entry_Key e) (so_RoutingHint opts) = Some p"
    "write_backend E cs e opts c = (Inr i, c')"
  shows "\<exists>c1. undisturbed clock store cs c c1 \<and> obj_Set E p e c1 = (None, c')"
proof -
  obtain c1 where r: "route_write E cs (entry_Key e) (so_RoutingHint opts) c = (Inr p, c1)"
    using route_write_named [OF assms(3)] by blast
  have u1: "undisturbed clock store cs c c1" by (rule undisturbed_write [OF assms(1) r])
  have "all_closed (breakers c1)" using route_write_cs [OF r] assms(2) by simp
  moreover obtain g c2 where g: "guard E p c1 = (g, c2)" by fastforce
  ultimately have g': "g = None" "undisturbed clock store cs c1 c2" using undisturbed_guard by blast+
  with assms(4) r g have "obj_Set E p e c2 = (None, c')"
    by (auto simp: write_backend_def Let_def split: prod.splits option.splits)
  with undisturbed_trans [OF u1 g'(2)] show ?thesis by blast
qed

text \<open>What a write of the service hands to the backend.\<close>

definition written :: "cache_service \<Rightarrow> set_options \<Rightarrow> entry \<Rightarrow> entry" where
  "written cs opts e = e\<lparr>entry_TTL := getTTL (cs_defaultTTL cs) [entry_TTL e, so_TTL opts]\<rparr>"

definition effective_mode :: "cache_service \<Rightarrow> set_options \<Rightarrow> ReadWriteMode" where
  "effective_mode cs opts = (if so_Mode opts = ReadWriteModeEmpty then cs_mode cs else so_Mode opts)"

lemma set_reaches:
  assumes S: "steady E clock store" and L: "local_memory cs (heap c)" and C: "all_closed (breakers c)"
    and T: "named_target E cs (heap c) (entry_Key e) (so_RoutingHint (set_or_zero o1)) = Some p"
    and M: "effective_mode cs (set_or_zero o1) \<noteq> ReadWriteModeWriteBehind" "value_size e \<le> cs_maxValueSize cs"
    and R: "CacheService_Set E cs e o1 c = (None, c')"
  shows "\<exists>c1 c2. undisturbed clock store cs c c1 \<and> obj_Set E p (written cs (set_or_zero o1) e) c1 = (None, c2) \<and>
    undisturbed clock store cs c2 c'"
proof -
  let ?opts = "set_or_zero o1" and ?e = "written cs (set_or_zero o1) e"
  obtain t c0 where t: "time_Now E c = (t, c0)" by fastforce
  let ?c0 = "record_metric (RecordValueSize ''cache'' ''set'' (value_size e)) c0"
  have u0: "undisturbed clock store cs c ?c0"
    using undisturbed_Now [OF S t] undisturbed_metric undisturbed_trans by blast
  obtain err c4 where b: "set_body E cs e ?opts ?c0 = (err, c4)" by fastforce
  with R t have err: "err = None" and c': "c' = record_latency E ''set'' t c4"
    by (simp_all add: CacheService_Set_def Let_def)
  obtain k c1 where k: "set_conflict E cs e ?opts ?c0 = (k, c1)" by fastforce
  have "local_memory cs (heap ?c0)" using u0 L by (simp add: undisturbed_def)
  then have u1: "undisturbed clock store cs c c1"
    by (rule undisturbed_trans [OF u0 undisturbed_conflict [OF S _ k]])
  from u1 L C have l1: "local_memory cs (heap c1)" and cl1: "all_closed (breakers c1)"
    by (auto simp: undisturbed_def quiet_def)
  have tgt: "named_target E cs (heap x) (entry_Key ?e) (so_RoutingHint ?opts) = Some p"
    if "undisturbed clock store cs c x" for x
    using T undisturbed_target [OF that, of E] by (simp add: written_def)
  have "\<not> k" using b k M err by (auto simp: set_body_def Let_def)
  with b k M err have body: "setWriteThrough E cs ?e ?opts c1 = (None, c4) \<or> setCacheAside E cs ?e ?opts c1 = (None, c4)"
    by (auto simp: set_body_def Let_def written_def effective_mode_def split: ReadWriteMode.splits if_splits)
  have "\<exists>x y. undisturbed clock store cs c x \<and> obj_Set E p ?e x = (None, y) \<and> undisturbed clock store cs y c4"
    using body
  proof
    assume w: "setWriteThrough E cs ?e ?opts c1 = (None, c4)"
    obtain r c2 where r: "write_backend E cs ?e ?opts c1 = (r, c2)" by fastforce
    with w obtain i where i: "r = Inr i" by (auto simp: setWriteThrough_def split: sum.splits)
    with write_backend_reaches [OF S cl1 tgt [OF u1]] r obtain x where
      "undisturbed clock store cs c1 x" "obj_Set E p ?e x = (None, c2)" by blast
    moreover have "undisturbed clock store cs c2 c4"
      using w r i undisturbed_trans [OF undisturbed_spawn undisturbed_metric] undisturbed_metric
      by (auto simp: setWriteThrough_def)
    ultimately show ?thesis using undisturbed_trans [OF u1] by blast
  next
    assume w: "setCacheAside E cs ?e ?opts c1 = (None, c4)"
    have u2: "undisturbed clock store cs c (write_local E cs ?e c1)"
      using undisturbed_trans [OF u1 undisturbed_write_local [OF S l1]] .
    then have cl2: "all_closed (breakers (write_local E cs ?e c1))" using C by (auto simp: undisturbed_def quiet_def)
    obtain r c2 where r: "write_backend E cs ?e ?opts (write_local E cs ?e c1) = (r, c2)" by fastforce
    with w obtain i where i: "r = Inr i" by (auto simp: setCacheAside_def split: sum.splits)
    with write_backend_reaches [OF S cl2 tgt [OF u2]] r obtain x where
      "undisturbed clock store cs (write_local E cs ?e c1) x" "obj_Set E p ?e x = (None, c2)" by blast
    moreover have "undisturbed clock store cs c2 c4"
      using w r i undisturbed_metric by (auto simp: setCacheAside_def)
    ultimately show ?thesis using undisturbed_trans [OF u2] by blast
  qed
  then show ?thesis using undisturbed_latency [OF S] undisturbed_trans c' by blast
qed

section \<open>Write, then read\<close>

lemma obj_Set_redis:
  assumes "redis_server E clock store" "heap c p = RedisBackend r" "rb_healthy r" "0 < redis_ttl r e"
    "obj_Set E p e c = (None, c')"
  shows "\<exists>n. in_int64 (n + 1) \<and> heap c' p = RedisBackend r \<and> clock (world c) \<le> clock (world c') \<and>
    (\<forall>x. x \<in> {entry_Key e, versionKey (entry_Key e)} \<longrightarrow> store (world c') (rb_client r) x =
      Some (if x = entry_Key e then entry_Value e else bytes_of_string (strconv_Itoa (n + 1)),
            Some (clock (world c) + (if x = entry_Key e then value_life else counter_life) (redis_ttl r e))))"
proof -
  obtain err r1 w1 where s: "Redis_Set E r e (world c) = (err, r1, w1)" by (metis prod_cases3)
  with assms(2,5) have "err = None" and c': "heap c' p = RedisBackend r1" "world c' = w1"
    by (auto simp: obj_Set_def obj_call_def Backend_Set_def on_object_def)
  with Redis_Set_effect [OF assms(1,3,4)] s obtain n where "in_int64 (n + 1)" "r1 = r" "clock (world c) \<le> clock w1"
    "store w1 = (store (world c))(rb_client r := (store (world c) (rb_client r))
      (entry_Key e \<mapsto> (entry_Value e, Some (clock (world c) + value_life (redis_ttl r e))),
       versionKey (entry_Key e) \<mapsto> (bytes_of_string (strconv_Itoa (n + 1)), Some (clock (world c) + counter_life (redis_ttl r e)))))"
    by blast
  with c' show ?thesis by (intro exI [of _ n]) auto
qed

text \<open>A read that skips the local cache, of a key whose named target is a Redis backend that has it.\<close>

lemma get_from_redis:
  assumes "redis_server E clock store" "steady E clock store" "all_closed (breakers c)" "router_ok (heap c) (cs_router cs)"
    "named_target E cs (heap c) key (go_RoutingHint opts) = Some p" "heap c p = RedisBackend r" "rb_healthy r"
    "go_SkipCache opts" "go_Version opts = 0"
    "time_Now E c = (t, c0)"
    "route_read E cs key (go_RoutingHint opts) (record_metric (RecordMiss ''local'') c0) = (ps, c1)"
    "store (world c) (rb_client r) key = Some (v, Some d)"
    "store (world c) (rb_client r) (versionKey key) = Some (n, Some d')"
    "clock (world c1) < min d d'"
  shows "fst (CacheService_Get E cs key (Some opts) c) =
    Inr \<lparr>entry_Key = key, entry_Value = v, entry_Version = fst (ParseUint (string_of_bytes n)), entry_TTL = 0\<rparr>"
proof -
  have u: "undisturbed clock store cs c c1"
    using undisturbed_trans [OF undisturbed_trans [OF undisturbed_Now [OF assms(2,10)] undisturbed_metric]
      undisturbed_read [OF assms(2,11)]] .
  have st: "store (world c1) = store (world c)" using u by (simp add: undisturbed_def later_def)
  have heap: "heap c1 = heap c" using time_Now_cs [OF assms(10)] route_read_cs [OF assms(11)] by simp
  have "\<exists>qs. ps = p # qs"
    using assms(4,5,11) first_live_hd [of "heap c" "cs_router cs" "candidates (env_xxhash E) (cs_router cs) key (go_RoutingHint opts)" p]
      time_Now_cs [OF assms(10)]
    by (auto simp: route_read_def named_target_def GetBackendsForRead_list split: prod.splits)
  then obtain qs where ps: "ps = p # qs" by blast
  have l: "get_local E cs key (get_or_zero (Some opts)) c0 = (None, 0, c0)"
    using assms(8) by (simp add: get_local_def get_or_zero_def split: option.split)
  have alive: "redis_alive (clock (world c1)) (store (world c1) (rb_client r)) key = Some (v, Some d)"
    "redis_alive (clock (world c1)) (store (world c1) (rb_client r)) (versionKey key) = Some (n, Some d')"
    using assms(12-14) st by (simp_all add: redis_alive_def)
  let ?e = "\<lparr>entry_Key = key, entry_Value = v, entry_Version = fst (ParseUint (string_of_bytes n)), entry_TTL = 0\<rparr>"
  obtain r' b w' where g: "Backend_Get E (heap c1 p) key (world c1) = (r', b, w')" by (metis prod_cases3)
  with assms(6) heap Redis_Get_answer [OF assms(1,7), of key "world c1"] alive have "r' = Inr ?e"
    by (auto simp: Backend_Get_def on_object_def split: prod.splits)
  moreover have "\<not> stale_version cs (get_or_zero (Some opts)) ?e"
    using assms(9) by (simp add: stale_version_def get_or_zero_def)
  ultimately show ?thesis
    using get_resolves [OF assms(3,10) l] assms(11) ps g by (simp add: get_or_zero_def)
qed

text \<open>
  C4: what a write stores a read returns. A write request that was answered with success, in
  any mode but write-behind, for a key that a hint or a rule sends to a healthy Redis
  backend, put its value there; a later read request with the same hint that skips the local
  cache and asks for no version is answered with 200 and a value that decodes to the same
  bytes, as long as the lifetime of the entry (its TTL cut to whole seconds), from the start
  of the write, has not passed when the backends are asked and nobody changed the two keys in Redis. In between anything
  else may have happened to the proxy.
\<close>

theorem write_then_read:
  fixes c d :: "('w, 'z) cs_ctx_scheme"
  assumes server: "redis_server E clock store" "steady E clock store" and "router_ok (heap d) (cs_router (ah_service h))"
    and req: "bind (rq_Body rq) = Inr req" "b64_decode (sr_Value req) = Some bs" "value_size (entry_of req bs) \<le> cs_maxValueSize (ah_service h)"
    and mode: "effective_mode (ah_service h) (set_options_of rq req) \<noteq> ReadWriteModeWriteBehind"
    and wrote: "Api_Set E bind h rq c = (rs, c')" "rs_Status rs = 200"
    and before: "all_closed (breakers c)" "local_memory (ah_service h) (heap c)"
      "named_target E (ah_service h) (heap c) (sr_Key req) (query_get (rq_Query rq) ''hint'') = Some p"
      "heap c p = RedisBackend r" "rb_healthy r"
    and lifetime: "redis_ttl r (written (ah_service h) (set_options_of rq req) (entry_of req bs)) = l" "0 < l"
    and read: "rq_Key rq' = sr_Key req" "sr_Key req \<noteq> ''''" "query_get (rq_Query rq') ''hint'' = query_get (rq_Query rq) ''hint''"
      "query_get (rq_Query rq') ''skip_cache'' = ''true''" "query_get (rq_Query rq') ''version'' = ''''"
    and after: "all_closed (breakers d)" "heap d p = heap c' p"
      "named_target E (ah_service h) (heap d) (sr_Key req) (query_get (rq_Query rq) ''hint'') = Some p"
      "\<forall>k \<in> {sr_Key req, versionKey (sr_Key req)}. store (world d) (rb_client r) k = store (world c') (rb_client r) k"
    and asked: "time_Now E d = (t, d0)"
      "route_read E (ah_service h) (sr_Key req) (query_get (rq_Query rq) ''hint'') (record_metric (RecordMiss ''local'') d0) = (ps, d1)"
      "clock (world d1) < clock (world c) + entry_life l"
  shows "\<exists>g. rs_Status (fst (Api_Get E h rq' d)) = 200 \<and> rs_Body (fst (Api_Get E h rq' d)) = GetBody g \<and>
    gr_Key g = sr_Key req \<and> b64_decode (gr_Value g) = Some bs"
proof -
  let ?cs = "ah_service h" and ?opts = "set_options_of rq req" and ?e = "entry_of req bs"
  let ?w = "written ?cs ?opts ?e"
  have w: "entry_Key ?w = sr_Key req" "entry_Value ?w = bs" by (simp_all add: written_def entry_of_def)
  have S: "CacheService_Set E ?cs ?e (Some ?opts) c = (None, c')"
    using wrote req by (auto simp: Api_Set_def Let_def failed_status split: prod.splits option.splits if_splits)
  have "named_target E ?cs (heap c) (entry_Key ?e) (so_RoutingHint (set_or_zero (Some ?opts))) = Some p"
    using before(3) by (simp add: entry_of_def set_or_zero_def set_options_of_def)
  from set_reaches [OF server(2) before(2,1) this _ req(3) S] mode obtain c1 c2 where
    c1: "undisturbed clock store ?cs c c1" and o: "obj_Set E p ?w c1 = (None, c2)" and c2: "undisturbed clock store ?cs c2 c'"
    by (auto simp: set_or_zero_def)
  have p: "cs_localCache ?cs \<noteq> Some p" using before(2,4) by (auto simp: local_memory_def)
  then have "heap c1 p = RedisBackend r" using c1 before(4) by (simp add: undisturbed_def)
  from obj_Set_redis [OF server(1) this before(5) _ o] lifetime obtain n where n: "in_int64 (n + 1)" "heap c2 p = RedisBackend r"
    "\<forall>x. x \<in> {sr_Key req, versionKey (sr_Key req)} \<longrightarrow> store (world c2) (rb_client r) x =
      Some (if x = sr_Key req then bs else bytes_of_string (strconv_Itoa (n + 1)),
            Some (clock (world c1) + (if x = sr_Key req then value_life else counter_life) l))"
    using w by auto
  have hd: "heap d p = RedisBackend r" using n(2) c2 p after(2) by (simp add: undisturbed_def)
  have "store (world c') = store (world c2)" "clock (world c) \<le> clock (world c1)"
    using c1 c2 by (simp_all add: undisturbed_def later_def)
  then have "store (world d) (rb_client r) (sr_Key req) = Some (bs, Some (clock (world c1) + value_life l))"
    "store (world d) (rb_client r) (versionKey (sr_Key req)) =
      Some (bytes_of_string (strconv_Itoa (n + 1)), Some (clock (world c1) + counter_life l))"
    "clock (world d1) < min (clock (world c1) + value_life l) (clock (world c1) + counter_life l)"
    using n(3) after(4) asked(3) by (simp_all add: entry_life_def min_def split: if_splits)
  moreover have go: "go_RoutingHint (get_options_of rq') = query_get (rq_Query rq) ''hint''" "go_SkipCache (get_options_of rq')"
    "go_Version (get_options_of rq') = 0"
    using read by (simp_all add: get_options_of_def split: prod.split)
  ultimately obtain v where "fst (CacheService_Get E ?cs (sr_Key req) (Some (get_options_of rq')) d) =
      Inr \<lparr>entry_Key = sr_Key req, entry_Value = bs, entry_Version = v, entry_TTL = 0\<rparr>"
    using get_from_redis [OF server after(1) assms(3), of "sr_Key req" "get_options_of rq'" p r t d0 ps d1] hd before(5) after(3) asked(1,2)
    by simp
  then show ?thesis
    using read by (auto simp: Api_Get_def split: prod.splits)
qed

section \<open>A sample\<close>

definition sample_redis_heap :: "bref \<Rightarrow> backend" where
  "sample_redis_heap = sample_heap(1 := RedisBackend (sample_redis\<lparr>rb_id := ''redis-master'', rb_defaultTTL := Minute\<rparr>))"

abbreviation sample_redis_ctx :: "sim cs_ctx" where
  "sample_redis_ctx \<equiv> sample_cs_ctx\<lparr>heap := sample_redis_heap\<rparr>"

abbreviation sample_bind :: "string \<Rightarrow> go_error + SetRequest" where
  "sample_bind \<equiv> \<lambda>_. Inr \<lparr>sr_Key = ''user:profile:7'', sr_Value = b64_encode [7, 8, 9], sr_Version = 0, sr_TTL = 0\<rparr>"

definition sample_skip :: gin_request where
  "sample_skip = sample_request\<lparr>rq_Key := ''user:profile:7'', rq_Query := query_set ''skip_cache'' ''true'' (\<lambda>_. [])\<rparr>"

lemma sample_redis_heap_simps [simp]:
  "sample_redis_heap (Suc 0) = RedisBackend (sample_redis\<lparr>rb_id := ''redis-master'', rb_defaultTTL := Minute\<rparr>)"
  "obj_ID sample_redis_heap p = obj_ID sample_heap p" "obj_Healthy sample_redis_heap p = obj_Healthy sample_heap p"
  by (simp_all add: sample_redis_heap_def obj_ID_def obj_Healthy_def Backend_ident_def Redis_ident_def Backend_Healthy_def
      sample_heap_def sample_object_def Memory_ident_def sample_redis_def)

lemma sample_redis_router: "router_ok sample_redis_heap sample_router"
  using sample_table by (simp add: router_ok_def)

lemma sample_named: "named_target sim_env (sample_service None) sample_redis_heap ''user:profile:7'' '''' = Some 1"
  using sample_live(2) by (simp add: named_target_def candidates_def sample_profile_rule live_def)

lemma sample_skip_read:
  assumes "heap c = sample_redis_heap"
  shows "\<exists>ps. route_read sim_env (sample_service None) ''user:profile:7'' '''' c = (ps, c)"
  by (simp add: route_read_def)

lemma counter_written:
  "s (versionKey k) = Some (bytes_of_string (strconv_Itoa n), Some d) \<Longrightarrow> t < d \<Longrightarrow> in_int64 n \<Longrightarrow> counter t s k = Some n"
  by (simp add: counter_def redis_alive_def redis_int_Itoa)

lemma sim_redis_count:
  assumes "heap c p = RedisBackend r" "rb_healthy r" "0 < redis_ttl r e"
    "counter (sim_clock (world c)) (sim_redis (world c) (rb_client r)) (entry_Key e) = Some n" "in_int64 (n + 1)"
  shows "\<exists>c'. obj_Set sim_env p e c = (None, c') \<and> sim_clock (world c') = sim_clock (world c) \<and>
    heap c' = heap c \<and> breakers c' = breakers c \<and> mtr c' = mtr c \<and>
    sim_redis (world c') (rb_client r) (versionKey (entry_Key e)) =
      Some (bytes_of_string (strconv_Itoa (n + 1)), Some (sim_clock (world c) + counter_life (redis_ttl r e)))"
proof -
  let ?t = "sim_clock (world c)" and ?s = "sim_redis (world c) (rb_client r)"
  let ?cmds = "[RedisSet (entry_Key e) (entry_Value e) (redis_ttl r e), RedisIncr (versionKey (entry_Key e)),
    RedisExpire (versionKey (entry_Key e)) (redis_ttl r e)]"
  obtain x s' where x: "redis_exec ?t ?cmds ?s = (x, s')" by fastforce
  with set_commands [OF assms(3) x] assms(4,5) have "fst x = None" and
    s': "s' (versionKey (entry_Key e)) = Some (bytes_of_string (strconv_Itoa (n + 1)), Some (?t + counter_life (redis_ttl r e)))"
    by auto
  then obtain rs where "redis_exec ?t ?cmds ?s = ((None, rs), s')"
    using x by (cases x) simp
  then obtain w' where w': "Redis_Set sim_env r e (world c) = (None, r, w')" "sim_clock w' = sim_clock (world c)"
      "sim_redis w' (rb_client r) = s'"
    using assms(2) unfolding Redis_Set_def redis_ttl_def [symmetric] by (simp add: Let_def)
  with s' assms(1) show ?thesis by (simp add: obj_Set_def obj_call_def Backend_Set_def on_object_def fun_upd_idem)
qed

lemma sim_redis_set:
  assumes "heap c p = RedisBackend r" "rb_healthy r" "sim_redis (world c) (rb_client r) = (\<lambda>_. None)" "0 < redis_ttl r e"
  shows "\<exists>c'. obj_Set sim_env p e c = (None, c') \<and> sim_clock (world c') = sim_clock (world c) \<and>
    heap c' = heap c \<and> breakers c' = breakers c \<and> mtr c' = mtr c"
  using sim_redis_count [OF assms(1,2,4), of 0] assms(3) by (auto simp: counter_def redis_alive_def in_int64_def)

lemma sample_redis_set:
  assumes "heap c = sample_redis_heap" "sim_redis (world c) = (\<lambda>_ _. None)"
    "redis_ttl (sample_redis\<lparr>rb_id := ''redis-master'', rb_defaultTTL := Minute\<rparr>) e = 5 * Minute"
  shows "\<exists>c'. obj_Set sim_env 1 e c = (None, c') \<and> sim_clock (world c') = sim_clock (world c) \<and>
    heap c' = sample_redis_heap \<and> breakers c' = breakers c \<and> mtr c' = mtr c"
  using sim_redis_set [of c 1 "sample_redis\<lparr>rb_id := ''redis-master'', rb_defaultTTL := Minute\<rparr>" e] assms
  by (simp add: sample_redis_def)

lemma sample_set:
  "\<exists>c'. CacheService_Set sim_env (sample_service None) (entry_of \<lparr>sr_Key = ''user:profile:7'', sr_Value = b64_encode [7, 8, 9], sr_Version = 0, sr_TTL = 0\<rparr> [7, 8, 9])
     (Some (set_options_of sample_request \<lparr>sr_Key = ''user:profile:7'', sr_Value = b64_encode [7, 8, 9], sr_Version = 0, sr_TTL = 0\<rparr>)) sample_redis_ctx =
     (None, c') \<and> sim_clock (world c') = 2 * Millisecond \<and> heap c' = sample_redis_heap \<and> all_closed (breakers c')"
proof -
  let ?req = "\<lparr>sr_Key = ''user:profile:7'', sr_Value = b64_encode [7, 8, 9], sr_Version = 0, sr_TTL = 0\<rparr>"
  let ?cs = "sample_service None" and ?o = "set_options_of sample_request ?req" and ?e = "entry_of ?req [7, 8, 9]"
  let ?w = "written ?cs ?o ?e"
  obtain c0 where t: "time_Now sim_env sample_redis_ctx = (0, c0)" and c0: "world c0 = sim0\<lparr>sim_clock := Millisecond\<rparr>"
      "heap c0 = sample_redis_heap" "all_closed (breakers c0)" "mtr c0 = Some initMetrics"
    by (simp add: time_Now_def sample_cs_ctx_def) (simp add: sim0_def)
  let ?c0 = "record_metric (RecordValueSize ''cache'' ''set'' (value_size ?e)) c0"
  have r: "route_write sim_env ?cs ''user:profile:7'' '''' ?c0 = (Inr 1, ?c0)"
    using sample_named c0(2) by (simp add: route_write_def named_target_def GetBackend_candidates)
  obtain m where g: "guard sim_env 1 ?c0 = (None, ?c0\<lparr>breakers := m\<rparr>)" "all_closed m"
    using guard_closed [of ?c0 sim_env 1] c0(3) by auto
  have vs: "value_size ?e \<le> 4" by (simp add: value_size_def entry_of_def)
  have "entry_Key ?w = ''user:profile:7''" "redis_ttl (sample_redis\<lparr>rb_id := ''redis-master'', rb_defaultTTL := Minute\<rparr>) ?w = 5 * Minute"
    by (simp_all add: written_def entry_of_def redis_ttl_def set_options_of_def request_ttl_def sample_service_def
        CacheService_New_def ParseDuration_def)
  then obtain c3 where s: "obj_Set sim_env 1 ?w (?c0\<lparr>breakers := m\<rparr>) = (None, c3)" and c3: "sim_clock (world c3) = Millisecond"
      "heap c3 = sample_redis_heap" "breakers c3 = m" "mtr c3 = mtr ?c0"
    using sample_redis_set [of "?c0\<lparr>breakers := m\<rparr>" ?w] c0(1,2) by (auto simp: sim0_def)
  have k: "entry_Key ?w = ''user:profile:7''" "so_RoutingHint ?o = ''''" "so_Mode ?o = ReadWriteModeEmpty" "\<not> so_CheckVersion ?o"
    by (simp_all add: written_def entry_of_def set_options_of_def sample_request_def query_get_def ReadWriteMode_of_string_def)
  with r g(1) s have "write_backend sim_env ?cs ?w ?o ?c0 = (Inr (obj_ID (heap ?c0) 1), c3)"
    by (simp add: write_backend_def Let_def)
  then have "setCacheAside sim_env ?cs ?w ?o ?c0 = (None, record_metric (RecordRequest (obj_ID (heap ?c0) 1) ''set'' ''success'') c3)"
    by (simp add: setCacheAside_def write_local_def)
  then have "set_body sim_env ?cs ?e ?o ?c0 = (None, record_metric (RecordRequest (obj_ID (heap ?c0) 1) ''set'' ''success'') c3)"
    using vs k by (simp add: set_body_def set_conflict_def written_def Let_def)
  with t have "CacheService_Set sim_env ?cs ?e (Some ?o) sample_redis_ctx =
      (None, record_latency sim_env ''set'' 0 (record_metric (RecordRequest (obj_ID (heap ?c0) 1) ''set'' ''success'') c3))"
    by (simp add: CacheService_Set_def set_or_zero_def Let_def)
  moreover obtain m' where "mtr c3 = Some m'" using c3(4) c0(4) by (simp add: observe_def)
  ultimately show ?thesis
    using c3 g(2) by (simp add: record_latency_def time_Since_def time_Now_def observe_def Let_def)
qed

lemma Api_Set_ok:
  assumes "bind (rq_Body rq) = Inr req" "b64_decode (sr_Value req) = Some bs"
    "CacheService_Set E (ah_service h) (entry_of req bs) (Some (set_options_of rq req)) c = (None, c')"
  shows "\<exists>rs. Api_Set E bind h rq c = (rs, c') \<and> rs_Status rs = 200"
  using assms by (simp add: Api_Set_def Let_def)

lemma write_then_read_witness:
  "\<exists>rs c' g. Api_Set sim_env sample_bind sample_handler sample_request sample_redis_ctx = (rs, c') \<and>
     rs_Body (fst (Api_Get sim_env sample_handler sample_skip c')) = GetBody g \<and> b64_decode (gr_Value g) = Some [7, 8, 9]"
proof -
  let ?req = "\<lparr>sr_Key = ''user:profile:7'', sr_Value = b64_encode [7, 8, 9], sr_Version = 0, sr_TTL = 0\<rparr>"
  have v: "b64_decode (b64_encode [7, 8, 9]) = Some [7, 8, 9]" by (rule b64_decode_encode)
  obtain c' where c': "CacheService_Set sim_env (sample_service None) (entry_of ?req [7, 8, 9])
      (Some (set_options_of sample_request ?req)) sample_redis_ctx = (None, c')"
    "sim_clock (world c') = 2 * Millisecond" "heap c' = sample_redis_heap" "all_closed (breakers c')"
    using sample_set by blast
  have h: "ah_service sample_handler = sample_service None" by (simp add: sample_handler_def)
  obtain rs where rs: "Api_Set sim_env sample_bind sample_handler sample_request sample_redis_ctx = (rs, c')" "rs_Status rs = 200"
    using Api_Set_ok [of sample_bind sample_request ?req "[7, 8, 9]" sim_env sample_handler sample_redis_ctx c'] c'(1) v
    unfolding h by auto
  obtain t d0 where d0: "time_Now sim_env c' = (t, d0)" "sim_clock (world d0) = 3 * Millisecond" "heap d0 = sample_redis_heap"
    using c'(2,3) by (simp add: time_Now_def)
  have q: "query_get (rq_Query sample_request) ''hint'' = ''''" "query_get (rq_Query sample_skip) ''hint'' = ''''"
    "query_get (rq_Query sample_skip) ''skip_cache'' = ''true''" "query_get (rq_Query sample_skip) ''version'' = ''''"
    "rq_Key sample_skip = ''user:profile:7''"
    by (simp_all add: sample_request_def sample_skip_def query_get_def query_set_def)
  obtain ps where ps: "route_read sim_env (sample_service None) ''user:profile:7'' '''' (record_metric (RecordMiss ''local'') d0) =
      (ps, record_metric (RecordMiss ''local'') d0)"
    using sample_skip_read [of "record_metric (RecordMiss ''local'') d0"] d0(3) by auto
  have l: "redis_ttl (sample_redis\<lparr>rb_id := ''redis-master'', rb_defaultTTL := Minute\<rparr>)
      (written (sample_service None) (set_options_of sample_request ?req) (entry_of ?req [7, 8, 9])) = 5 * Minute"
    by (simp add: written_def entry_of_def redis_ttl_def set_options_of_def request_ttl_def sample_service_def
        CacheService_New_def ParseDuration_def)
  have mode: "effective_mode (sample_service None) (set_options_of sample_request ?req) \<noteq> ReadWriteModeWriteBehind"
    by (simp add: effective_mode_def set_options_of_def sample_request_def query_get_def ReadWriteMode_of_string_def)
  have "\<exists>g. rs_Status (fst (Api_Get sim_env sample_handler sample_skip c')) = 200 \<and>
      rs_Body (fst (Api_Get sim_env sample_handler sample_skip c')) = GetBody g \<and>
      gr_Key g = sr_Key ?req \<and> b64_decode (gr_Value g) = Some [7, 8, 9]"
    by (rule write_then_read [OF sim_redis_server sim_steady, where rq = sample_request and bind = sample_bind and c = sample_redis_ctx
          and c' = c' and p = 1 and l = "5 * Minute" and t = t and ?d0.0 = d0 and ps = ps and rs = rs
          and r = "sample_redis\<lparr>rb_id := ''redis-master'', rb_defaultTTL := Minute\<rparr>"
          and ?d1.0 = "record_metric (RecordMiss ''local'') d0"])
      (use c' v rs h d0 ps l mode sample_named sample_redis_router q in
        \<open>simp_all add: entry_life_whole [of 300, simplified] local_memory_def value_size_def entry_of_def sample_redis_def sim0_def\<close>)
  with rs show ?thesis by blast
qed

end
