(* ===== verification/Start_Properties.thy ===== *)
theory Start_Properties
  imports Server_Properties
begin

text \<open>
  The start of the process as a whole: the configuration that is in force after a start and
  any number of changes of the file, and what a start survives.
\<close>

section \<open>The configuration in force\<close>

text \<open>
  C40: after a start that loaded its file, and however often the file changes, the instance
  is the configuration of the last change that could be loaded (the one of the start, if
  none could), the file stays watched, and a further call of \<open>Load\<close>, with any path, returns
  the instance without reading anything.
\<close>

theorem instance_follows_file:
  assumes "\<not> cv_once v" "Config_Load V p v w = (Inr loaded, v1)"
  shows "\<exists>c. loaded = Some c \<and> loadable V p w = Some c \<and>
    (let v2 = fold (\<lambda>w v. Config_onChange V p v w) ws v1;
         inst = Some (last (c # List.map_filter (loadable V p) ws))
     in Config_Get v2 = inst \<and> cv_watcher v2 = Some (viper_of p) \<and> Config_Load V' p' v2 w' = (Inr inst, v2))"
proof -
  obtain c where c: "loadable V p w = Some c" "loaded = Some c"
    "v1 = v\<lparr>cv_once := True, cv_instance := Some c, cv_watcher := Some (viper_of p)\<rparr>"
    using assms by (auto simp: Config_Load_loadable split: option.splits)
  have frame: "cv_once (fold (\<lambda>w v. Config_onChange V p v w) ws v) = cv_once v \<and>
      cv_watcher (fold (\<lambda>w v. Config_onChange V p v w) ws v) = cv_watcher v" for v
    by (induction ws arbitrary: v) (simp_all add: Config_onChange_loadable split: option.splits)
  have "Config_Get v1 = Some c" using c(3) by (simp add: Config_Get_def)
  from reloads_instance [OF this, of V p ws] frame [of v1] c show ?thesis
    by (simp add: Config_Load_def Config_Get_def)
qed

text \<open>A file that is read as a list of log levels, one for each time it is loaded; 3 is no configuration.\<close>

definition sample_viper :: "(unit, nat) viper_ops" where
  "sample_viper =
     \<lparr>vo_ReadInConfig = (\<lambda>v w. if w = 3 then Inl (ErrorText ''no such file'') else Inr ()),
      vo_Unmarshal = (\<lambda>v f w c. (c\<lparr>ac_LogLevel := itoa_nat w\<rparr>, None))\<rparr>"

definition config_vars0 :: config_vars where
  "config_vars0 = \<lparr>cv_once = False, cv_instance = None, cv_watcher = None\<rparr>"

lemma sample_loadable:
  "loadable sample_viper p w = (if w = 3 then None else Some (empty_config\<lparr>ac_LogLevel := itoa_nat w\<rparr>))"
  by (simp add: loadable_def loadConfig_def sample_viper_def Let_def)

lemma instance_follows_file_witness:
  "\<exists>v1. Config_Load sample_viper ''c'' config_vars0 0 = (Inr (Some (empty_config\<lparr>ac_LogLevel := ''0''\<rparr>)), v1) \<and>
     Config_Get (fold (\<lambda>w v. Config_onChange sample_viper ''c'' v w) [1, 2, 3] v1) =
       Some (empty_config\<lparr>ac_LogLevel := ''2''\<rparr>)"
proof -
  have i: "itoa_nat 0 = ''0''" "itoa_nat 2 = ''2''" by (code_simp, code_simp)
  obtain v1 where v1: "Config_Load sample_viper ''c'' config_vars0 0 = (Inr (Some (empty_config\<lparr>ac_LogLevel := ''0''\<rparr>)), v1)"
    by (simp add: Config_Load_loadable config_vars0_def sample_loadable i)
  moreover have "\<not> cv_once config_vars0" by (simp add: config_vars0_def)
  ultimately show ?thesis
    using instance_follows_file [OF _ v1, where ws = "[1, 2, 3]" and V' = sample_viper and p' = "''c''" and w' = 0]
    by (simp add: sample_loadable List.map_filter_def Let_def i)
qed

section \<open>What a start survives\<close>

text \<open>The local cache can always be made; then no nil pointer is left for one.\<close>

definition caches_made :: "'w makers \<Rightarrow> bool" where
  "caches_made M \<longleftrightarrow> (\<forall>cfg w. \<exists>x. fst (mk_cache M cfg w) = Inr x)"

lemma Memory_New_made:
  "caches_made M \<Longrightarrow> \<exists>m w'. Memory_New (mk_cache M) i n k cfg w = (Inr m, w')"
  unfolding caches_made_def Memory_New_def Let_def
  by (metis (no_types, lifting) old.sum.simps(6) prod.case_eq_if)

lemma enlist_local: "bo_local (enlist b s) = bo_local s"
  by (simp add: enlist_def Let_def)

lemma watch_local: "bo_local (watch_backend E M cfg p s) = bo_local s"
proof -
  obtain cb m s1 where g: "GetOrCreate E (obj_ID (heap s) p) (bc_CircuitBreaker cfg) (breakers s) s = (cb, m, s1)"
    by (metis prod_cases3)
  then have 1: "bo_local s1 = bo_local s"
    by (auto simp: GetOrCreate_def Let_def time_Now_def split: option.splits if_splits prod.splits)
  obtain err hc s3 where
    h: "Health_RegisterBackend (mk_job M) p (bc_HealthCheck cfg) (bo_hc (s1\<lparr>breakers := m\<rparr>)) (s1\<lparr>breakers := m\<rparr>) = (err, hc, s3)"
    by (metis prod_cases3)
  have "bo_local s3 = bo_local s1" using Health_Register_cases [OF h] by auto
  with g h 1 show ?thesis by (simp add: watch_backend_def Let_def)
qed

lemma add_configured_local:
  assumes "caches_made M" "bo_local s \<noteq> LocalTypedNil"
  shows "bo_local (add_configured E M n cfg s) \<noteq> LocalTypedNil"
proof (cases "bc_Type cfg = BackendTypeMemory")
  case True
  obtain m w' where "Memory_New (mk_cache M) (bc_ID cfg) (bc_Name cfg) (bc_Weight cfg) (bc_Memory cfg) (world s) = (Inr m, w')"
    using Memory_New_made [OF assms(1)] by blast
  with True assms(2) show ?thesis
    by (simp add: add_configured_def make_backend_def watch_local enlist_local Let_def)
next
  case False
  with assms(2) show ?thesis
    by (auto simp: add_configured_def watch_local enlist_local Let_def split: option.splits sum.splits)
qed

lemma fold_configured_local:
  "caches_made M \<Longrightarrow> bo_local s \<noteq> LocalTypedNil \<Longrightarrow> bo_local (fold (add_configured E M n) cfgs s) \<noteq> LocalTypedNil"
  by (induction cfgs arbitrary: s) (simp_all add: add_configured_local)

lemma boot_succeeds:
  assumes "caches_made M"
  shows "\<exists>s p. boot E M sorter None app h w = Inr (s, Some (CacheService_New (ac_Cache app) (bo_router s) (Some p)))"
proof -
  obtain hc where hc: "HealthChecker_New None = Inr hc" by (simp add: HealthChecker_New_def)
  let ?s0 = "fold (add_configured E M (length (ac_Backends app))) (ac_Backends app) (boot_start hc initMetrics h w)"
  have l: "bo_local ?s0 \<noteq> LocalTypedNil"
    by (rule fold_configured_local [OF assms]) (simp add: boot_start_def)
  obtain m w' where "Memory_New (mk_cache M) ''local'' ''Local Cache'' 1
      (Some \<lparr>mbc_MaxCost = 2 ^ 30, mbc_NumCounters = 10000000, mbc_BufferItems = 64, mbc_DefaultTTL = ''5m''\<rparr>) (world ?s0) = (Inr m, w')"
    using Memory_New_made [OF assms] by blast
  then obtain s1 where "add_default M ?s0 = Inr s1" "\<exists>p. bo_local s1 = LocalAt p"
    using l by (cases "bo_local ?s0") (simp_all add: add_default_def enlist_local)
  with hc show ?thesis by (auto simp: boot_def boot_service_def Let_def)
qed

text \<open>
  C29: what a start survives. A process whose configuration can be loaded, whose scheduler and
  in-memory caches can be made, always reaches the point where it serves, with a local cache,
  the configured settings and the same node ID on both buses: whatever backends are configured
  and fail to be made, whatever the URLs are, whether the other nodes can be joined and the
  random source works.
\<close>

theorem start_survives:
  assumes "\<not> cv_once v" "loadable (ho_viper H) (config_path (ho_args H)) w = Some app"
    "ho_scheduler H = None" "caches_made M"
  shows "\<exists>n svc p. fst (main_start E M sorter H h v w) = Inr n \<and> no_config n = app \<and>
    no_service n = Some svc \<and> cs_localCache svc = Some p \<and> cs_router svc = bo_router (no_state n) \<and>
    no_log n = Logger_Init (ac_LogLevel app) (ac_LogFormat app) \<and> no_server n = make_server (ac_Server app) \<and>
    no_id n = generateNodeID (ho_rand H) (ho_unix H) \<and>
    (case no_pubsub n of None \<Rightarrow> True | Some r \<Rightarrow> ps_nodeID r = no_id n \<and> pc_Enabled (ac_PubSub app)) \<and>
    (case no_gossip n of None \<Rightarrow> True | Some g \<Rightarrow> gp_nodeID g = no_id n \<and> gc_Enabled (ac_Gossip app))"
proof -
  obtain s p where b: "boot E M sorter None app h w = Inr (s, Some (CacheService_New (ac_Cache app) (bo_router s) (Some p)))"
    using boot_succeeds [OF assms(4)] by blast
  let ?id = "generateNodeID (ho_rand H) (ho_unix H)"
  obtain ps w1 where ps: "boot_pubsub (ho_url_ok H) (ho_client H) (ho_received H) ?id app (world s) = (ps, w1)" by fastforce
  obtain gp w2 where gp: "boot_gossip (ho_peers H) ?id app w1 = (gp, w2)" by fastforce
  have "case ps of None \<Rightarrow> True | Some r \<Rightarrow> ps_nodeID r = ?id \<and> pc_Enabled (ac_PubSub app)"
    using ps boot_pubsub_node by (cases ps) fastforce+
  moreover have "case gp of None \<Rightarrow> True | Some g \<Rightarrow> gp_nodeID g = ?id \<and> gc_Enabled (ac_Gossip app)"
    using gp boot_gossip_node by (cases gp) fastforce+
  moreover have "cs_localCache (CacheService_New (ac_Cache app) (bo_router s) (Some p)) = Some p"
    "cs_router (CacheService_New (ac_Cache app) (bo_router s) (Some p)) = bo_router s"
    by (simp_all add: CacheService_New_def Let_def)
  ultimately show ?thesis
    using assms(1-3) b ps gp by (simp add: main_start_def Config_Load_loadable Let_def split: option.splits)
qed

text \<open>
  A host on which everything else fails: the random source, the URL, the other nodes; and a
  file with a Redis backend without an address and a backend of an unknown type.
\<close>

definition broken_peers :: "sim peers" where
  "broken_peers =
     \<lparr>pe_Create = (\<lambda>cfg w. (Inl (ErrorText ''address already in use''), w)), pe_Join = (\<lambda>h ns w. (None, w)),
      pe_Members = (\<lambda>h w. []), pe_Send = (\<lambda>h m d w. w), pe_Leave = (\<lambda>h d w. (None, w))\<rparr>"

definition poor_config :: AppConfig where
  "poor_config = empty_config
     \<lparr>ac_Backends :=
        [\<lparr>bc_ID = ''a'', bc_Type = BackendTypeRedis, bc_Name = '''', bc_Weight = 1, bc_Group = '''', bc_Memory = None,
          bc_Redis = None, bc_HTTP = None, bc_GRPC = None, bc_HealthCheck = None, bc_CircuitBreaker = None\<rparr>,
         \<lparr>bc_ID = ''b'', bc_Type = BackendType_other ''s3'', bc_Name = '''', bc_Weight = 1, bc_Group = '''', bc_Memory = None,
          bc_Redis = None, bc_HTTP = None, bc_GRPC = None, bc_HealthCheck = None, bc_CircuitBreaker = None\<rparr>]\<rparr>"

definition poor_host :: "(unit, sim) host" where
  "poor_host =
     \<lparr>ho_args = [''proxy''],
      ho_viper = \<lparr>vo_ReadInConfig = (\<lambda>v w. Inr ()), vo_Unmarshal = (\<lambda>v f w c. (poor_config, None))\<rparr>,
      ho_rand = Inl (ErrorText ''no entropy''), ho_unix = 0, ho_scheduler = None, ho_url_ok = (\<lambda>_. False),
      ho_client = (\<lambda>o' w. (0, w)), ho_received = False, ho_peers = broken_peers\<rparr>"

lemma start_survives_witness:
  "\<exists>n svc p. fst (main_start sim_env sample_makers insertion_sort poor_host sample_heap config_vars0 sim0) = Inr n \<and>
     no_service n = Some svc \<and> cs_localCache svc = Some p \<and> no_config n = poor_config"
proof -
  have "loadable (ho_viper poor_host) (config_path (ho_args poor_host)) sim0 = Some poor_config" "ho_scheduler poor_host = None"
    "\<not> cv_once config_vars0" "caches_made sample_makers"
    by (simp_all add: loadable_def loadConfig_def poor_host_def config_vars0_def caches_made_def sample_makers_def Let_def)
  from start_survives [OF this(3,1,2,4), of sim_env insertion_sort sample_heap] show ?thesis by blast
qed

end
