(* ===== verification/Coherence.thy ===== *)
theory Coherence
  imports End_To_End
begin

text \<open>
  The local copy of a key and what the node serves of it: what each operation does to the
  local cache, and which value a read after a write, a failed write or a deletion returns.
\<close>

section \<open>The local cache\<close>

text \<open>
  What the code can rely on of ristretto, which may drop a \<open>Set\<close> (its buffer is full, the
  admission policy refuses it, the lifetime is negative), apply it only later (\<open>Wait\<close> is never
  called) and forget it at any time: a lookup answers nothing, or one of the values that were
  handed to the cache for the key since the key was last deleted. \<open>handed\<close> is the record of
  these values, the newest first, whether or not the cache took them; it starts anew at a
  \<open>Del\<close>, which removes the item and is applied after the values handed over before it. No
  other call to the environment hands a cache anything.
\<close>

definition honest_cache :: "'w env \<Rightarrow> ('w \<Rightarrow> nat \<Rightarrow> string \<Rightarrow> any_value list) \<Rightarrow> bool" where
  "honest_cache E handed \<longleftrightarrow>
     (\<forall>h k w v. fst (env_cache_get E h k w) = Some v \<longrightarrow> v \<in> set (handed w h k)) \<and>
     (\<forall>h k w. handed (snd (env_cache_get E h k w)) = handed w) \<and>
     (\<forall>h k v n d w. handed (snd (env_cache_set E h k v n d w)) = (handed w)(h := (handed w h)(k := v # handed w h k))) \<and>
     (\<forall>h k w. handed (env_cache_del E h k w) = (handed w)(h := (handed w h)(k := []))) \<and>
     (\<forall>w. handed (snd (env_now E w)) = handed w) \<and>
     (\<forall>ks w. handed (snd (env_iter E ks w)) = handed w) \<and>
     (\<forall>h cmds w. handed (snd (env_redis E h cmds w)) = handed w) \<and>
     (\<forall>h rq d w. handed (snd (env_http E h rq d w)) = handed w) \<and>
     (\<forall>w. handed (snd (env_ctx_done E w)) = handed w) \<and>
     (\<forall>h path k w. handed (snd (env_grpc_get E h path k w)) = handed w) \<and>
     (\<forall>h path rq w. handed (snd (env_grpc_set E h path rq w)) = handed w) \<and>
     (\<forall>h path k w. handed (snd (env_grpc_delete E h path k w)) = handed w)"

lemma sim_honest: "honest_cache sim_env sim_cache"
  by (simp add: honest_cache_def newest_mem Let_def split: prod.split) (simp add: sim_env_def)

lemma honestD:
  assumes "honest_cache E handed"
  shows "env_cache_get E h k w = (r, w') \<Longrightarrow> (\<forall>v. r = Some v \<longrightarrow> v \<in> set (handed w h k)) \<and> handed w' = handed w"
    "env_cache_set E h k v n d w = (b, w') \<Longrightarrow> handed w' = (handed w)(h := (handed w h)(k := v # handed w h k))"
    "env_now E w = (t, w') \<Longrightarrow> handed w' = handed w"
    "env_iter E ks w = (ks', w') \<Longrightarrow> handed w' = handed w"
    "env_redis E h cmds w = (rr, w') \<Longrightarrow> handed w' = handed w"
    "env_http E h rq d w = (hr, w') \<Longrightarrow> handed w' = handed w"
    "env_ctx_done E w = (b, w') \<Longrightarrow> handed w' = handed w"
    "env_grpc_get E h path k w = (gr, w') \<Longrightarrow> handed w' = handed w"
    "env_grpc_set E h path srq w = (gb, w') \<Longrightarrow> handed w' = handed w"
    "env_grpc_delete E h path k w = (gb, w') \<Longrightarrow> handed w' = handed w"
  using assms unfolding honest_cache_def by (metis fst_conv snd_conv)+

lemma honest_del:
  "honest_cache E handed \<Longrightarrow> handed (env_cache_del E h k w) = (handed w)(h := (handed w h)(k := []))"
  by (simp add: honest_cache_def)

text \<open>One more value handed to a cache: that of an entry, for its key.\<close>

definition hand :: "entry \<Rightarrow> (string \<Rightarrow> any_value list) \<Rightarrow> string \<Rightarrow> any_value list" where
  "hand e m = m(entry_Key e := AnyBytes (entry_Value e) # m (entry_Key e))"

lemma hand_written [simp]: "hand (written cs opts e) = hand e"
  by (simp add: hand_def written_def fun_eq_iff)

section \<open>One object\<close>

text \<open>The cache a memory backend holds, and whether it is used.\<close>

definition handle_of :: "backend \<Rightarrow> (nat \<times> bool) option" where
  "handle_of b = (case b of MemoryBackend m \<Rightarrow> Some (mb_cache m, mb_healthy m) | _ \<Rightarrow> None)"

lemma Backend_Get_handed:
  assumes "honest_cache E handed" "Backend_Get E b k w = (r, b', w')"
  shows "handle_of b' = handle_of b \<and> handed w' = handed w"
  using assms(2)
  by (cases b)
    (auto simp: Backend_Get_def on_object_def Memory_Get_def Redis_Get_def Http_Get_def Grpc_Get_def kvClient_Get_def
      handle_of_def Let_def dest!: honestD [OF assms(1)] split: if_splits prod.splits option.splits any_value.splits sum.splits)

lemma Backend_Set_handed:
  assumes "honest_cache E handed" "Backend_Set E b e w = (r, b', w')"
  shows "handle_of b' = handle_of b \<and>
    handed w' h = (if handle_of b = Some (h, True) then hand e (handed w h) else handed w h)"
  using assms(2)
  by (cases b)
    (auto simp: Backend_Set_def on_object_def Memory_Set_def Redis_Set_def Http_Set_def Grpc_Set_def kvClient_Set_def
      handle_of_def hand_def incrementVersion_def Let_def dest!: honestD [OF assms(1)] split: if_splits prod.splits option.splits sum.splits)

lemma Backend_Delete_handed:
  assumes "honest_cache E handed" "Backend_Delete E b k w = (r, b', w')"
  shows "handle_of b' = handle_of b \<and>
    handed w' h = (if handle_of b = Some (h, True) then (handed w h)(k := []) else handed w h)"
  using assms(2)
  by (cases b)
    (auto simp: Backend_Delete_def on_object_def Memory_Delete_def Redis_Delete_def Http_Delete_def Grpc_Delete_def
      kvClient_Delete_def handle_of_def deleteVersion_def Let_def honest_del [OF assms(1)] dest!: honestD [OF assms(1)]
      split: if_splits prod.splits option.splits sum.splits)

section \<open>One operation\<close>

text \<open>
  What an operation handed to the cache with handle \<open>h\<close>: a function of its record, while all
  objects keep their caches, identities and flags.
\<close>

definition moved ::
  "('w \<Rightarrow> nat \<Rightarrow> string \<Rightarrow> any_value list) \<Rightarrow> nat \<Rightarrow> ((string \<Rightarrow> any_value list) \<Rightarrow> string \<Rightarrow> any_value list) \<Rightarrow>
   ('w, 'z) cs_ctx_scheme \<Rightarrow> ('w, 'z) cs_ctx_scheme \<Rightarrow> bool" where
  "moved handed h f c c' \<longleftrightarrow>
     handed (world c') h = f (handed (world c) h) \<and> (\<forall>q. handle_of (heap c' q) = handle_of (heap c q)) \<and> quiet c c'"

abbreviation kept ::
  "('w \<Rightarrow> nat \<Rightarrow> string \<Rightarrow> any_value list) \<Rightarrow> nat \<Rightarrow> ('w, 'z) cs_ctx_scheme \<Rightarrow> ('w, 'z) cs_ctx_scheme \<Rightarrow> bool" where
  "kept handed h \<equiv> moved handed h (\<lambda>m. m)"

text \<open>The local cache of a service: a healthy memory backend, the only one with its handle.\<close>

definition local_at :: "cache_service \<Rightarrow> bref \<Rightarrow> nat \<Rightarrow> (bref \<Rightarrow> backend) \<Rightarrow> bool" where
  "local_at cs p h hp \<longleftrightarrow> cs_localCache cs = Some p \<and> (\<forall>q x. handle_of (hp q) = Some (h, x) \<longleftrightarrow> q = p \<and> x)"

lemma moved_trans: "moved handed h f c c' \<Longrightarrow> moved handed h g c' c'' \<Longrightarrow> moved handed h (\<lambda>m. g (f m)) c c''"
  by (auto simp: moved_def dest: quiet_trans)

lemma kept_then: "kept handed h c c' \<Longrightarrow> moved handed h g c' c'' \<Longrightarrow> moved handed h g c c''"
  and then_kept: "moved handed h g c c' \<Longrightarrow> kept handed h c' c'' \<Longrightarrow> moved handed h g c c''"
  using moved_trans by blast+

lemma local_at_moved: "moved handed h' f c c' \<Longrightarrow> local_at cs p h (heap c') = local_at cs p h (heap c)"
  by (simp add: local_at_def moved_def)

lemma closed_moved: "moved handed h f c c' \<Longrightarrow> all_closed (breakers c) \<Longrightarrow> all_closed (breakers c')"
  by (simp add: moved_def quiet_def)

lemma target_moved:
  "moved handed h f c c' \<Longrightarrow> named_target E cs (heap c') key hint = named_target E cs (heap c) key hint"
  by (rule named_target_view) (simp add: moved_def quiet_def)

lemma kept_same:
  fixes c c' :: "('w, 'z) cs_ctx_scheme"
  shows "handed (world c') = handed (world c) \<Longrightarrow> heap c' = heap c \<Longrightarrow> breakers c' = breakers c \<Longrightarrow> kept handed h c c'"
  by (simp add: moved_def)

lemma kept_refl [simp]: "kept handed h c c"
  by (simp add: kept_same)

lemma moved_bookkeeping [simp]:
  fixes c c' :: "('w, 'z) cs_ctx_scheme"
  shows "moved handed h f c (record_metric g c') = moved handed h f c c'"
    "moved handed h f c (failed_with i op code st c') = moved handed h f c c'"
    "moved handed h f c (spawn_local_set e c') = moved handed h f c c'"
    "moved handed h f c (c'\<lparr>queue := items\<rparr>) = moved handed h f c c'"
    "moved handed h f c (c'\<lparr>local_sets := es\<rparr>) = moved handed h f c c'"
    "moved handed h f (record_metric g c) c' = moved handed h f c c'"
    "moved handed h f (c\<lparr>local_sets := es\<rparr>) c' = moved handed h f c c'"
  by (simp_all add: moved_def quiet_def spawn_local_set_def)

lemma kept_Now: "honest_cache E handed \<Longrightarrow> time_Now E c = (t, c') \<Longrightarrow> kept handed h c c'"
  by (auto simp: time_Now_def dest: honestD split: prod.splits intro!: kept_same)

lemma kept_latency:
  assumes "honest_cache E handed"
  shows "moved handed h f c (record_latency E op t c') = moved handed h f c c'"
proof (cases "mtr c'")
  case (Some m)
  obtain d c1 where s: "time_Since E t c' = (d, c1)" by fastforce
  then obtain t1 where "time_Now E c' = (t1, c1)" by (auto simp: time_Since_def split: prod.splits)
  from kept_Now [OF assms this, of h] then_kept [of handed h f c c' c1]
  have "moved handed h f c c' \<Longrightarrow> moved handed h f c c1" by blast
  moreover have "moved handed h f c c1 \<Longrightarrow> moved handed h f c c'"
    using kept_Now [OF assms \<open>time_Now E c' = (t1, c1)\<close>, of h] time_Now_cs [OF \<open>time_Now E c' = (t1, c1)\<close>]
    by (auto simp: moved_def quiet_def)
  ultimately show ?thesis using Some s by (auto simp: record_latency_def)
qed (simp add: record_latency_def)

lemma kept_write: "honest_cache E handed \<Longrightarrow> route_write E cs key hint c = (r, c') \<Longrightarrow> kept handed h c c'"
  by (auto simp: route_write_def dest: honestD split: prod.splits intro!: kept_same)

lemma kept_read: "honest_cache E handed \<Longrightarrow> route_read E cs key hint c = (r, c') \<Longrightarrow> kept handed h c c'"
  by (auto simp: route_read_def dest: honestD split: prod.splits intro!: kept_same)

lemma kept_guard:
  assumes "all_closed (breakers c)" "guard E p c = (r, c')"
  shows "r = None \<and> kept handed h c c'"
  using guard_quiet [OF assms] by (simp add: moved_def)

lemma moved_call:
  fixes c c' :: "('w, 'z) cs_ctx_scheme"
  assumes "obj_call op q c = (r, c')" "quiet c c'"
    "\<And>b w'. op (heap c q) (world c) = (r, b, w') \<Longrightarrow> handle_of b = handle_of (heap c q) \<and> handed w' h = f (handed (world c) h)"
  shows "moved handed h f c c'"
  using assms by (auto simp: obj_call_def moved_def split: prod.splits)

lemma kept_Get: "honest_cache E handed \<Longrightarrow> obj_Get E q k c = (r, c') \<Longrightarrow> kept handed h c c'"
  using obj_Get_cs [of E q k c r c']
  by (auto simp: obj_Get_def dest: Backend_Get_handed intro!: moved_call [of "\<lambda>b. Backend_Get E b k" q c r c'])

lemma moved_Set:
  "honest_cache E handed \<Longrightarrow> obj_Set E q e c = (r, c') \<Longrightarrow>
   moved handed h (\<lambda>m. if handle_of (heap c q) = Some (h, True) then hand e m else m) c c'"
  using obj_Set_cs [of E q e c r c']
  by (auto simp: obj_Set_def dest: Backend_Set_handed [of E handed _ _ _ _ _ _ h]
      intro!: moved_call [of "\<lambda>b. Backend_Set E b e" q c r c'])

lemma moved_Delete:
  "honest_cache E handed \<Longrightarrow> obj_Delete E q k c = (r, c') \<Longrightarrow>
   moved handed h (\<lambda>m. if handle_of (heap c q) = Some (h, True) then m(k := []) else m) c c'"
  using obj_Delete_cs [of E q k c r c']
  by (auto simp: obj_Delete_def dest: Backend_Delete_handed [of E handed _ _ _ _ _ _ h]
      intro!: moved_call [of "\<lambda>b. Backend_Delete E b k" q c r c'])

section \<open>Writes\<close>

lemma kept_write_backend:
  assumes H: "honest_cache E handed" and L: "local_at cs p h (heap c)" and C: "all_closed (breakers c)"
    and T: "named_target E cs (heap c) (entry_Key e) (so_RoutingHint opts) = Some q" "q \<noteq> p"
    and W: "write_backend E cs e opts c = (r, c')"
  shows "kept handed h c c' \<and> r \<noteq> Inl ErrVersionMismatch"
proof -
  obtain c1 where r: "route_write E cs (entry_Key e) (so_RoutingHint opts) c = (Inr q, c1)"
    using route_write_named [OF T(1)] by blast
  have k1: "kept handed h c c1" by (rule kept_write [OF H r])
  obtain g c2 where g: "guard E q c1 = (g, c2)" by fastforce
  have g': "g = None" "kept handed h c1 c2" using kept_guard [OF closed_moved [OF k1 C] g] by blast+
  have k2: "kept handed h c c2" by (rule kept_then [OF k1 g'(2)])
  obtain err c3 where o: "obj_Set E q e c2 = (err, c3)" by fastforce
  have "handle_of (heap c2 q) \<noteq> Some (h, True)"
    using L T(2) local_at_moved [OF k2, of cs p h] by (auto simp: local_at_def)
  then have "kept handed h c2 c3" using moved_Set [OF H o, of h] by simp
  then have k3: "kept handed h c c3" by (rule kept_then [OF k2])
  moreover have "err \<noteq> Some ErrVersionMismatch"
    using o by (cases "heap c2 q")
      (auto simp: obj_Set_def obj_call_def Backend_Set_def on_object_def Memory_Set_def Redis_Set_def Http_Set_def Grpc_Set_def
        Let_def split: if_splits prod.splits sum.splits)
  ultimately show ?thesis using W r g g'(1) o by (auto simp: write_backend_def Let_def split: option.splits)
qed

lemma moved_write_local:
  assumes "honest_cache E handed" "local_at cs p h (heap c)"
  shows "moved handed h (hand e) c (write_local E cs e c)"
proof -
  obtain r c' where o: "obj_Set E p e c = (r, c')" by fastforce
  have "handle_of (heap c p) = Some (h, True)" "cs_localCache cs = Some p" using assms(2) by (auto simp: local_at_def)
  with moved_Set [OF assms(1) o, of h] o show ?thesis by (simp add: write_local_def)
qed

lemma kept_passthrough:
  assumes H: "honest_cache E handed" and L: "local_at cs p h (heap c)" and C: "all_closed (breakers c)"
    and T: "named_target E cs (heap c) (entry_Key e) (so_RoutingHint opts) = Some q" "q \<noteq> p"
    and W: "setPassthrough E cs e opts c = (err, c')"
  shows "kept handed h c c'"
proof -
  obtain c1 where r: "route_write E cs (entry_Key e) (so_RoutingHint opts) c = (Inr q, c1)"
    using route_write_named [OF T(1)] by blast
  have k1: "kept handed h c c1" by (rule kept_write [OF H r])
  obtain g c2 where g: "guard E q c1 = (g, c2)" by fastforce
  have g': "g = None" "kept handed h c1 c2" using kept_guard [OF closed_moved [OF k1 C] g] by blast+
  have k2: "kept handed h c c2" by (rule kept_then [OF k1 g'(2)])
  obtain err' c3 where o: "obj_Set E q e c2 = (err', c3)" by fastforce
  have "handle_of (heap c2 q) \<noteq> Some (h, True)"
    using L T(2) local_at_moved [OF k2, of cs p h] by (auto simp: local_at_def)
  then have "kept handed h c2 c3" using moved_Set [OF H o, of h] by simp
  then have "kept handed h c c3" by (rule kept_then [OF k2])
  with W r g g'(1) o show ?thesis by (auto simp: setPassthrough_def Let_def split: if_splits)
qed

lemma kept_write_through:
  assumes "honest_cache E handed" "local_at cs p h (heap c)" "all_closed (breakers c)"
    "named_target E cs (heap c) (entry_Key e) (so_RoutingHint opts) = Some q" "q \<noteq> p"
    "setWriteThrough E cs e opts c = (err, c')"
  shows "kept handed h c c' \<and> err \<noteq> Some ErrVersionMismatch"
proof -
  obtain r c1 where w: "write_backend E cs e opts c = (r, c1)" by fastforce
  from kept_write_backend [OF assms(1-5) w] w assms(6) show ?thesis
    by (auto simp: setWriteThrough_def split: sum.splits)
qed

lemma moved_cache_aside:
  assumes "honest_cache E handed" "local_at cs p h (heap c)" "all_closed (breakers c)"
    "named_target E cs (heap c) (entry_Key e) (so_RoutingHint opts) = Some q" "q \<noteq> p"
    "setCacheAside E cs e opts c = (err, c')"
  shows "moved handed h (hand e) c c' \<and> err \<noteq> Some ErrVersionMismatch"
proof -
  let ?c0 = "write_local E cs e c"
  note m = moved_write_local [OF assms(1,2), of e]
  obtain r c1 where w: "write_backend E cs e opts ?c0 = (r, c1)" by fastforce
  have "kept handed h ?c0 c1 \<and> r \<noteq> Inl ErrVersionMismatch"
    using assms(2-5) local_at_moved [OF m] closed_moved [OF m] target_moved [OF m, of E cs "entry_Key e" "so_RoutingHint opts"]
    by (intro kept_write_backend [OF assms(1) _ _ _ _ w]) auto
  with then_kept [OF m] w assms(6) show ?thesis by (auto simp: setCacheAside_def split: sum.splits)
qed

lemma moved_write_behind:
  assumes "honest_cache E handed" "local_at cs p h (heap c)" "all_closed (breakers c)"
    "named_target E cs (heap c) (entry_Key e) (so_RoutingHint opts) = Some q" "q \<noteq> p"
    "setWriteBehind E cs e opts c = (err, c')"
  shows "moved handed h (hand e) c c' \<and> err \<noteq> Some ErrVersionMismatch"
proof -
  let ?c0 = "write_local E cs e c"
  note m = moved_write_local [OF assms(1,2), of e]
  show ?thesis
  proof (cases "length (queue ?c0) < queue_capacity")
    case True
    with m assms(6) show ?thesis by (auto simp: setWriteBehind_def Let_def)
  next
    case False
    with assms(6) have w: "setWriteThrough E cs e opts ?c0 = (err, c')" by (simp add: setWriteBehind_def Let_def)
    have "kept handed h ?c0 c' \<and> err \<noteq> Some ErrVersionMismatch"
      using assms(2-5) local_at_moved [OF m] closed_moved [OF m] target_moved [OF m, of E cs "entry_Key e" "so_RoutingHint opts"]
      by (intro kept_write_through [OF assms(1) _ _ _ _ w]) auto
    with then_kept [OF m] show ?thesis by blast
  qed
qed

lemma kept_conflict:
  "honest_cache E handed \<Longrightarrow> set_conflict E cs e opts c = (b, c') \<Longrightarrow> kept handed h c c'"
  by (auto simp: set_conflict_def dest!: kept_Get split: if_splits option.splits prod.splits sum.splits)

text \<open>Whether a write, with the error it returned, handed the value to the local cache.\<close>

definition copied :: "cache_service \<Rightarrow> entry \<Rightarrow> set_options \<Rightarrow> go_error option \<Rightarrow> bool" where
  "copied cs e opts err \<longleftrightarrow>
     value_size e \<le> cs_maxValueSize cs \<and> err \<noteq> Some ErrVersionMismatch \<and> effective_mode cs opts \<noteq> ReadWriteModeWriteThrough"

lemma moved_CacheService_Set:
  assumes H: "honest_cache E handed" and L: "local_at cs p h (heap c)" and C: "all_closed (breakers c)"
    and T: "named_target E cs (heap c) (entry_Key e) (so_RoutingHint (set_or_zero o1)) = Some q" "q \<noteq> p"
    and S: "CacheService_Set E cs e o1 c = (err, c')"
  shows "moved handed h
    (\<lambda>m. if copied cs e (set_or_zero o1) err then hand e m else m) c c'"
proof -
  let ?opts = "set_or_zero o1" and ?e = "written cs (set_or_zero o1) e"
  obtain t c0 where t: "time_Now E c = (t, c0)" by fastforce
  let ?c0 = "record_metric (RecordValueSize ''cache'' ''set'' (value_size e)) c0"
  have k0: "kept handed h c ?c0" using kept_Now [OF H t] by simp
  obtain err' c4 where b: "set_body E cs e ?opts ?c0 = (err', c4)" by fastforce
  with S t have c': "err' = err" "c' = record_latency E ''set'' t c4"
    by (simp_all add: CacheService_Set_def Let_def)
  have "moved handed h (\<lambda>m. if copied cs e ?opts err then hand e m else m) ?c0 c4"
  proof (cases "cs_maxValueSize cs < value_size e")
    case True
    with b have "setPassthrough E cs e ?opts ?c0 = (err', c4)" by (simp add: set_body_def)
    with True kept_passthrough [OF H _ _ _ T(2), where h = h and c = ?c0 and e = e and opts = ?opts] L C T(1)
      local_at_moved [OF k0] closed_moved [OF k0 C] target_moved [OF k0, of E]
    show ?thesis by (simp add: copied_def)
  next
    case small: False
    obtain conflict c1 where k: "set_conflict E cs e ?opts ?c0 = (conflict, c1)" by fastforce
    have k1: "kept handed h ?c0 c1" by (rule kept_conflict [OF H k])
    have k01: "kept handed h c c1" by (rule kept_then [OF k0 k1])
    show ?thesis
    proof (cases conflict)
      case True
      with small b k k1 c'(1) show ?thesis by (auto simp: set_body_def copied_def)
    next
      case False
      have w: "entry_Key ?e = entry_Key e" "entry_Value ?e = entry_Value e" by (simp_all add: written_def)
      note at = H local_at_moved [OF k01, THEN iffD2, OF L] closed_moved [OF k01 C]
      have tgt: "named_target E cs (heap c1) (entry_Key ?e) (so_RoutingHint ?opts) = Some q"
        using target_moved [OF k01, of E] T(1) w(1) by simp
      have "moved handed h (\<lambda>m. if copied cs e ?opts err then hand e m else m) c1 c4"
      proof (cases "effective_mode cs ?opts = ReadWriteModeWriteThrough")
        case True
        with small False b k have "setWriteThrough E cs ?e ?opts c1 = (err', c4)"
          by (auto simp: set_body_def Let_def written_def effective_mode_def simp del: getTTL.simps split: if_splits)
        from kept_write_through [OF at tgt T(2) this] True show ?thesis by (simp add: copied_def)
      next
        case other: False
        with small False b k have "setWriteBehind E cs ?e ?opts c1 = (err', c4) \<or> setCacheAside E cs ?e ?opts c1 = (err', c4)"
          by (auto simp: set_body_def Let_def written_def effective_mode_def simp del: getTTL.simps
              split: ReadWriteMode.splits if_splits)
        with moved_write_behind [OF at tgt T(2)] moved_cache_aside [OF at tgt T(2)] hand_written [of cs ?opts e]
        have "moved handed h (hand e) c1 c4 \<and> err' \<noteq> Some ErrVersionMismatch"
          by metis
        with small other c'(1) show ?thesis by (simp add: copied_def)
      qed
      then show ?thesis by (rule kept_then [OF k1])
    qed
  qed
  from kept_then [OF k0 this] c' show ?thesis by (simp add: kept_latency [OF H])
qed

section \<open>What is served\<close>

lemma local_hit:
  assumes H: "honest_cache E handed" and L: "local_at cs p h (heap d)"
    and v: "set (handed (world d) h key) \<subseteq> range AnyBytes"
    and t: "time_Now E d = (t, d0)" and hit: "fst (env_cache_get E h key (world d0)) \<noteq> None"
  shows "\<exists>v n. AnyBytes v \<in> set (handed (world d) h key) \<and> fst (env_cache_get E h key (world d0)) = Some (AnyBytes v) \<and>
    fst (CacheService_Get E cs key None d) = Inr \<lparr>entry_Key = key, entry_Value = v, entry_Version = n, entry_TTL = 0\<rparr>"
proof -
  have k: "handed (world d0) h = handed (world d) h" using kept_Now [OF H t, of h] by (simp add: moved_def)
  have heap: "heap d0 = heap d" using time_Now_cs [OF t] by simp
  have "handle_of (heap d0 p) = Some (h, True)" and l: "cs_localCache cs = Some p"
    using L by (auto simp: local_at_def heap)
  then obtain m where m: "heap d0 p = MemoryBackend m" "mb_cache m = h" "mb_healthy m"
    by (auto simp: handle_of_def split: backend.splits)
  obtain r w' where g: "env_cache_get E h key (world d0) = (r, w')" by fastforce
  from hit g obtain a where a: "r = Some a" by auto
  with honestD(1) [OF H g] k have mem: "a \<in> set (handed (world d) h key)" by simp
  with v obtain v where "a = AnyBytes v" by blast
  with a have r: "r = Some (AnyBytes v)" by simp
  let ?e = "\<lparr>entry_Key = key, entry_Value = v, entry_Version = getVersion m key, entry_TTL = 0\<rparr>"
  obtain d1 where o: "obj_Get E p key d0 = (Inr ?e, d1)"
    using m g r by (simp add: obj_Get_def obj_call_def Backend_Get_def on_object_def Memory_Get_def)
  have "\<not> stale_version cs zero_get_options ?e" by (simp add: stale_version_def zero_get_options_def)
  then have "fst (CacheService_Get E cs key None d) = Inr ?e"
    using t l o by (simp add: CacheService_Get_def get_body_def get_local_def get_or_zero_def zero_get_options_def Let_def)
  with mem r g \<open>a = AnyBytes v\<close> show ?thesis by auto
qed


lemma moved_CacheService_Delete:
  assumes H: "honest_cache E handed" and L: "local_at cs p h (heap c)" and C: "all_closed (breakers c)"
    and T: "named_target E cs (heap c) key (case o2 of None \<Rightarrow> [] | Some opts \<Rightarrow> do_RoutingHint opts) = Some q" "q \<noteq> p"
    and D: "CacheService_Delete E cs key o2 c = (err, c')"
  shows "moved handed h (\<lambda>m. m(key := [])) c c'"
proof -
  let ?hint = "case o2 of None \<Rightarrow> [] | Some opts \<Rightarrow> do_RoutingHint opts"
  obtain t1 c0 where t1: "time_Now E c = (t1, c0)" by fastforce
  have k0: "kept handed h c c0" by (rule kept_Now [OF H t1])
  obtain x ca where del: "obj_Delete E p key c0 = (x, ca)" by fastforce
  have at0: "handle_of (heap c0 p) = Some (h, True)" "cs_localCache cs = Some p"
    using local_at_moved [OF k0, of cs p h] L by (auto simp: local_at_def)
  then have ma: "moved handed h (\<lambda>m. m(key := [])) c ca"
    using kept_then [OF k0 moved_Delete [OF H del, of h]] by simp
  obtain c1 where r: "route_write E cs key ?hint ca = (Inr q, c1)"
    using route_write_named [of E cs ca key ?hint q] target_moved [OF ma, of E] T(1) by auto
  have m1: "moved handed h (\<lambda>m. m(key := [])) c c1" by (rule then_kept [OF ma kept_write [OF H r]])
  obtain g c2 where g: "guard E q c1 = (g, c2)" by fastforce
  have g': "g = None" "kept handed h c1 c2" using kept_guard [OF closed_moved [OF m1 C] g] by blast+
  have m2: "moved handed h (\<lambda>m. m(key := [])) c c2" by (rule then_kept [OF m1 g'(2)])
  obtain y c3 where o: "obj_Delete E q key c2 = (y, c3)" by fastforce
  have "handle_of (heap c2 q) \<noteq> Some (h, True)"
    using L T(2) local_at_moved [OF m2, of cs p h] by (auto simp: local_at_def)
  then have "kept handed h c2 c3" using moved_Delete [OF H o, of h] by simp
  then have m3: "moved handed h (\<lambda>m. m(key := [])) c c3" by (rule then_kept [OF m2])
  obtain z c4 where b: "delete_body E cs key ?hint c0 = (z, c4)" by fastforce
  with r g g'(1) o del at0(2) m3 have "moved handed h (\<lambda>m. m(key := [])) c c4"
    by (auto simp: delete_body_def delete_local_def Let_def split: if_splits)
  with D t1 b show ?thesis by (auto simp: CacheService_Delete_def Let_def kept_latency [OF H])
qed

lemma moved_fill:
  assumes "honest_cache E handed" "local_at cs p h (heap c)" "n < length (local_sets c)" "local_sets c ! n = e"
  shows "moved handed h (hand e) c (run_local_set E cs n c)"
  using moved_write_local [OF assms(1), of cs p h "c\<lparr>local_sets := remove_nth n (local_sets c)\<rparr>" e] assms(2-4)
  by (simp add: run_local_set_def)

lemma filled_after_deletion:
  assumes "honest_cache E handed" "local_at cs p h (heap c)" "all_closed (breakers c)"
    "named_target E cs (heap c) (entry_Key e) (case o2 of None \<Rightarrow> [] | Some opts \<Rightarrow> do_RoutingHint opts) = Some q" "q \<noteq> p"
    "n < length (local_sets c)" "local_sets c ! n = e"
    "CacheService_Delete E cs (entry_Key e) o2 c = (err, c')"
  shows "handed (world c') h (entry_Key e) = [] \<and>
    handed (world (run_local_set E cs n c')) h (entry_Key e) = [AnyBytes (entry_Value e)] \<and>
    local_at cs p h (heap (run_local_set E cs n c'))"
proof -
  note m = moved_CacheService_Delete [OF assms(1-5,8)]
  have "local_at cs p h (heap c')" "n < length (local_sets c')" "local_sets c' ! n = e"
    using local_at_moved [OF m] delete_work [OF assms(8)] assms(2,6,7) by (simp_all add: same_work_def)
  note f = moved_fill [OF assms(1) this]
  show ?thesis
    using m f local_at_moved [OF f] local_at_moved [OF m] assms(2) by (simp add: moved_def hand_def)
qed


section \<open>A sample\<close>

text \<open>A node with its local cache and Redis, and an old copy of one key.\<close>

definition two_tier_heap :: "bref \<Rightarrow> backend" where
  "two_tier_heap p =
     (if p = 0 then sample_object ''local'' 10 True
      else RedisBackend (sample_redis\<lparr>rb_id := ''redis-master'', rb_defaultTTL := Minute\<rparr>))"

definition two_tier_ctx :: "sim cs_ctx" where
  "two_tier_ctx = sample_cs_ctx
     \<lparr>heap := two_tier_heap, world := sim0\<lparr>sim_cache := (\<lambda>_. (\<lambda>_. [])(''user:profile:7'' := [AnyBytes [1]]))\<rparr>,
      local_sets := [\<lparr>entry_Key = ''user:profile:7'', entry_Value = [2], entry_Version = 0, entry_TTL = 0\<rparr>]\<rparr>"

lemma two_tier_local: "local_at (sample_service (Some 0)) 0 0 two_tier_heap"
  by (simp add: local_at_def handle_of_def two_tier_heap_def sample_object_def)

lemma two_tier_named: "named_target sim_env (sample_service (Some 0)) two_tier_heap ''user:profile:7'' '''' = Some 1"
  by (simp add: named_target_def candidates_def sample_profile_rule live_def obj_Healthy_def Backend_Healthy_def
      two_tier_heap_def sample_redis_def)

text \<open>Five bytes where four are allowed: the write succeeds and the old copy is served.\<close>

definition oversized :: entry where
  "oversized = \<lparr>entry_Key = ''user:profile:7'', entry_Value = [1, 2, 3, 4, 5], entry_Version = 0, entry_TTL = 0\<rparr>"

lemma oversized_accepted:
  "\<exists>c'. CacheService_Set sim_env (sample_service (Some 0)) oversized None two_tier_ctx = (None, c')"
proof -
  let ?cs = "sample_service (Some 0)"
  obtain t c0 where t: "time_Now sim_env two_tier_ctx = (t, c0)" by fastforce
  let ?c0 = "record_metric (RecordValueSize ''cache'' ''set'' (value_size oversized)) c0"
  have c0: "heap ?c0 = two_tier_heap" "breakers ?c0 = Map.empty" "sim_redis (world ?c0) = (\<lambda>_ _. None)"
    using t by (auto simp: time_Now_def two_tier_ctx_def sim0_def)
  have r: "route_write sim_env ?cs ''user:profile:7'' '''' ?c0 = (Inr 1, ?c0)"
    using two_tier_named c0(1) by (simp add: route_write_def named_target_def GetBackend_candidates)
  obtain m where g: "guard sim_env 1 ?c0 = (None, ?c0\<lparr>breakers := m\<rparr>)" using guard_closed [of ?c0 sim_env 1] c0(2) by auto
  obtain c3 where s: "obj_Set sim_env 1 oversized (?c0\<lparr>breakers := m\<rparr>) = (None, c3)"
    using sim_redis_set [of "?c0\<lparr>breakers := m\<rparr>" 1 "sample_redis\<lparr>rb_id := ''redis-master'', rb_defaultTTL := Minute\<rparr>" oversized] c0
    by (auto simp: two_tier_heap_def sample_redis_def redis_ttl_def oversized_def)
  have "entry_Key oversized = ''user:profile:7''" "so_RoutingHint zero_set_options = ''''" "4 < value_size oversized"
    by (simp_all add: oversized_def zero_set_options_def value_size_def)
  with r g s have "set_body sim_env ?cs oversized zero_set_options ?c0 = (None, c3)"
    by (simp add: set_body_def setPassthrough_def Let_def)
  with t show ?thesis by (simp add: CacheService_Set_def set_or_zero_def Let_def)
qed



end
