(* ===== verification/Write_Behind.thy ===== *)
theory Write_Behind
  imports End_To_End
begin

text \<open>
  The order of delayed writes: what a batch of the write-behind worker leaves in Redis, and
  what a write that failed and comes back later does to the writes made in between.
\<close>

section \<open>One item\<close>

lemma obj_Set_store:
  assumes "redis_server E clock store" "heap c p = RedisBackend r" "rb_healthy r" "0 < redis_ttl r e"
    "obj_Set E p e c = (None, c')"
  shows "\<exists>n. heap c' p = RedisBackend r \<and>
    store (world c') = (store (world c))(rb_client r := (store (world c) (rb_client r))
      (entry_Key e \<mapsto> (entry_Value e, Some (clock (world c) + value_life (redis_ttl r e))),
       versionKey (entry_Key e) \<mapsto> (bytes_of_string (strconv_Itoa n), Some (clock (world c) + counter_life (redis_ttl r e)))))"
proof -
  obtain err r1 w1 where s: "Redis_Set E r e (world c) = (err, r1, w1)" by (metis prod_cases3)
  with assms(2,5) have "err = None" and c': "heap c' p = RedisBackend r1" "world c' = w1"
    by (auto simp: obj_Set_def obj_call_def Backend_Set_def on_object_def)
  with Redis_Set_effect [OF assms(1,3,4)] s show ?thesis by blast
qed

text \<open>The values in Redis, without their deadlines.\<close>

definition value_in :: "('w \<Rightarrow> nat \<Rightarrow> redis_store) \<Rightarrow> nat \<Rightarrow> 'w \<Rightarrow> string \<Rightarrow> bytes option" where
  "value_in store h w k = map_option fst (store w h k)"

text \<open>What an item needs to be written: a live Redis backend that the rules name for its key.\<close>

definition goes_to :: "'w env \<Rightarrow> cache_service \<Rightarrow> (bref \<Rightarrow> backend) \<Rightarrow> bref \<Rightarrow> redis_backend \<Rightarrow> wb_item \<Rightarrow> bool" where
  "goes_to E cs h p r item \<longleftrightarrow>
     named_target E cs h (entry_Key (wb_entry item)) '''' = Some p \<and> 0 < redis_ttl r (wb_entry item) \<and> wb_retry item < 3"

lemma goes_to_quiet: "quiet c c' \<Longrightarrow> goes_to E cs (heap c') p r item = goes_to E cs (heap c) p r item"
  using named_target_view [of "heap c'" "heap c" E cs] by (simp add: goes_to_def quiet_def)

lemma item_written:
  assumes S: "redis_server E clock store" "steady E clock store" and R: "heap c p = RedisBackend r" "rb_healthy r"
    and G: "goes_to E cs (heap c) p r item"
    and ok: "sleeping (processWriteBehindItem E cs item c) = sleeping c"
  shows "heap (processWriteBehindItem E cs item c) p = RedisBackend r \<and>
    (\<forall>k. k \<noteq> versionKey (entry_Key (wb_entry item)) \<longrightarrow>
      value_in store (rb_client r) (world (processWriteBehindItem E cs item c)) k =
        (if k = entry_Key (wb_entry item) then Some (entry_Value (wb_entry item))
         else value_in store (rb_client r) (world c) k))"
proof -
  let ?e = "wb_entry item"
  obtain c1 where t: "route_write E cs (entry_Key ?e) '''' c = (Inr p, c1)"
    using G route_write_named unfolding goes_to_def by blast
  have c1: "heap c1 p = RedisBackend r" "store (world c1) = store (world c)" "sleeping c1 = sleeping c"
    using route_write_cs [OF t] undisturbed_write [OF S(2) t, of cs] R(1)
    by (auto simp: same_work_def undisturbed_def later_def)
  obtain err c2 where o: "obj_Set E p ?e c1 = (err, c2)" by fastforce
  have "sleeping c2 = sleeping c" using obj_Set_cs [OF o] c1(3) by (simp add: same_work_def)
  then have err: "err = None"
    using ok t o G by (cases err) (auto simp: processWriteBehindItem_def goes_to_def retry_later_def)
  with o have "obj_Set E p ?e c1 = (None, c2)" by simp
  from obj_Set_store [OF S(1) c1(1) R(2) _ this] G have "heap c2 p = RedisBackend r \<and> (\<forall>k. k \<noteq> versionKey (entry_Key ?e) \<longrightarrow>
      value_in store (rb_client r) (world c2) k =
        (if k = entry_Key ?e then Some (entry_Value ?e) else value_in store (rb_client r) (world c) k))"
    by (auto simp: goes_to_def value_in_def c1(2))
  then show ?thesis using t o err by (simp add: processWriteBehindItem_def)
qed

section \<open>One batch\<close>

text \<open>The value a list of items asks for a key: that of its last item for it.\<close>

fun last_asked :: "wb_item list \<Rightarrow> string \<Rightarrow> bytes option \<Rightarrow> bytes option" where
  "last_asked [] k v = v"
| "last_asked (item # items) k v =
     last_asked items k (if entry_Key (wb_entry item) = k then Some (entry_Value (wb_entry item)) else v)"

lemma batch_written:
  assumes "redis_server E clock store" "steady E clock store" "heap c p = RedisBackend r" "rb_healthy r"
    "\<forall>item \<in> set items. goes_to E cs (heap c) p r item"
    "sleeping (processWriteBehindBatch E cs items c) = sleeping c"
    "\<forall>item \<in> set items. k \<noteq> versionKey (entry_Key (wb_entry item))"
  shows "value_in store (rb_client r) (world (processWriteBehindBatch E cs items c)) k =
    last_asked items k (value_in store (rb_client r) (world c) k)"
  using assms(3,5-7)
proof (induction items arbitrary: c)
  case Nil
  then show ?case by simp
next
  case (Cons item items)
  let ?c1 = "processWriteBehindItem E cs item c"
  obtain l1 where l1: "sleeping ?c1 = sleeping c @ l1" and q: "quiet c ?c1"
    using item_processed [of E cs item c] by blast
  obtain l2 where l2: "sleeping (processWriteBehindBatch E cs items ?c1) = sleeping ?c1 @ l2"
    using batch_processed [of ?c1 E cs items] by blast
  have s: "sleeping ?c1 = sleeping c" "sleeping (processWriteBehindBatch E cs items ?c1) = sleeping ?c1"
    using l1 l2 Cons.prems(3) by simp_all
  have w: "heap ?c1 p = RedisBackend r" "value_in store (rb_client r) (world ?c1) k =
      (if k = entry_Key (wb_entry item) then Some (entry_Value (wb_entry item)) else value_in store (rb_client r) (world c) k)"
    using item_written [OF assms(1,2) Cons.prems(1) assms(4) _ s(1)] Cons.prems(2,4) by auto
  have "value_in store (rb_client r) (world (processWriteBehindBatch E cs items ?c1)) k =
      last_asked items k (value_in store (rb_client r) (world ?c1) k)"
    using Cons.prems(2,4) goes_to_quiet [OF q, of E] by (intro Cons.IH [OF w(1) _ s(2)]) auto
  then show ?case by (simp only: processWriteBehindBatch.simps last_asked.simps w(2) eq_commute [of k])
qed

text \<open>
  C22: a batch is the same as its last writes. When the worker has processed a batch whose
  keys the rules send to a live Redis backend, and no item had to go to sleep, Redis holds
  for every key the value of the last item of the batch for it, and every other key (but the
  counters of the written ones) as before.
\<close>

theorem batch_leaves_last_writes:
  assumes "redis_server E clock store" "steady E clock store" "heap c p = RedisBackend r" "rb_healthy r"
    "\<forall>item \<in> set items. goes_to E cs (heap c) p r item"
    "sleeping (processWriteBehindBatch E cs items c) = sleeping c"
    "\<forall>item \<in> set items. k \<noteq> versionKey (entry_Key (wb_entry item))"
  shows "value_in store (rb_client r) (world (processWriteBehindBatch E cs items c)) k =
    (case filter (\<lambda>item. entry_Key (wb_entry item) = k) items of
       [] \<Rightarrow> value_in store (rb_client r) (world c) k
     | mine \<Rightarrow> Some (entry_Value (wb_entry (last mine))))"
proof -
  have "last_asked items k v = (case filter (\<lambda>item. entry_Key (wb_entry item) = k) items of
       [] \<Rightarrow> v | mine \<Rightarrow> Some (entry_Value (wb_entry (last mine))))" for v
    by (induction items arbitrary: v) (auto split: list.splits)
  then show ?thesis using batch_written [OF assms] by simp
qed

section \<open>Coming back\<close>

text \<open>The step of a sleeper that finds the worker without work, then the worker's next two steps.\<close>

definition come_back :: "'w env \<Rightarrow> cache_service \<Rightarrow> nat \<Rightarrow> ('w, 'z) cs_ctx_scheme \<Rightarrow> ('w, 'z) cs_ctx_scheme" where
  "come_back E cs n c = worker_tick E cs (worker_take E cs (wake n c))"

lemma come_back_item:
  assumes "n < length (sleeping c)" "queue c = []" "batch c = []"
  shows "come_back E cs n c =
    processWriteBehindItem E cs (sleeping c ! n) (c\<lparr>sleeping := remove_nth n (sleeping c)\<rparr>)"
proof -
  have "wake n c = c\<lparr>queue := [sleeping c ! n], sleeping := remove_nth n (sleeping c)\<rparr>"
    using assms by (simp add: wake_def queue_capacity_def)
  then have "worker_take E cs (wake n c) = c\<lparr>queue := [], batch := [sleeping c ! n], sleeping := remove_nth n (sleeping c)\<rparr>"
    using assms(3) by (simp add: worker_take_def)
  moreover have "c\<lparr>queue := [], sleeping := x, batch := []\<rparr> = c\<lparr>sleeping := x\<rparr>" for x
    using assms(2,3) by (cases c) simp
  ultimately show ?thesis by (simp add: come_back_def worker_tick_def)
qed

text \<open>
  C23: a write that failed overwrites what was written since. While an item sleeps before its
  retry, a request writes another value of its key straight to the backend, in any mode but
  write-behind, and succeeds: Redis holds the new value. When the item comes back and is
  written, Redis holds the old value again, and nothing tells the client.
\<close>

theorem retry_overwrites_newer:
  assumes server: "redis_server E clock store" "steady E clock store"
    and before: "all_closed (breakers c)" "local_memory cs (heap c)" "heap c p = RedisBackend r" "rb_healthy r"
    and asleep: "n < length (sleeping c)" "sleeping c ! n = item" "goes_to E cs (heap c) p r item"
      "entry_Key (wb_entry item) = entry_Key e" "queue c = []" "batch c = []"
    and wrote: "CacheService_Set E cs e o1 c = (None, c')" "value_size e \<le> cs_maxValueSize cs"
      "effective_mode cs (set_or_zero o1) \<noteq> ReadWriteModeWriteBehind"
      "named_target E cs (heap c) (entry_Key e) (so_RoutingHint (set_or_zero o1)) = Some p"
      "0 < redis_ttl r (written cs (set_or_zero o1) e)"
    and woken: "sleeping (come_back E cs n c') = remove_nth n (sleeping c)" "queue c' = []"
  shows "value_in store (rb_client r) (world c') (entry_Key e) = Some (entry_Value e) \<and>
    value_in store (rb_client r) (world (come_back E cs n c')) (entry_Key e) = Some (entry_Value (wb_entry item))"
proof -
  let ?w = "written cs (set_or_zero o1) e"
  have w: "entry_Key ?w = entry_Key e" "entry_Value ?w = entry_Value e" by (simp_all add: written_def)
  from set_reaches [OF server(2) before(2,1) wrote(4,3,2,1)] obtain c1 c2 where
    c1: "undisturbed clock store cs c c1" and o: "obj_Set E p ?w c1 = (None, c2)" and c2: "undisturbed clock store cs c2 c'"
    by blast
  have p: "cs_localCache cs \<noteq> Some p" using before(2,3) by (auto simp: local_memory_def)
  then have "heap c1 p = RedisBackend r" using c1 before(3) by (simp add: undisturbed_def)
  from obj_Set_store [OF server(1) this before(4) wrote(5) o] have
    "heap c2 p = RedisBackend r" "value_in store (rb_client r) (world c2) (entry_Key e) = Some (entry_Value e)"
    by (auto simp: value_in_def w)
  with c2 p have new: "heap c' p = RedisBackend r" "value_in store (rb_client r) (world c') (entry_Key e) = Some (entry_Value e)"
    by (auto simp: undisturbed_def later_def value_in_def)
  have g: "grows cs c c'" by (rule set_grows [OF wrote(1)])
  have q: "quiet c c'" using set_calm [OF before(1) wrote(1)] by blast
  let ?d = "c'\<lparr>sleeping := remove_nth n (sleeping c')\<rparr>"
  have sl: "sleeping c' = sleeping c" "batch c' = []" using g asleep(6) by (auto simp: grows_def)
  then have d: "come_back E cs n c' = processWriteBehindItem E cs item ?d"
    using come_back_item [of n c' E cs] asleep(1,2) woken(2) by simp
  have "goes_to E cs (heap ?d) p r item" using goes_to_quiet [OF q, of E] asleep(3) by simp
  moreover have "sleeping (processWriteBehindItem E cs item ?d) = sleeping ?d" using woken(1) d sl(1) by simp
  ultimately have "value_in store (rb_client r) (world (processWriteBehindItem E cs item ?d)) (entry_Key e) =
      Some (entry_Value (wb_entry item))"
    using item_written [OF server _ before(4), of ?d p cs item] new(1) asleep(4) by simp
  with new(2) d show ?thesis by simp
qed

section \<open>A sample\<close>

text \<open>Two writes of one key, and the simulated Redis.\<close>

definition sample_write :: "bytes \<Rightarrow> entry" where
  "sample_write v = \<lparr>entry_Key = ''user:profile:7'', entry_Value = v, entry_Version = 0, entry_TTL = Minute\<rparr>"

abbreviation sample_item :: "bytes \<Rightarrow> wb_item" where
  "sample_item v \<equiv> \<lparr>wb_entry = sample_write v, wb_retry = 1\<rparr>"

abbreviation master :: redis_backend where
  "master \<equiv> sample_redis\<lparr>rb_id := ''redis-master'', rb_defaultTTL := Minute\<rparr>"

lemma sample_goes: "goes_to sim_env (sample_service None) sample_redis_heap 1 master (sample_item v)"
  using sample_named by (simp add: goes_to_def sample_write_def redis_ttl_def)



lemma sim_item:
  assumes "heap c = sample_redis_heap" "counter (sim_clock (world c)) (sim_redis (world c) 0) ''user:profile:7'' = Some n" "in_int64 (n + 1)"
  shows "let c' = processWriteBehindItem sim_env (sample_service None) (sample_item v) c in
    heap c' = sample_redis_heap \<and> sleeping c' = sleeping c \<and> sim_clock (world c') = sim_clock (world c) \<and>
    counter (sim_clock (world c)) (sim_redis (world c') 0) ''user:profile:7'' = Some (n + 1)"
proof -
  let ?cs = "sample_service None"
  have r: "route_write sim_env ?cs ''user:profile:7'' '''' c = (Inr 1, c)"
    using sample_named assms(1) by (simp add: route_write_def named_target_def GetBackend_candidates)
  have k: "entry_Key (sample_write v) = ''user:profile:7''" "0 < redis_ttl master (sample_write v)" "rb_healthy master" "rb_client master = 0"
    by (simp_all add: sample_write_def redis_ttl_def sample_redis_def)
  obtain c' where c': "obj_Set sim_env 1 (sample_write v) c = (None, c')" "sim_clock (world c') = sim_clock (world c)"
      "heap c' = heap c" "counter (sim_clock (world c)) (sim_redis (world c') 0) ''user:profile:7'' = Some (n + 1)"
    using sim_redis_count [of c 1 master "sample_write v" n] assms k
      counter_written [of _ "''user:profile:7''" "n + 1" "sim_clock (world c) + counter_life (redis_ttl master (sample_write v))" "sim_clock (world c)"]
      life_pos(2) [OF k(2)]
    by auto
  have "sleeping c' = sleeping c" using obj_Set_cs [OF c'(1)] by (simp add: same_work_def)
  with r c' k(1) assms(1) show ?thesis by (simp add: processWriteBehindItem_def Let_def)
qed

lemma batch_leaves_last_writes_witness:
  "value_in sim_redis 0 (world (processWriteBehindBatch sim_env (sample_service None) [sample_item [1], sample_item [2]] sample_redis_ctx))
     ''user:profile:7'' = Some [2]"
proof -
  let ?cs = "sample_service None" and ?c = sample_redis_ctx
  let ?c1 = "processWriteBehindItem sim_env ?cs (sample_item [1]) ?c"
  let ?items = "[sample_item [1], sample_item [2]]"
  have "counter (sim_clock (world ?c)) (sim_redis (world ?c) 0) ''user:profile:7'' = Some 0"
    by (simp add: counter_def sim0_def redis_alive_def)
  moreover have small: "in_int64 (0 + 1)" "in_int64 (1 + 1)" by (simp_all add: in_int64_def)
  ultimately
  have 1: "heap ?c1 = sample_redis_heap" "sleeping ?c1 = []" "sim_clock (world ?c1) = sim_clock (world ?c)"
    "counter (sim_clock (world ?c1)) (sim_redis (world ?c1) 0) ''user:profile:7'' = Some 1"
    using sim_item [of ?c 0 "[1]"] by (simp_all add: Let_def)
  from sim_item [OF 1(1,4) small(2), of "[2]"] 1(2)
  have 2: "sleeping (processWriteBehindBatch sim_env ?cs ?items ?c) = sleeping ?c" by (simp add: Let_def)
  have m: "heap ?c 1 = RedisBackend master" "rb_healthy master" "\<forall>item \<in> set ?items. goes_to sim_env ?cs (heap ?c) 1 master item"
    "\<forall>item \<in> set ?items. ''user:profile:7'' \<noteq> versionKey (entry_Key (wb_entry item))"
    using sample_goes by (simp_all add: sample_redis_def sample_write_def versionKey_def)
  from batch_leaves_last_writes [OF sim_redis_server sim_steady m(1-3) 2 m(4)] show ?thesis
    by (simp add: sample_redis_def sample_write_def)
qed

text \<open>The same key, written while an older value of it sleeps.\<close>

definition asleep_ctx :: "sim cs_ctx" where
  "asleep_ctx = sample_redis_ctx\<lparr>sleeping := [sample_item [9]]\<rparr>"

lemma newer_accepted:
  "\<exists>c'. CacheService_Set sim_env (sample_service None) (sample_write [7]) None asleep_ctx = (None, c') \<and> heap c' = sample_redis_heap \<and>
     counter (sim_clock (world c')) (sim_redis (world c') 0) ''user:profile:7'' = Some 1 \<and> same_work asleep_ctx c'"
proof -
  let ?cs = "sample_service None" and ?e = "sample_write [7]"
  obtain t c0 where t: "time_Now sim_env asleep_ctx = (t, c0)" by fastforce
  let ?c0 = "record_metric (RecordValueSize ''cache'' ''set'' (value_size ?e)) c0"
  have c0: "heap ?c0 = sample_redis_heap" "breakers ?c0 = Map.empty" "sim_redis (world ?c0) = (\<lambda>_ _. None)"
    "sim_clock (world ?c0) = Millisecond"
    using t by (auto simp: time_Now_def asleep_ctx_def sim0_def)
  have r: "route_write sim_env ?cs ''user:profile:7'' '''' ?c0 = (Inr 1, ?c0)"
    using sample_named c0(1) by (simp add: route_write_def named_target_def GetBackend_candidates)
  obtain m where g: "guard sim_env 1 ?c0 = (None, ?c0\<lparr>breakers := m\<rparr>)" using guard_closed [of ?c0 sim_env 1] c0(2) by auto
  have k: "written ?cs zero_set_options ?e = ?e" "entry_Key ?e = ''user:profile:7''" "redis_ttl master ?e = Minute"
    "value_size ?e \<le> 4" "rb_healthy master" "rb_client master = 0"
    by (simp_all add: written_def sample_write_def redis_ttl_def value_size_def sample_redis_def)
  have "counter Millisecond (\<lambda>_. None) ''user:profile:7'' = Some 0" "in_int64 (0 + 1)"
    by (simp_all add: counter_def redis_alive_def in_int64_def)
  then obtain c3 where s: "obj_Set sim_env 1 ?e (?c0\<lparr>breakers := m\<rparr>) = (None, c3)" and c3: "heap c3 = sample_redis_heap"
      "sim_clock (world c3) = Millisecond"
      "sim_redis (world c3) 0 (versionKey ''user:profile:7'') =
        Some (bytes_of_string (strconv_Itoa (0 + 1)), Some (Millisecond + counter_life Minute))"
    using sim_redis_count [of "?c0\<lparr>breakers := m\<rparr>" 1 master ?e 0] c0 k(2,3,5,6) by auto
  let ?c4 = "record_metric (RecordRequest (obj_ID (heap ?c0) 1) ''set'' ''success'') c3"
  have "so_RoutingHint zero_set_options = ''''" "so_Mode zero_set_options = ReadWriteModeEmpty" "\<not> so_CheckVersion zero_set_options"
    by (simp_all add: zero_set_options_def)
  moreover from this r g s k(2) have "write_backend sim_env ?cs ?e zero_set_options ?c0 = (Inr (obj_ID (heap ?c0) 1), c3)"
    by (simp add: write_backend_def Let_def)
  then have "setCacheAside sim_env ?cs ?e zero_set_options ?c0 = (None, ?c4)"
    by (simp add: setCacheAside_def write_local_def)
  ultimately have "set_body sim_env ?cs ?e zero_set_options ?c0 = (None, ?c4)"
    using k(1,4) by (simp add: set_body_def set_conflict_def written_def Let_def)
  with t have c': "CacheService_Set sim_env ?cs ?e None asleep_ctx = (None, record_latency sim_env ''set'' t ?c4)"
    by (simp add: CacheService_Set_def set_or_zero_def Let_def)
  have "sim_clock (world (record_latency sim_env ''set'' t ?c4)) \<le> 2 * Millisecond \<and>
      sim_redis (world (record_latency sim_env ''set'' t ?c4)) = sim_redis (world c3)"
    using c3(2) by (auto simp: record_latency_def time_Since_def time_Now_def Let_def split: option.split)
  moreover have "2 * Millisecond < Millisecond + counter_life Minute" by (simp add: counter_life_def sent_units_def)
  ultimately have "counter (sim_clock (world (record_latency sim_env ''set'' t ?c4)))
      (sim_redis (world (record_latency sim_env ''set'' t ?c4)) 0) ''user:profile:7'' = Some 1"
    using c3(3)
    by (intro counter_written [where d = "Millisecond + counter_life Minute"]) (simp_all add: in_int64_def del: record_latency_cs)
  moreover have "same_work asleep_ctx ?c4"
    using time_Now_cs [OF t] obj_Set_cs [OF s] by (simp add: same_work_def)
  then have "same_work asleep_ctx (record_latency sim_env ''set'' t ?c4)"
    using record_latency_cs(3) same_work_trans by blast
  ultimately show ?thesis using c' c3(1) by simp
qed

lemma retry_overwrites_newer_witness:
  "\<exists>c'. CacheService_Set sim_env (sample_service None) (sample_write [7]) None asleep_ctx = (None, c') \<and>
     value_in sim_redis 0 (world c') ''user:profile:7'' = Some [7] \<and>
     value_in sim_redis 0 (world (come_back sim_env (sample_service None) 0 c')) ''user:profile:7'' = Some [9]"
proof -
  let ?cs = "sample_service None"
  obtain c' where s: "CacheService_Set sim_env ?cs (sample_write [7]) None asleep_ctx = (None, c')"
    and c': "heap c' = sample_redis_heap" "counter (sim_clock (world c')) (sim_redis (world c') 0) ''user:profile:7'' = Some 1"
      "same_work asleep_ctx c'"
    using newer_accepted by blast
  have m: "all_closed (breakers asleep_ctx)" "local_memory ?cs (heap asleep_ctx)" "heap asleep_ctx 1 = RedisBackend master"
    "rb_healthy master" "0 < length (sleeping asleep_ctx)" "sleeping asleep_ctx ! 0 = sample_item [9]"
    "goes_to sim_env ?cs (heap asleep_ctx) 1 master (sample_item [9])"
    "entry_Key (wb_entry (sample_item [9])) = entry_Key (sample_write [7])" "queue asleep_ctx = []" "batch asleep_ctx = []"
    using sample_goes by (simp_all add: asleep_ctx_def local_memory_def sample_redis_def sample_write_def)
  have w: "value_size (sample_write [7]) \<le> cs_maxValueSize ?cs" "effective_mode ?cs (set_or_zero None) \<noteq> ReadWriteModeWriteBehind"
    "named_target sim_env ?cs (heap asleep_ctx) (entry_Key (sample_write [7])) (so_RoutingHint (set_or_zero None)) = Some 1"
    "0 < redis_ttl master (written ?cs (set_or_zero None) (sample_write [7]))"
    using sample_named
    by (simp_all add: asleep_ctx_def sample_write_def value_size_def effective_mode_def set_or_zero_def zero_set_options_def
        written_def redis_ttl_def)
  have q: "sleeping c' = [sample_item [9]]" "queue c' = []" "batch c' = []"
    using c'(3) by (simp_all add: same_work_def asleep_ctx_def)
  have b: "come_back sim_env ?cs 0 c' = processWriteBehindItem sim_env ?cs (sample_item [9]) (c'\<lparr>sleeping := []\<rparr>)"
    using come_back_item [of 0 c' sim_env ?cs] q by (simp add: remove_nth_def)
  have "in_int64 (1 + 1)" by (simp add: in_int64_def)
  from sim_item [of "c'\<lparr>sleeping := []\<rparr>" 1 "[9]"] this c' have "sleeping (come_back sim_env ?cs 0 c') = remove_nth 0 (sleeping asleep_ctx)"
    by (simp add: b remove_nth_def asleep_ctx_def Let_def)
  from retry_overwrites_newer [OF sim_redis_server sim_steady m(1-4) m(5-10) s w(1,2,3,4) this q(2)] s show ?thesis
    by (simp add: sample_redis_def sample_write_def)
qed

end
