(* ===== verification/Overlap.thy ===== *)
theory Overlap
  imports End_To_End
begin

text \<open>
  The three operations of the cache service (\<open>cache/cache.go\<close>) as programs of small steps, so
  that requests can overlap. A step is one call that touches what the requests share: the
  clock, the local cache, the router, a breaker, a backend, the queue; metrics are recorded
  with the call before them. A program counter says where a request is and holds its local
  variables. A request that runs alone does exactly what the operation does.
\<close>

section \<open>Reads\<close>

datatype get_pc =
    GetStart
  | GetLocal instant
  | GetRoute instant
  | GetGuard instant "bref list" "go_error option"
  | GetAsk instant bref string "bref list" "go_error option"
  | GetEnd instant "go_error + entry" int
  | GetDone "go_error + entry"

fun get_step ::
  "'w env \<Rightarrow> cache_service \<Rightarrow> string \<Rightarrow> get_options \<Rightarrow> get_pc \<times> ('w, 'z) cs_ctx_scheme \<Rightarrow> get_pc \<times> ('w, 'z) cs_ctx_scheme" where
  "get_step E cs key opts (GetStart, c) = (let (t, c1) = time_Now E c in (GetLocal t, c1))"
| "get_step E cs key opts (GetLocal t, c) =
     (let (found, size, c1) = get_local E cs key opts c in
      case found of
        Some r \<Rightarrow> (GetEnd t r size, c1)
      | None \<Rightarrow> (GetRoute t, record_metric (RecordMiss ''local'') c1))"
| "get_step E cs key opts (GetRoute t, c) =
     (let (ps, c1) = route_read E cs key (go_RoutingHint opts) c in
      if ps = [] then
        (GetEnd t (Inl ErrBackendUnhealthy) 0,
         record_metric (RecordRequest ''cache'' ''get'' ''error'') (record_metric (RecordError ''cache'' ''get'' 503) c1))
      else (GetGuard t ps None, c1))"
| "get_step E cs key opts (GetGuard t [] lastErr, c) =
     (case lastErr of
        Some err \<Rightarrow> (GetEnd t (Inl err) 0, record_metric (RecordRequest ''cache'' ''get'' ''error'') c)
      | None \<Rightarrow> (GetEnd t (Inl ErrKeyNotFound) 0, record_metric (RecordRequest ''cache'' ''get'' ''miss'') c))"
| "get_step E cs key opts (GetGuard t (p # ps) lastErr, c) =
     (let i = obj_ID (heap c) p; (gerr, c1) = guard E p c in
      case gerr of
        Some _ \<Rightarrow> (GetGuard t ps (Some CircuitErrCircuitOpen), c1)
      | None \<Rightarrow> (GetAsk t p i ps lastErr, c1))"
| "get_step E cs key opts (GetAsk t p i ps lastErr, c) =
     (let (r, c2) = obj_Get E p key c in
      case r of
        Inr e \<Rightarrow>
          (let c3 = record_metric (RecordRequest i ''get'' ''success'') (record_metric (RecordHit i) c2) in
           if stale_version cs opts e then (GetEnd t (Inl ErrVersionMismatch) (value_size e), c3)
           else
             (GetEnd t (Inr e) (value_size e),
              if cs_localCache cs \<noteq> None \<and> \<not> go_SkipCache opts \<and> value_size e \<le> cs_maxValueSize cs
              then spawn_local_set e c3 else c3))
      | Inl err \<Rightarrow>
          if err \<noteq> ErrKeyNotFound
          then (GetGuard t ps (Some err), record_metric (RecordError i ''get'' 500) c2)
          else (GetGuard t ps lastErr, record_metric (RecordMiss i) c2))"
| "get_step E cs key opts (GetEnd t r n, c) =
     (GetDone r, record_latency E ''get'' t (record_metric (RecordValueSize ''cache'' ''get'' n) c))"
| "get_step E cs key opts (GetDone r, c) = (GetDone r, c)"

section \<open>Writes\<close>

text \<open>The three places \<open>Set\<close> calls a backend from: \<open>setPassthrough\<close>, \<open>setCacheAside\<close>, \<open>setWriteThrough\<close>.\<close>

datatype way = Pass | Aside | Through

datatype set_pc =
    SetStart
  | SetCheck instant
  | SetLocal instant bool
  | SetEnqueue instant
  | SetRoute way instant
  | SetGuard way instant bref
  | SetWrite way instant bref string
  | SetEnd instant "go_error option"
  | SetDone "go_error option"

definition sent :: "cache_service \<Rightarrow> entry \<Rightarrow> set_options \<Rightarrow> way \<Rightarrow> entry" where
  "sent cs e opts k = (if k = Pass then e else written cs opts e)"

fun set_step ::
  "'w env \<Rightarrow> cache_service \<Rightarrow> entry \<Rightarrow> set_options \<Rightarrow> set_pc \<times> ('w, 'z) cs_ctx_scheme \<Rightarrow> set_pc \<times> ('w, 'z) cs_ctx_scheme" where
  "set_step E cs e opts (SetStart, c) =
     (let (t, c1) = time_Now E c in
      (if cs_maxValueSize cs < value_size e then SetRoute Pass t else SetCheck t,
       record_metric (RecordValueSize ''cache'' ''set'' (value_size e)) c1))"
| "set_step E cs e opts (SetCheck t, c) =
     (let (conflict, c1) = set_conflict E cs e opts c in
      if conflict then (SetEnd t (Some ErrVersionMismatch), failed_with ''cache'' ''set'' 409 ''version_mismatch'' c1)
      else
        (case effective_mode cs opts of
           ReadWriteModeWriteThrough \<Rightarrow> SetRoute Through t
         | ReadWriteModeWriteBehind \<Rightarrow> SetLocal t True
         | _ \<Rightarrow> SetLocal t False, c1))"
| "set_step E cs e opts (SetLocal t behind, c) =
     (if behind then SetEnqueue t else SetRoute Aside t, write_local E cs (written cs opts e) c)"
| "set_step E cs e opts (SetEnqueue t, c) =
     (if length (queue c) < queue_capacity then
        (SetEnd t None,
         record_metric (RecordRequest ''cache'' ''set'' ''queued'')
           (c\<lparr>queue := queue c @ [\<lparr>wb_entry = written cs opts e, wb_retry = 0\<rparr>]\<rparr>))
      else (SetRoute Through t, c))"
| "set_step E cs e opts (SetRoute k t, c) =
     (let (target, c1) = route_write E cs (entry_Key e) (so_RoutingHint opts) c in
      case target of
        Inl err \<Rightarrow>
          (SetEnd t (Some err),
           if k = Pass then record_metric (RecordError ''cache'' ''set'' 503) c1
           else failed_with ''cache'' ''set'' 503 ''error'' c1)
      | Inr p \<Rightarrow> (SetGuard k t p, c1))"
| "set_step E cs e opts (SetGuard k t p, c) =
     (let i = obj_ID (heap c) p; (gerr, c1) = guard E p c in
      case gerr of
        Some _ \<Rightarrow>
          (SetEnd t (Some CircuitErrCircuitOpen), if k = Pass then c1 else failed_with i ''set'' 503 ''circuit_open'' c1)
      | None \<Rightarrow> (SetWrite k t p i, c1))"
| "set_step E cs e opts (SetWrite k t p i, c) =
     (let (err, c1) = obj_Set E p (sent cs e opts k) c in
      (SetEnd t err,
       case err of
         Some _ \<Rightarrow>
           if k = Pass then record_metric (RecordError i ''set'' 500) c1 else failed_with i ''set'' 500 ''error'' c1
       | None \<Rightarrow>
           (case k of
              Pass \<Rightarrow> c1
            | Aside \<Rightarrow> record_metric (RecordRequest i ''set'' ''success'') c1
            | Through \<Rightarrow>
                record_metric (RecordRequest i ''set'' ''success'')
                  (if cs_localCache cs \<noteq> None then spawn_local_set (written cs opts e) c1 else c1))))"
| "set_step E cs e opts (SetEnd t err, c) = (SetDone err, record_latency E ''set'' t c)"
| "set_step E cs e opts (SetDone err, c) = (SetDone err, c)"

section \<open>Deletions\<close>

datatype delete_pc =
    DeleteStart
  | DeleteLocal instant
  | DeleteRoute instant
  | DeleteGuard instant bref
  | DeleteBackend instant bref string
  | DeleteEnd instant "go_error option"
  | DeleteDone "go_error option"

fun delete_step ::
  "'w env \<Rightarrow> cache_service \<Rightarrow> string \<Rightarrow> string \<Rightarrow> delete_pc \<times> ('w, 'z) cs_ctx_scheme \<Rightarrow> delete_pc \<times> ('w, 'z) cs_ctx_scheme" where
  "delete_step E cs key hint (DeleteStart, c) = (let (t, c1) = time_Now E c in (DeleteLocal t, c1))"
| "delete_step E cs key hint (DeleteLocal t, c) = (DeleteRoute t, delete_local E cs key c)"
| "delete_step E cs key hint (DeleteRoute t, c) =
     (let (target, c1) = route_write E cs key hint c in
      case target of
        Inl err \<Rightarrow> (DeleteEnd t (Some err), record_metric (RecordError ''cache'' ''delete'' 503) c1)
      | Inr p \<Rightarrow> (DeleteGuard t p, c1))"
| "delete_step E cs key hint (DeleteGuard t p, c) =
     (let i = obj_ID (heap c) p; (gerr, c1) = guard E p c in
      case gerr of
        Some _ \<Rightarrow> (DeleteEnd t (Some CircuitErrCircuitOpen), c1)
      | None \<Rightarrow> (DeleteBackend t p i, c1))"
| "delete_step E cs key hint (DeleteBackend t p i, c) =
     (let (err, c1) = obj_Delete E p key c
      in (DeleteEnd t err, if err \<noteq> None then record_metric (RecordError i ''delete'' 500) c1 else c1))"
| "delete_step E cs key hint (DeleteEnd t err, c) = (DeleteDone err, record_latency E ''delete'' t c)"
| "delete_step E cs key hint (DeleteDone err, c) = (DeleteDone err, c)"

section \<open>A request that runs alone\<close>

definition reaches :: "('s \<Rightarrow> 's) \<Rightarrow> 's \<Rightarrow> 's \<Rightarrow> bool" where
  "reaches f s s' \<longleftrightarrow> (\<exists>n. (f ^^ n) s = s')"

lemma reaches_refl: "reaches f s s"
  unfolding reaches_def by (rule exI [of _ 0]) simp

lemma reaches_step: "f s = s' \<Longrightarrow> reaches f s' s'' \<Longrightarrow> reaches f s s''"
  unfolding reaches_def by (metis comp_apply funpow_Suc_right)

lemma reaches_trans: "reaches f s s' \<Longrightarrow> reaches f s' s'' \<Longrightarrow> reaches f s s''"
  unfolding reaches_def by (metis comp_apply funpow_add)

lemma reaches_one: "f s = s' \<Longrightarrow> reaches f s s'"
  by (blast intro: reaches_step reaches_refl)

lemma get_guard_alone:
  "get_backends E cs key opts ps lastErr c = (r, n, c') \<Longrightarrow>
   reaches (get_step E cs key opts) (GetGuard t ps lastErr, c) (GetEnd t r n, c')"
proof (induction ps arbitrary: lastErr c)
  case Nil
  then show ?case by (intro reaches_one) (auto split: option.splits)
next
  case (Cons p ps)
  obtain g c1 where g: "guard E p c = (g, c1)" by fastforce
  obtain x c2 where o: "obj_Get E p key c1 = (x, c2)" by fastforce
  show ?case
  proof (cases g)
    case (Some e)
    with g have "get_step E cs key opts (GetGuard t (p # ps) lastErr, c) = (GetGuard t ps (Some CircuitErrCircuitOpen), c1)"
      by (simp add: Let_def)
    moreover have "get_backends E cs key opts ps (Some CircuitErrCircuitOpen) c1 = (r, n, c')"
      using Cons.prems g Some by (simp add: Let_def)
    ultimately show ?thesis using Cons.IH reaches_step by metis
  next
    case None
    with g have 1: "get_step E cs key opts (GetGuard t (p # ps) lastErr, c) = (GetAsk t p (obj_ID (heap c) p) ps lastErr, c1)"
      by (simp add: Let_def)
    show ?thesis
    proof (cases x)
      case (Inr e)
      have "get_step E cs key opts (GetAsk t p (obj_ID (heap c) p) ps lastErr, c1) = (GetEnd t r n, c')"
        using Cons.prems g None o Inr by (auto simp: Let_def split: if_splits)
      with 1 reaches_one reaches_step show ?thesis by metis
    next
      case (Inl err)
      let ?l = "if err \<noteq> ErrKeyNotFound then Some err else lastErr"
      let ?f = "if err \<noteq> ErrKeyNotFound then RecordError (obj_ID (heap c) p) ''get'' 500 else RecordMiss (obj_ID (heap c) p)"
      have 2: "get_step E cs key opts (GetAsk t p (obj_ID (heap c) p) ps lastErr, c1) = (GetGuard t ps ?l, record_metric ?f c2)"
        using o Inl by simp
      have "get_backends E cs key opts ps ?l (record_metric ?f c2) = (r, n, c')"
        using Cons.prems g None o Inl by (auto simp: Let_def split: if_splits)
      from Cons.IH [OF this] 1 2 reaches_step show ?thesis by metis
    qed
  qed
qed

lemma get_alone:
  assumes "CacheService_Get E cs key (Some opts) c = (r, c')"
  shows "reaches (get_step E cs key opts) (GetStart, c) (GetDone r, c')"
proof -
  let ?f = "get_step E cs key opts"
  obtain t c0 where t: "time_Now E c = (t, c0)" by fastforce
  obtain r1 n c1 where b: "get_body E cs key opts c0 = (r1, n, c1)" by (metis prod_cases3)
  have r: "r1 = r" "c' = record_latency E ''get'' t (record_metric (RecordValueSize ''cache'' ''get'' n) c1)"
    using assms t b by (simp_all add: CacheService_Get_def get_or_zero_def)
  obtain found n2 c2 where l: "get_local E cs key opts c0 = (found, n2, c2)" by (metis prod_cases3)
  have "reaches ?f (GetLocal t, c0) (GetEnd t r n, c1)"
  proof (cases found)
    case (Some x)
    with l b r(1) show ?thesis by (intro reaches_one) (simp add: get_body_def)
  next
    case None
    let ?c2 = "record_metric (RecordMiss ''local'') c2"
    obtain ps c3 where p: "route_read E cs key (go_RoutingHint opts) ?c2 = (ps, c3)" by fastforce
    have 1: "?f (GetLocal t, c0) = (GetRoute t, ?c2)" using l None by simp
    show ?thesis
    proof (cases "ps = []")
      case True
      with l None p b r(1) have "?f (GetRoute t, ?c2) = (GetEnd t r n, c1)" by (simp add: get_body_def)
      with 1 reaches_one reaches_step show ?thesis by metis
    next
      case False
      with p have 2: "?f (GetRoute t, ?c2) = (GetGuard t ps None, c3)" by simp
      have "get_backends E cs key opts ps None c3 = (r, n, c1)"
        using l None p b r(1) False by (simp add: get_body_def)
      from get_guard_alone [OF this, of t] 1 2 reaches_step show ?thesis by metis
    qed
  qed
  moreover have "?f (GetStart, c) = (GetLocal t, c0)" "?f (GetEnd t r n, c1) = (GetDone r, c')"
    using t r(2) by simp_all
  ultimately show ?thesis by (metis reaches_one reaches_step reaches_trans)
qed

lemma write_alone:
  assumes "write_backend E cs (written cs opts e) opts c = (r, c1)" "k \<noteq> Pass"
  shows "reaches (set_step E cs e opts) (SetRoute k t, c)
    (SetEnd t (case r of Inl err \<Rightarrow> Some err | Inr i \<Rightarrow> None),
     case r of Inl err \<Rightarrow> c1
     | Inr i \<Rightarrow> record_metric (RecordRequest i ''set'' ''success'')
         (if k = Through \<and> cs_localCache cs \<noteq> None then spawn_local_set (written cs opts e) c1 else c1))"
proof -
  let ?f = "set_step E cs e opts" and ?w = "written cs opts e"
  have w: "entry_Key ?w = entry_Key e" "sent cs e opts k = ?w" using assms(2) by (simp_all add: written_def sent_def)
  obtain target c2 where t: "route_write E cs (entry_Key e) (so_RoutingHint opts) c = (target, c2)" by fastforce
  show ?thesis
  proof (cases target)
    case (Inl err)
    with t assms w show ?thesis by (intro reaches_one) (auto simp: write_backend_def)
  next
    case (Inr p)
    have 1: "?f (SetRoute k t, c) = (SetGuard k t p, c2)" using t Inr by simp
    obtain g c3 where g: "guard E p c2 = (g, c3)" by fastforce
    show ?thesis
    proof (cases g)
      case (Some x)
      with t Inr g assms w have 2: "?f (SetGuard k t p, c2) = (SetEnd t (Some CircuitErrCircuitOpen), c1)"
        and "r = Inl CircuitErrCircuitOpen"
        by (auto simp: write_backend_def Let_def)
      with reaches_step [where f = ?f, OF 1 reaches_one [where f = ?f, OF 2]] show ?thesis by simp
    next
      case None
      let ?i = "obj_ID (heap c2) p"
      have 2: "?f (SetGuard k t p, c2) = (SetWrite k t p ?i, c3)" using g None by (simp add: Let_def)
      obtain err c4 where o: "obj_Set E p ?w c3 = (err, c4)" by fastforce
      have 3: "?f (SetWrite k t p ?i, c3) =
          (SetEnd t (case r of Inl err \<Rightarrow> Some err | Inr i \<Rightarrow> None),
           case r of Inl err \<Rightarrow> c1
           | Inr i \<Rightarrow> record_metric (RecordRequest i ''set'' ''success'')
               (if k = Through \<and> cs_localCache cs \<noteq> None then spawn_local_set ?w c1 else c1))"
        using t Inr g None o assms w by (cases k) (auto simp: write_backend_def Let_def split: option.splits)
      from 1 2 3 reaches_one reaches_step show ?thesis by metis
    qed
  qed
qed

lemma aside_alone:
  assumes "setCacheAside E cs (written cs opts e) opts c = (err, c')"
  shows "reaches (set_step E cs e opts) (SetLocal t False, c) (SetEnd t err, c')"
proof -
  let ?c1 = "write_local E cs (written cs opts e) c"
  obtain r c2 where w: "write_backend E cs (written cs opts e) opts ?c1 = (r, c2)" by fastforce
  have "reaches (set_step E cs e opts) (SetRoute Aside t, ?c1) (SetEnd t err, c')"
    using write_alone [OF w, of Aside t] assms w by (cases r) (simp_all add: setCacheAside_def)
  then show ?thesis by (rule reaches_step [rotated]) simp
qed

lemma through_alone:
  assumes "setWriteThrough E cs (written cs opts e) opts c = (err, c')"
  shows "reaches (set_step E cs e opts) (SetRoute Through t, c) (SetEnd t err, c')"
proof -
  obtain r c2 where w: "write_backend E cs (written cs opts e) opts c = (r, c2)" by fastforce
  with write_alone [OF w, of Through t] assms show ?thesis by (cases r) (simp_all add: setWriteThrough_def)
qed

lemma behind_alone:
  assumes "setWriteBehind E cs (written cs opts e) opts c = (err, c')"
  shows "reaches (set_step E cs e opts) (SetLocal t True, c) (SetEnd t err, c')"
proof -
  let ?f = "set_step E cs e opts" and ?c1 = "write_local E cs (written cs opts e) c"
  have "reaches ?f (SetEnqueue t, ?c1) (SetEnd t err, c')"
  proof (cases "length (queue ?c1) < queue_capacity")
    case True
    with assms show ?thesis by (intro reaches_one) (simp add: setWriteBehind_def Let_def)
  next
    case False
    with assms have "setWriteThrough E cs (written cs opts e) opts ?c1 = (err, c')"
      by (simp add: setWriteBehind_def Let_def)
    from through_alone [OF this, of t] False show ?thesis by (auto intro: reaches_step [rotated])
  qed
  then show ?thesis by (rule reaches_step [rotated]) simp
qed

lemma pass_alone:
  assumes "setPassthrough E cs e opts c = (err, c')"
  shows "reaches (set_step E cs e opts) (SetRoute Pass t, c) (SetEnd t err, c')"
proof -
  let ?f = "set_step E cs e opts"
  obtain target c2 where t: "route_write E cs (entry_Key e) (so_RoutingHint opts) c = (target, c2)" by fastforce
  show ?thesis
  proof (cases target)
    case (Inl x)
    with t assms show ?thesis by (intro reaches_one) (auto simp: setPassthrough_def)
  next
    case (Inr p)
    have 1: "?f (SetRoute Pass t, c) = (SetGuard Pass t p, c2)" using t Inr by simp
    obtain g c3 where g: "guard E p c2 = (g, c3)" by fastforce
    show ?thesis
    proof (cases g)
      case (Some x)
      with t Inr g assms have "?f (SetGuard Pass t p, c2) = (SetEnd t err, c')" by (simp add: setPassthrough_def Let_def)
      from reaches_step [where f = ?f, OF 1 reaches_one [where f = ?f, OF this]] show ?thesis .
    next
      case None
      have 2: "?f (SetGuard Pass t p, c2) = (SetWrite Pass t p (obj_ID (heap c2) p), c3)" using g None by (simp add: Let_def)
      obtain err' c4 where o: "obj_Set E p e c3 = (err', c4)" by fastforce
      have "?f (SetWrite Pass t p (obj_ID (heap c2) p), c3) = (SetEnd t err, c')"
        using t Inr g None o assms by (auto simp: setPassthrough_def sent_def Let_def split: option.splits if_splits)
      from reaches_step [where f = ?f, OF 1 reaches_step [where f = ?f, OF 2 reaches_one [where f = ?f, OF this]]] show ?thesis .
    qed
  qed
qed

lemma set_alone:
  assumes "CacheService_Set E cs e (Some opts) c = (err, c')"
  shows "reaches (set_step E cs e opts) (SetStart, c) (SetDone err, c')"
proof -
  let ?f = "set_step E cs e opts" and ?w = "written cs opts e"
  obtain t c0 where t: "time_Now E c = (t, c0)" by fastforce
  let ?c0 = "record_metric (RecordValueSize ''cache'' ''set'' (value_size e)) c0"
  obtain err1 c1 where b: "set_body E cs e opts ?c0 = (err1, c1)" by fastforce
  have r: "err1 = err" "c' = record_latency E ''set'' t c1"
    using assms t b by (simp_all add: CacheService_Set_def set_or_zero_def)
  have "reaches ?f (SetStart, c) (SetEnd t err, c1)"
  proof (cases "cs_maxValueSize cs < value_size e")
    case True
    with b r(1) have "setPassthrough E cs e opts ?c0 = (err, c1)" by (simp add: set_body_def)
    from pass_alone [OF this] show ?thesis by (rule reaches_step [rotated]) (use t True in simp)
  next
    case small: False
    obtain conflict c2 where k: "set_conflict E cs e opts ?c0 = (conflict, c2)" by fastforce
    have start: "?f (SetStart, c) = (SetCheck t, ?c0)" using t small by simp
    have "reaches ?f (SetCheck t, ?c0) (SetEnd t err, c1)"
    proof (cases conflict)
      case True
      with small b k r(1) show ?thesis by (intro reaches_one) (simp add: set_body_def)
    next
      case False
      have body: "(case effective_mode cs opts of
            ReadWriteModeWriteThrough \<Rightarrow> setWriteThrough E cs ?w opts c2
          | ReadWriteModeWriteBehind \<Rightarrow> setWriteBehind E cs ?w opts c2
          | _ \<Rightarrow> setCacheAside E cs ?w opts c2) = (err, c1)"
        using small False b k r(1) by (simp add: set_body_def written_def [symmetric] effective_mode_def [symmetric] Let_def del: getTTL.simps)
      show ?thesis
      proof (cases "effective_mode cs opts")
        case ReadWriteModeWriteThrough
        with body through_alone [of E cs opts e c2 err c1 t] k False show ?thesis by (auto intro: reaches_step [rotated])
      next
        case ReadWriteModeWriteBehind
        with body behind_alone [of E cs opts e c2 err c1 t] k False show ?thesis by (auto intro: reaches_step [rotated])
      qed (use body aside_alone [of E cs opts e c2 err c1 t] k False in \<open>auto intro: reaches_step [rotated]\<close>)
    qed
    with start show ?thesis by (blast intro: reaches_step)
  qed
  moreover have "?f (SetEnd t err, c1) = (SetDone err, c')" using r(2) by simp
  ultimately show ?thesis by (blast intro: reaches_one reaches_trans)
qed

lemma delete_alone:
  assumes "CacheService_Delete E cs key (Some \<lparr>do_RoutingHint = hint\<rparr>) c = (err, c')"
  shows "reaches (delete_step E cs key hint) (DeleteStart, c) (DeleteDone err, c')"
proof -
  let ?f = "delete_step E cs key hint"
  obtain t c0 where t: "time_Now E c = (t, c0)" by fastforce
  obtain err1 c1 where b: "delete_body E cs key hint c0 = (err1, c1)" by fastforce
  have r: "err1 = err" "c' = record_latency E ''delete'' t c1"
    using assms t b by (simp_all add: CacheService_Delete_def)
  let ?c0 = "delete_local E cs key c0"
  obtain target c2 where g1: "route_write E cs key hint ?c0 = (target, c2)" by fastforce
  have "reaches ?f (DeleteRoute t, ?c0) (DeleteEnd t err, c1)"
  proof (cases target)
    case (Inl x)
    with g1 b r(1) show ?thesis by (intro reaches_one) (simp add: delete_body_def)
  next
    case (Inr p)
    have 1: "?f (DeleteRoute t, ?c0) = (DeleteGuard t p, c2)" using g1 Inr by simp
    obtain g c3 where g: "guard E p c2 = (g, c3)" by fastforce
    show ?thesis
    proof (cases g)
      case (Some x)
      with g1 Inr g b r(1) have "?f (DeleteGuard t p, c2) = (DeleteEnd t err, c1)" by (simp add: delete_body_def Let_def)
      from reaches_step [where f = ?f, OF 1 reaches_one [where f = ?f, OF this]] show ?thesis .
    next
      case None
      have 2: "?f (DeleteGuard t p, c2) = (DeleteBackend t p (obj_ID (heap c2) p), c3)" using g None by (simp add: Let_def)
      obtain err' c4 where o: "obj_Delete E p key c3 = (err', c4)" by fastforce
      have "?f (DeleteBackend t p (obj_ID (heap c2) p), c3) = (DeleteEnd t err, c1)"
        using g1 Inr g None o b r(1) by (auto simp: delete_body_def Let_def split: if_splits)
      from reaches_step [where f = ?f, OF 1 reaches_step [where f = ?f, OF 2 reaches_one [where f = ?f, OF this]]] show ?thesis .
    qed
  qed
  moreover have "?f (DeleteStart, c) = (DeleteLocal t, c0)" "?f (DeleteLocal t, c0) = (DeleteRoute t, ?c0)"
    using t by simp_all
  ultimately have "reaches ?f (DeleteStart, c) (DeleteEnd t err, c1)" by (blast intro: reaches_step)
  moreover have "?f (DeleteEnd t err, c1) = (DeleteDone err, c')" using r(2) by simp
  ultimately show ?thesis by (blast intro: reaches_one reaches_trans)
qed

section \<open>Requests that overlap\<close>

text \<open>
  The requests in progress, each with its arguments and its program counter. One of them
  makes a step, another arrives, or a goroutine of the service does something (any step of
  \<open>service_step\<close>).
\<close>

datatype request =
    Reading string get_options get_pc
  | Writing entry set_options set_pc
  | Deleting string string delete_pc

fun request_step ::
  "'w env \<Rightarrow> cache_service \<Rightarrow> request \<times> ('w, 'z) cs_ctx_scheme \<Rightarrow> request \<times> ('w, 'z) cs_ctx_scheme" where
  "request_step E cs (Reading key opts pc, c) = apfst (Reading key opts) (get_step E cs key opts (pc, c))"
| "request_step E cs (Writing e opts pc, c) = apfst (Writing e opts) (set_step E cs e opts (pc, c))"
| "request_step E cs (Deleting key hint pc, c) = apfst (Deleting key hint) (delete_step E cs key hint (pc, c))"

fun starts :: "request \<Rightarrow> bool" where
  "starts (Reading key opts pc) \<longleftrightarrow> pc = GetStart"
| "starts (Writing e opts pc) \<longleftrightarrow> pc = SetStart"
| "starts (Deleting key hint pc) \<longleftrightarrow> pc = DeleteStart"

inductive overlap_step ::
  "'w env \<Rightarrow> cache_service \<Rightarrow> request list \<times> ('w, 'z) cs_ctx_scheme \<Rightarrow> request list \<times> ('w, 'z) cs_ctx_scheme \<Rightarrow> bool"
  for E :: "'w env" and cs :: cache_service
where
  arrives: "starts r \<Longrightarrow> overlap_step E cs (reqs, c) (reqs @ [r], c)"
| moves: "i < length reqs \<Longrightarrow> request_step E cs (reqs ! i, c) = (r, c') \<Longrightarrow> overlap_step E cs (reqs, c) (reqs[i := r], c')"
| others: "service_step E cs c c' \<Longrightarrow> overlap_step E cs (reqs, c) (reqs, c')"

text \<open>A schedule: the numbers of the requests that make the next steps.\<close>

fun run_schedule ::
  "'w env \<Rightarrow> cache_service \<Rightarrow> nat list \<Rightarrow> request list \<times> ('w, 'z) cs_ctx_scheme \<Rightarrow> request list \<times> ('w, 'z) cs_ctx_scheme" where
  "run_schedule E cs [] (reqs, c) = (reqs, c)"
| "run_schedule E cs (i # is) (reqs, c) =
     (let (r, c') = request_step E cs (reqs ! i, c) in run_schedule E cs is (reqs[i := r], c'))"

lemma run_schedule_append:
  "run_schedule E cs (is @ js) s = run_schedule E cs js (run_schedule E cs is s)"
proof (induction "is" arbitrary: s)
  case Nil
  then show ?case by (cases s) simp
next
  case (Cons i "is")
  then show ?case by (cases s) (simp split: prod.split)
qed

text \<open>A schedule is a run of the relation.\<close>

lemma run_schedule_steps:
  "set is \<subseteq> {..< length reqs} \<Longrightarrow> (overlap_step E cs)\<^sup>*\<^sup>* (reqs, c) (run_schedule E cs is (reqs, c))"
proof (induction "is" arbitrary: reqs c)
  case Nil
  then show ?case by simp
next
  case (Cons i "is")
  obtain r c' where r: "request_step E cs (reqs ! i, c) = (r, c')" by fastforce
  have "overlap_step E cs (reqs, c) (reqs[i := r], c')" using Cons.prems r by (intro moves) auto
  moreover have "(overlap_step E cs)\<^sup>*\<^sup>* (reqs[i := r], c') (run_schedule E cs is (reqs[i := r], c'))"
    using Cons.prems by (intro Cons.IH) auto
  ultimately show ?case using r by (simp add: converse_rtranclp_into_rtranclp)
qed

lemma run_writing:
  assumes "i < length reqs" "reqs ! i = Writing e opts pc" "(set_step E cs e opts ^^ n) (pc, c) = (pc', c')"
  shows "run_schedule E cs (replicate n i) (reqs, c) = (reqs[i := Writing e opts pc'], c')"
  using assms
proof (induction n arbitrary: reqs pc c)
  case 0
  then show ?case by (metis funpow_0 list_update_id prod.inject replicate_0 run_schedule.simps(1))
next
  case (Suc n)
  obtain pc1 c1 where s: "set_step E cs e opts (pc, c) = (pc1, c1)" by fastforce
  then have "(set_step E cs e opts ^^ n) (pc1, c1) = (pc', c')" using Suc.prems(3) by (simp add: funpow_swap1)
  from Suc.IH [OF _ _ this, of "reqs[i := Writing e opts pc1]"] Suc.prems(1,2) s show ?case by simp
qed

end
