(* ===== verification/Overlap_Properties.thy ===== *)
theory Overlap_Properties
  imports Overlap Coherence Write_Behind
begin

text \<open>
  Requests that overlap: alone a request does what its operation does; whatever the
  interleaving, the invariants of the service hold; but two writes of one key can leave the
  local cache and the backend with different values.
\<close>

section \<open>Alone\<close>

lemma reaches_unique:
  assumes "reaches f s d" "f d = d" "reaches f s d'" "f d' = d'"
  shows "d = d'"
proof -
  have stay: "(f ^^ n) x = x" if "f x = x" for n x
    using that by (induction n) simp_all
  have later: "(f ^^ n) s = x \<Longrightarrow> f x = x \<Longrightarrow> n \<le> m \<Longrightarrow> (f ^^ m) s = x" for n m x
    using stay [of x "m - n"] funpow_add [of "m - n" n f] by simp
  obtain n m where "(f ^^ n) s = d" "(f ^^ m) s = d'" using assms(1,3) unfolding reaches_def by blast
  with later [of n d "max n m"] later [of m d' "max n m"] assms(2,4) show ?thesis by simp
qed

text \<open>
  A check of the steps themselves, against the whole operations of \<open>Cache_Service\<close> that were
  translated from the same lines: a request that is not interrupted is the operation. The steps of a read, of a write and
  of a deletion, made one after the other, come to an end, and end with the result and the
  state of \<open>CacheService_Get\<close>, \<open>CacheService_Set\<close> and \<open>CacheService_Delete\<close>, and with no other.
\<close>

lemma uninterrupted_requests:
  "(reaches (get_step E cs key go) (GetStart, c) (GetDone r, c') \<longleftrightarrow> CacheService_Get E cs key (Some go) c = (r, c')) \<and>
   (reaches (set_step E cs e so) (SetStart, c) (SetDone err, c') \<longleftrightarrow> CacheService_Set E cs e (Some so) c = (err, c')) \<and>
   (reaches (delete_step E cs key hint) (DeleteStart, c) (DeleteDone err, c') \<longleftrightarrow>
     CacheService_Delete E cs key (Some \<lparr>do_RoutingHint = hint\<rparr>) c = (err, c'))"
proof (intro conjI iffI)
  assume g: "reaches (get_step E cs key go) (GetStart, c) (GetDone r, c')"
  obtain r1 c1 where o: "CacheService_Get E cs key (Some go) c = (r1, c1)" by fastforce
  from reaches_unique [OF g _ get_alone [OF o]] o show "CacheService_Get E cs key (Some go) c = (r, c')" by simp
next
  assume s: "reaches (set_step E cs e so) (SetStart, c) (SetDone err, c')"
  obtain r1 c1 where o: "CacheService_Set E cs e (Some so) c = (r1, c1)" by fastforce
  from reaches_unique [OF s _ set_alone [OF o]] o show "CacheService_Set E cs e (Some so) c = (err, c')" by simp
next
  assume d: "reaches (delete_step E cs key hint) (DeleteStart, c) (DeleteDone err, c')"
  obtain r1 c1 where o: "CacheService_Delete E cs key (Some \<lparr>do_RoutingHint = hint\<rparr>) c = (r1, c1)" by fastforce
  from reaches_unique [OF d _ delete_alone [OF o]] o
  show "CacheService_Delete E cs key (Some \<lparr>do_RoutingHint = hint\<rparr>) c = (err, c')" by simp
qed (simp_all add: get_alone set_alone delete_alone)

section \<open>Every interleaving\<close>

text \<open>What holds of a request in progress.\<close>

fun get_ok :: "cache_service \<Rightarrow> string \<Rightarrow> get_options \<Rightarrow> get_pc \<Rightarrow> bool" where
  "get_ok cs key opts (GetGuard t ps lastErr) \<longleftrightarrow> lastErr \<noteq> Some CircuitErrCircuitOpen"
| "get_ok cs key opts (GetAsk t p i ps lastErr) \<longleftrightarrow> lastErr \<noteq> Some CircuitErrCircuitOpen"
| "get_ok cs key opts (GetEnd t r n) \<longleftrightarrow>
     (case r of Inr e \<Rightarrow> entry_Key e = key \<and> \<not> stale_version cs opts e | Inl err \<Rightarrow> err \<noteq> CircuitErrCircuitOpen)"
| "get_ok cs key opts (GetDone r) \<longleftrightarrow>
     (case r of Inr e \<Rightarrow> entry_Key e = key \<and> \<not> stale_version cs opts e | Inl err \<Rightarrow> err \<noteq> CircuitErrCircuitOpen)"
| "get_ok cs key opts pc \<longleftrightarrow> True"

fun set_ok :: "cache_service \<Rightarrow> entry \<Rightarrow> set_pc \<Rightarrow> bool" where
  "set_ok cs e (SetEnd t err) \<longleftrightarrow> err \<noteq> Some CircuitErrCircuitOpen"
| "set_ok cs e (SetDone err) \<longleftrightarrow> err \<noteq> Some CircuitErrCircuitOpen"
| "set_ok cs e (SetCheck t) \<longleftrightarrow> value_size e \<le> cs_maxValueSize cs"
| "set_ok cs e (SetLocal t behind) \<longleftrightarrow> value_size e \<le> cs_maxValueSize cs"
| "set_ok cs e (SetEnqueue t) \<longleftrightarrow> value_size e \<le> cs_maxValueSize cs"
| "set_ok cs e (SetRoute k t) \<longleftrightarrow> k = Pass \<or> value_size e \<le> cs_maxValueSize cs"
| "set_ok cs e (SetGuard k t p) \<longleftrightarrow> k = Pass \<or> value_size e \<le> cs_maxValueSize cs"
| "set_ok cs e (SetWrite k t p i) \<longleftrightarrow> k = Pass \<or> value_size e \<le> cs_maxValueSize cs"
| "set_ok cs e SetStart \<longleftrightarrow> True"

fun delete_ok :: "delete_pc \<Rightarrow> bool" where
  "delete_ok (DeleteEnd t err) \<longleftrightarrow> err \<noteq> Some CircuitErrCircuitOpen"
| "delete_ok (DeleteDone err) \<longleftrightarrow> err \<noteq> Some CircuitErrCircuitOpen"
| "delete_ok pc \<longleftrightarrow> True"

fun request_ok :: "cache_service \<Rightarrow> request \<Rightarrow> bool" where
  "request_ok cs (Reading key opts pc) \<longleftrightarrow> get_ok cs key opts pc"
| "request_ok cs (Writing e opts pc) \<longleftrightarrow> set_ok cs e pc"
| "request_ok cs (Deleting key hint pc) \<longleftrightarrow> delete_ok pc"

text \<open>One step: nothing but the queue and the local writes grows, and the objects keep their flags.\<close>

definition calm :: "cache_service \<Rightarrow> ('w, 'z) cs_ctx_scheme \<Rightarrow> ('w, 'z) cs_ctx_scheme \<Rightarrow> bool" where
  "calm cs c c' \<longleftrightarrow> quiet c c' \<and> grows cs c c'"

lemma calm_same: "quiet c c' \<Longrightarrow> same_work c c' \<Longrightarrow> calm cs c c'"
  by (simp add: calm_def grows_same)

lemma calm_metric [simp]:
  "calm cs c (record_metric f c') = calm cs c c'" "calm cs c (failed_with i op code st c') = calm cs c c'"
  "calm cs c (record_latency E op t c') = calm cs c c'"
  by (simp_all add: calm_def quiet_def)

lemma calm_refl [simp]: "calm cs c c"
  by (simp add: calm_same)

lemma calm_spawn: "quiet c c' \<Longrightarrow> same_work c c' \<Longrightarrow> value_size e \<le> cs_maxValueSize cs \<Longrightarrow> calm cs c (spawn_local_set e c')"
  by (simp add: calm_def quiet_spawn grows_spawn)

lemma calm_Now: "time_Now E c = (t, c') \<Longrightarrow> calm cs c c'"
  using time_Now_cs [of E c t c'] by (simp add: calm_same)

lemma get_step_ok:
  assumes "all_closed (breakers c)" "get_ok cs key opts pc" "get_step E cs key opts (pc, c) = (pc', c')"
  shows "get_ok cs key opts pc' \<and> calm cs c c'"
proof (cases pc)
  case GetStart
  with assms(3) calm_Now show ?thesis by (auto split: prod.splits)
next
  case (GetLocal t)
  obtain found n c1 where l: "get_local E cs key opts c = (found, n, c1)" by (metis prod_cases3)
  have "calm cs c c1" using get_local_quiet [OF l] get_local_work [OF l] by (rule calm_same)
  moreover have "get_ok cs key opts (GetEnd t r n)" if "found = Some r" for r
    using l that by (auto simp: get_local_def Let_def dest: obj_Get_entry split: option.splits if_splits prod.splits sum.splits)
  ultimately show ?thesis using GetLocal l assms(3) by (auto split: option.splits)
next
  case (GetRoute t)
  obtain ps c1 where r: "route_read E cs key (go_RoutingHint opts) c = (ps, c1)" by fastforce
  have "calm cs c c1" using route_read_cs [OF r] by (simp add: calm_same)
  with GetRoute r assms(3) show ?thesis by (auto split: if_splits)
next
  case (GetGuard t ps lastErr)
  show ?thesis
  proof (cases ps)
    case Nil
    with GetGuard assms(2,3) show ?thesis by (auto split: option.splits)
  next
    case (Cons p qs)
    obtain g c1 where g: "guard E p c = (g, c1)" by fastforce
    have "g = None" "calm cs c c1" using guard_quiet [OF assms(1) g] by (simp_all add: calm_same)
    with GetGuard Cons g assms(2,3) show ?thesis by (auto simp: Let_def)
  qed
next
  case (GetAsk t p i ps lastErr)
  obtain r c2 where o: "obj_Get E p key c = (r, c2)" by fastforce
  have q: "quiet c c2" "same_work c c2" using obj_Get_cs [OF o] by simp_all
  show ?thesis
  proof (cases r)
    case (Inl err)
    then have "err \<noteq> CircuitErrCircuitOpen" using o obj_no_circuit_error(1) by blast
    with GetAsk Inl o assms(2,3) calm_same [OF q] show ?thesis by (auto split: if_splits)
  next
    case (Inr e)
    then have "entry_Key e = key" using o obj_Get_entry by blast
    with GetAsk Inr o assms(3) q show ?thesis
      by (auto simp: Let_def calm_same intro!: calm_spawn quiet_metric split: if_splits)
  qed
qed (use assms in \<open>auto\<close>)

lemma set_step_ok:
  assumes "all_closed (breakers c)" "set_ok cs e pc" "set_step E cs e opts (pc, c) = (pc', c')"
  shows "set_ok cs e pc' \<and> calm cs c c'"
proof (cases pc)
  case SetStart
  with assms(3) calm_Now show ?thesis by (auto split: prod.splits)
next
  case (SetCheck t)
  obtain x c1 where k: "set_conflict E cs e opts c = (x, c1)" by fastforce
  have "calm cs c c1" using set_conflict_calm [OF k] by (simp add: calm_same)
  with SetCheck k assms(2,3) show ?thesis by (auto split: if_splits ReadWriteMode.splits)
next
  case (SetLocal t behind)
  have "calm cs c (write_local E cs (written cs opts e) c)" using write_local_quiet [of c E cs "written cs opts e"] by (simp add: calm_same)
  with SetLocal assms(2,3) show ?thesis by auto
next
  case (SetEnqueue t)
  have "value_size (written cs opts e) = value_size e" by (simp add: written_def value_size_def)
  with SetEnqueue assms(2,3) show ?thesis
    by (auto simp: calm_def quiet_def grows_def split: if_splits)
next
  case (SetRoute k t)
  obtain r c1 where r: "route_write E cs (entry_Key e) (so_RoutingHint opts) c = (r, c1)" by fastforce
  have "calm cs c c1" using route_write_cs [OF r] by (simp add: calm_same)
  moreover have "err \<noteq> CircuitErrCircuitOpen" if "r = Inl err" for err using r that route_write_error by blast
  ultimately show ?thesis using SetRoute r assms(2,3) by (cases r) (auto split: if_splits)
next
  case (SetGuard k t p)
  obtain g c1 where g: "guard E p c = (g, c1)" by fastforce
  have "g = None" "calm cs c c1" using guard_quiet [OF assms(1) g] by (simp_all add: calm_same)
  with SetGuard g assms(2,3) show ?thesis by (auto simp: Let_def)
next
  case (SetWrite k t p i)
  obtain err c1 where o: "obj_Set E p (sent cs e opts k) c = (err, c1)" by fastforce
  have q: "quiet c c1" "same_work c c1" using obj_Set_cs [OF o] by simp_all
  have "value_size (written cs opts e) = value_size e" by (simp add: written_def value_size_def)
  moreover have "err \<noteq> Some CircuitErrCircuitOpen" using o obj_no_circuit_error(2) by blast
  ultimately show ?thesis using SetWrite o q assms(2,3)
    by (auto simp: calm_same intro!: calm_spawn split: option.splits way.splits if_splits)
qed (use assms in \<open>auto\<close>)

lemma delete_step_ok:
  assumes "all_closed (breakers c)" "delete_ok pc" "delete_step E cs key hint (pc, c) = (pc', c')"
  shows "delete_ok pc' \<and> calm cs c c'"
proof (cases pc)
  case DeleteStart
  with assms(3) calm_Now show ?thesis by (auto split: prod.splits)
next
  case (DeleteLocal t)
  have "calm cs c (delete_local E cs key c)" using delete_local_quiet [of c E cs key] by (simp add: calm_same)
  with DeleteLocal assms(3) show ?thesis by auto
next
  case (DeleteRoute t)
  obtain r c1 where r: "route_write E cs key hint c = (r, c1)" by fastforce
  have "calm cs c c1" using route_write_cs [OF r] by (simp add: calm_same)
  moreover have "err \<noteq> CircuitErrCircuitOpen" if "r = Inl err" for err using r that route_write_error by blast
  ultimately show ?thesis using DeleteRoute r assms(3) by (cases r) auto
next
  case (DeleteGuard t p)
  obtain g c1 where g: "guard E p c = (g, c1)" by fastforce
  have "g = None" "calm cs c c1" using guard_quiet [OF assms(1) g] by (simp_all add: calm_same)
  with DeleteGuard g assms(3) show ?thesis by (auto simp: Let_def)
next
  case (DeleteBackend t p i)
  obtain err c1 where o: "obj_Delete E p key c = (err, c1)" by fastforce
  have "calm cs c c1" using obj_Delete_cs [OF o] by (simp add: calm_same)
  moreover have "err \<noteq> Some CircuitErrCircuitOpen" using o obj_no_circuit_error(3) by blast
  ultimately show ?thesis using DeleteBackend o assms(3) by (auto split: if_splits)
qed (use assms in \<open>auto\<close>)

lemma request_step_ok:
  assumes "all_closed (breakers c)" "request_ok cs req" "request_step E cs (req, c) = (req', c')"
  shows "request_ok cs req' \<and> calm cs c c'"
  using assms
proof (cases req)
  case (Reading key opts pc)
  obtain pc' d where s: "get_step E cs key opts (pc, c) = (pc', d)" by fastforce
  with Reading assms get_step_ok [OF assms(1) _ s] show ?thesis by auto
next
  case (Writing e opts pc)
  obtain pc' d where s: "set_step E cs e opts (pc, c) = (pc', d)" by fastforce
  with Writing assms set_step_ok [OF assms(1) _ s] show ?thesis by auto
next
  case (Deleting key hint pc)
  obtain pc' d where s: "delete_step E cs key hint (pc, c) = (pc', d)" by fastforce
  with Deleting assms delete_step_ok [OF assms(1) _ s] show ?thesis by auto
qed

lemma starts_ok: "starts req \<Longrightarrow> request_ok cs req"
  by (cases req) simp_all

lemma overlap_step_ok:
  assumes "overlap_step E cs (reqs, c) (reqs', c')" "service_ok cs c" "all_closed (breakers c)" "\<forall>req \<in> set reqs. request_ok cs req"
  shows "service_ok cs c' \<and> quiet c c' \<and> (\<forall>req \<in> set reqs'. request_ok cs req)"
  using assms
proof (cases rule: overlap_step.cases)
  case (arrives r)
  with assms starts_ok show ?thesis by auto
next
  case (moves i r)
  with request_step_ok [OF assms(3) _ moves(3)] assms(4)
  have "request_ok cs r" "calm cs c c'" by simp_all
  with moves assms grows_ok show ?thesis by (auto simp: calm_def dest: subsetD [OF set_update_subset_insert])
next
  case others
  with step_ok step_quiet assms show ?thesis by blast
qed

text \<open>
  C8: however requests overlap with each other and with the goroutines of the service, its
  invariants hold: the queue and the batch keep their bounds, what waits has attempts left
  and fits the limit, no breaker opens. Every read in progress that has its answer has an
  entry of the key it asked for and of a version the client accepts, and no request is
  refused by a breaker.
\<close>

theorem overlapping_requests_keep:
  assumes "(overlap_step E cs)\<^sup>*\<^sup>* ([], c) (reqs, c')" "service_ok cs c" "all_closed (breakers c)"
  shows "service_ok cs c' \<and> quiet c c' \<and> (\<forall>req \<in> set reqs. request_ok cs req)"
  using assms(1)
proof (induction rule: rtranclp_induct2)
  case refl
  with assms(2) show ?case by simp
next
  case (step reqs1 c1 reqs2 c2)
  moreover have "all_closed (breakers c1)" using step.IH assms(3) by (simp add: quiet_def)
  ultimately show ?case using overlap_step_ok quiet_trans by blast
qed


lemma overlapping_requests_keep_witness:
  "\<exists>reqs c'. run_schedule sim_env (sample_service (Some 0)) [0, 1, 0, 1, 1, 0]
       ([Deleting ''user:profile:7'' '''' DeleteStart, Reading ''user:profile:7'' zero_get_options GetStart], two_tier_ctx) = (reqs, c') \<and>
     service_ok (sample_service (Some 0)) c' \<and> (\<forall>req \<in> set reqs. request_ok (sample_service (Some 0)) req)"
proof -
  let ?cs = "sample_service (Some 0)" and ?d = "Deleting ''user:profile:7'' '''' DeleteStart"
  let ?r = "Reading ''user:profile:7'' zero_get_options GetStart"
  have a: "overlap_step sim_env ?cs ([], two_tier_ctx) ([?d], two_tier_ctx)"
    "overlap_step sim_env ?cs ([?d], two_tier_ctx) ([?d, ?r], two_tier_ctx)"
    using overlap_step.arrives [of ?d] overlap_step.arrives [of ?r _ _ "[?d]"] by (metis append.left_neutral append_Cons starts.simps)+
  obtain reqs c' where s: "run_schedule sim_env ?cs [0, 1, 0, 1, 1, 0] ([?d, ?r], two_tier_ctx) = (reqs, c')" by fastforce
  with run_schedule_steps [of "[0, 1, 0, 1, 1, 0]" "[?d, ?r]" sim_env ?cs two_tier_ctx] a
  have "(overlap_step sim_env ?cs)\<^sup>*\<^sup>* ([], two_tier_ctx) (reqs, c')" by (simp add: converse_rtranclp_into_rtranclp)
  moreover have "service_ok ?cs two_tier_ctx" "all_closed (breakers two_tier_ctx)"
    by (simp_all add: two_tier_ctx_def service_ok_def waiting_def queue_capacity_def value_size_def)
  ultimately show ?thesis using overlapping_requests_keep s by blast
qed

section \<open>Two writes of one key\<close>

lemma aside_front:
  assumes H: "honest_cache E handed" and S: "steady E clock store" and L: "local_at cs p h (heap c)"
    and W: "value_size e \<le> cs_maxValueSize cs" "\<not> so_CheckVersion opts"
      "effective_mode cs opts \<notin> {ReadWriteModeWriteThrough, ReadWriteModeWriteBehind}"
  shows "\<exists>t c'. (set_step E cs e opts ^^ 3) (SetStart, c) = (SetRoute Aside t, c') \<and>
    moved handed h (hand e) c c' \<and> undisturbed clock store cs c c'"
proof -
  obtain t c0 where t: "time_Now E c = (t, c0)" by fastforce
  let ?c0 = "record_metric (RecordValueSize ''cache'' ''set'' (value_size e)) c0" and ?e = "written cs opts e"
  let ?c1 = "write_local E cs ?e ?c0"
  have w: "entry_Key ?e = entry_Key e" "entry_Value ?e = entry_Value e" by (simp_all add: written_def)
  have "(set_step E cs e opts ^^ 3) (SetStart, c) = (SetRoute Aside t, ?c1)"
    using t W by (auto simp: eval_nat_numeral set_conflict_def split: ReadWriteMode.split)
  moreover have k: "kept handed h c ?c0" using kept_Now [OF H t] by simp
  then have "moved handed h (hand e) c ?c1"
    using kept_then [OF k moved_write_local [OF H, of cs p h ?c0 ?e]] local_at_moved [OF k, of cs p] L w by simp
  moreover have u: "undisturbed clock store cs c ?c0"
    using undisturbed_trans [OF undisturbed_Now [OF S t] undisturbed_metric] .
  have "handle_of (heap c p) = Some (h, True)" "cs_localCache cs = Some p" using L by (simp_all add: local_at_def)
  then have "local_memory cs (heap c)" by (auto simp: local_memory_def handle_of_def split: backend.splits)
  with u have "local_memory cs (heap ?c0)" by (auto simp: undisturbed_def)
  from undisturbed_trans [OF u undisturbed_write_local [OF S this]] have "undisturbed clock store cs c ?c1" .
  ultimately show ?thesis by blast
qed

lemma four_steps: "(f ^^ 4) x = f (f (f (f x)))"
  by (simp add: eval_nat_numeral)

lemma aside_back:
  assumes H: "honest_cache E handed" and S: "redis_server E clock store" "steady E clock store"
    and L: "local_at cs p h (heap c)" and C: "all_closed (breakers c)"
    and R: "heap c q = RedisBackend r" "rb_healthy r" "0 < redis_ttl r (written cs opts e)"
    and T: "named_target E cs (heap c) (entry_Key e) (so_RoutingHint opts) = Some q"
    and B: "(set_step E cs e opts ^^ 4) (SetRoute Aside t, c) = (SetDone None, c')"
  shows "kept handed h c c' \<and> heap c' q = RedisBackend r \<and>
    value_in store (rb_client r) (world c') (entry_Key e) = Some (entry_Value e)"
proof -
  let ?e = "written cs opts e"
  have w: "entry_Key ?e = entry_Key e" "entry_Value ?e = entry_Value e" "sent cs e opts Aside = ?e"
    by (simp_all add: written_def sent_def)
  obtain c1 where r: "route_write E cs (entry_Key e) (so_RoutingHint opts) c = (Inr q, c1)"
    using route_write_named [OF T] by blast
  have k1: "kept handed h c c1" by (rule kept_write [OF H r])
  obtain g c2 where g: "guard E q c1 = (g, c2)" by fastforce
  have g': "g = None" "kept handed h c1 c2" using kept_guard [OF closed_moved [OF k1 C] g] by blast+
  have k2: "kept handed h c c2" by (rule kept_then [OF k1 g'(2)])
  have h2: "heap c2 q = RedisBackend r" using R(1) route_write_cs [OF r] guard_quiet [OF closed_moved [OF k1 C] g] by simp
  obtain err c3 where o: "obj_Set E q ?e c2 = (err, c3)" by fastforce
  have "kept handed h c2 c3" using moved_Set [OF H o, of h] h2 by (simp add: handle_of_def)
  then have k3: "kept handed h c c3" by (rule kept_then [OF k2])
  let ?c4 = "record_metric (RecordRequest (obj_ID (heap c1) q) ''set'' ''success'') c3"
  let ?f = "set_step E cs e opts" and ?i = "obj_ID (heap c1) q"
  have 1: "?f (SetRoute Aside t, c) = (SetGuard Aside t q, c1)" using r by simp
  have 2: "?f (SetGuard Aside t q, c1) = (SetWrite Aside t q ?i, c2)" using g g'(1) by (simp add: Let_def)
  have 3: "?f (SetWrite Aside t q ?i, c2) =
      (SetEnd t err, case err of Some _ \<Rightarrow> failed_with ?i ''set'' 500 ''error'' c3 | None \<Rightarrow> ?c4)"
    using o w(3) by (simp split: option.split)
  have "(?f ^^ 4) (SetRoute Aside t, c) = ?f (SetEnd t err, case err of Some _ \<Rightarrow> failed_with ?i ''set'' 500 ''error'' c3 | None \<Rightarrow> ?c4)"
    by (simp only: four_steps 1 2 3)
  with B have err: "err = None" and c': "c' = record_latency E ''set'' t ?c4" by auto
  from obj_Set_store [OF S(1) h2 R(2,3) o [unfolded err]] w(1,2)
  have "heap c3 q = RedisBackend r" "value_in store (rb_client r) (world c3) (entry_Key e) = Some (entry_Value e)"
    by (auto simp: value_in_def)
  moreover have "undisturbed clock store cs ?c4 c'" unfolding c' by (rule undisturbed_latency [OF S(2)])
  ultimately show ?thesis using k3 c' by (simp add: kept_latency [OF H] value_in_def undisturbed_def later_def)
qed

text \<open>A write in cache-aside mode that the rules send to the backend \<open>q\<close>.\<close>

definition aside_to :: "'w env \<Rightarrow> cache_service \<Rightarrow> (bref \<Rightarrow> backend) \<Rightarrow> bref \<Rightarrow> redis_backend \<Rightarrow> entry \<Rightarrow> set_options \<Rightarrow> bool" where
  "aside_to E cs hp q r e opts \<longleftrightarrow>
     value_size e \<le> cs_maxValueSize cs \<and> \<not> so_CheckVersion opts \<and>
     effective_mode cs opts \<notin> {ReadWriteModeWriteThrough, ReadWriteModeWriteBehind} \<and>
     named_target E cs hp (entry_Key e) (so_RoutingHint opts) = Some q \<and> 0 < redis_ttl r (written cs opts e)"

text \<open>The first write up to its call of the router, the second one whole, the rest of the first.\<close>

definition crossed :: "nat list" where
  "crossed = replicate 3 0 @ replicate 7 1 @ replicate 4 0"

lemma crossed_run:
  assumes "(set_step E cs e1 o1 ^^ 3) (pc1, c) = (pc1', c1)" "(set_step E cs e2 o2 ^^ 3) (pc2, c1) = (pc2', c2)"
    "(set_step E cs e2 o2 ^^ 4) (pc2', c2) = (pc2'', c3)" "(set_step E cs e1 o1 ^^ 4) (pc1', c3) = (pc1'', c4)"
  shows "run_schedule E cs crossed ([Writing e1 o1 pc1, Writing e2 o2 pc2], c) = ([Writing e1 o1 pc1'', Writing e2 o2 pc2''], c4)"
proof -
  have "(set_step E cs e2 o2 ^^ (4 + 3)) (pc2, c1) = (pc2'', c3)"
    by (simp only: funpow_add o_apply assms)
  then have seven: "(set_step E cs e2 o2 ^^ 7) (pc2, c1) = (pc2'', c3)" by simp
  show ?thesis
    using run_writing [OF _ _ assms(1), of 0 "[Writing e1 o1 pc1, Writing e2 o2 pc2]"]
      run_writing [OF _ _ seven, of 1 "[Writing e1 o1 pc1', Writing e2 o2 pc2]"]
      run_writing [OF _ _ assms(4), of 0 "[Writing e1 o1 pc1', Writing e2 o2 pc2'']"]
    by (simp add: crossed_def run_schedule_append)
qed

text \<open>
  C21: two writes of one key that overlap can leave the node with a value that no backend
  has. In cache-aside mode the local cache is written before the backend and nothing holds
  the two together: if a second write of the key runs between them, both succeed, and then
  the value last handed to the local cache is that of the second write and Redis has the value
  of the first.
\<close>

theorem overlapping_writes_diverge:
  assumes server: "honest_cache E handed" "redis_server E clock store" "steady E clock store"
    and before: "local_at cs p h (heap c)" "all_closed (breakers c)" "heap c q = RedisBackend r" "rb_healthy r"
    and writes: "aside_to E cs (heap c) q r e1 o1" "aside_to E cs (heap c) q r e2 o2" "entry_Key e2 = entry_Key e1"
    and run: "run_schedule E cs crossed ([Writing e1 o1 SetStart, Writing e2 o2 SetStart], c) =
      ([Writing e1 o1 (SetDone None), Writing e2 o2 (SetDone None)], c')"
  shows "handed (world c') h (entry_Key e1) = AnyBytes (entry_Value e2) # AnyBytes (entry_Value e1) # handed (world c) h (entry_Key e1) \<and>
    value_in store (rb_client r) (world c') (entry_Key e1) = Some (entry_Value e1)"
proof -
  note w = writes [unfolded aside_to_def]
  obtain t1 c1 where f1: "(set_step E cs e1 o1 ^^ 3) (SetStart, c) = (SetRoute Aside t1, c1)"
      "moved handed h (hand e1) c c1" "undisturbed clock store cs c c1"
    using aside_front [OF server(1,3) before(1)] w(1) by blast
  have l1: "local_at cs p h (heap c1)" using local_at_moved [OF f1(2)] before(1) by simp
  obtain t2 c2 where f2: "(set_step E cs e2 o2 ^^ 3) (SetStart, c1) = (SetRoute Aside t2, c2)"
      "moved handed h (hand e2) c1 c2" "undisturbed clock store cs c1 c2"
    using aside_front [OF server(1,3) l1] w(2) by blast
  obtain pc2 c3 where b2: "(set_step E cs e2 o2 ^^ 4) (SetRoute Aside t2, c2) = (pc2, c3)" by fastforce
  obtain pc1 c4 where b1: "(set_step E cs e1 o1 ^^ 4) (SetRoute Aside t1, c3) = (pc1, c4)" by fastforce
  from run crossed_run [OF f1(1) f2(1) b2 b1] b1 b2 have b: "(set_step E cs e2 o2 ^^ 4) (SetRoute Aside t2, c2) = (SetDone None, c3)"
    "(set_step E cs e1 o1 ^^ 4) (SetRoute Aside t1, c3) = (SetDone None, c')" by simp_all
  note m2 = moved_trans [OF f1(2) f2(2)]
  have l2: "local_at cs p h (heap c2)" using local_at_moved [OF m2] before(1) by simp
  have "handle_of (heap c p) = Some (h, True)" "cs_localCache cs = Some p" using before(1) by (simp_all add: local_at_def)
  with before(3) have "cs_localCache cs \<noteq> Some q" by (auto simp: handle_of_def)
  then have h2: "heap c2 q = RedisBackend r" using before(3) f1(3) f2(3) by (simp add: undisturbed_def)
  have "kept handed h c2 c3 \<and> heap c3 q = RedisBackend r \<and>
      value_in store (rb_client r) (world c3) (entry_Key e2) = Some (entry_Value e2)"
    using w(2) target_moved [OF m2, of E]
    by (intro aside_back [OF server l2 closed_moved [OF m2 before(2)] h2 before(4) _ _ b(1)]) simp_all
  then have h3: "heap c3 q = RedisBackend r" and m3: "moved handed h (\<lambda>m. hand e2 (hand e1 m)) c c3"
    using then_kept [OF m2] by blast+
  have l3: "local_at cs p h (heap c3)" using local_at_moved [OF m3] before(1) by simp
  have "kept handed h c3 c' \<and> heap c' q = RedisBackend r \<and>
      value_in store (rb_client r) (world c') (entry_Key e1) = Some (entry_Value e1)"
    using w(1) target_moved [OF m3, of E]
    by (intro aside_back [OF server l3 closed_moved [OF m3 before(2)] h3 before(4) _ _ b(2)]) simp_all
  with m3 writes(3) show ?thesis by (simp add: moved_def hand_def)
qed

text \<open>The simulated Redis accepts both.\<close>

lemma sim_aside_back:
  assumes "heap c 1 = RedisBackend master" "all_closed (breakers c)"
    "named_target sim_env cs (heap c) ''user:profile:7'' (so_RoutingHint opts) = Some 1"
    "counter (sim_clock (world c)) (sim_redis (world c) 0) ''user:profile:7'' = Some n" "in_int64 (n + 1)"
    "written cs opts (sample_write v) = sample_write v"
  shows "\<exists>c' d. (set_step sim_env cs (sample_write v) opts ^^ 4) (SetRoute Aside t, c) = (SetDone None, c') \<and>
    sim_redis (world c') 0 (versionKey ''user:profile:7'') = Some (bytes_of_string (strconv_Itoa (n + 1)), Some d)"
proof -
  let ?f = "set_step sim_env cs (sample_write v) opts"
  have k: "entry_Key (sample_write v) = ''user:profile:7''" "0 < redis_ttl master (sample_write v)" "rb_healthy master"
    "rb_client master = 0" "sent cs (sample_write v) opts Aside = sample_write v"
    using assms(6) by (simp_all add: sample_write_def redis_ttl_def sample_redis_def sent_def)
  have r: "route_write sim_env cs ''user:profile:7'' (so_RoutingHint opts) c = (Inr 1, c)"
    using assms(3) by (simp add: route_write_def named_target_def GetBackend_candidates)
  obtain m where g: "guard sim_env 1 c = (None, c\<lparr>breakers := m\<rparr>)" using guard_closed [of c sim_env 1] assms(2) by auto
  obtain c3 where o: "obj_Set sim_env 1 (sample_write v) (c\<lparr>breakers := m\<rparr>) = (None, c3)"
      "sim_redis (world c3) 0 (versionKey ''user:profile:7'') =
        Some (bytes_of_string (strconv_Itoa (n + 1)), Some (sim_clock (world c) + counter_life (redis_ttl master (sample_write v))))"
    using sim_redis_count [of "c\<lparr>breakers := m\<rparr>" 1 master "sample_write v" n] assms k by auto
  let ?c4 = "record_metric (RecordRequest (obj_ID (heap c) 1) ''set'' ''success'') c3"
  have 1: "?f (SetRoute Aside t, c) = (SetGuard Aside t 1, c)" using r k(1) by simp
  have 2: "?f (SetGuard Aside t 1, c) = (SetWrite Aside t 1 (obj_ID (heap c) 1), c\<lparr>breakers := m\<rparr>)" using g by (simp add: Let_def)
  have 3: "?f (SetWrite Aside t 1 (obj_ID (heap c) 1), c\<lparr>breakers := m\<rparr>) = (SetEnd t None, ?c4)" using o(1) k(5) by simp
  have "(?f ^^ 4) (SetRoute Aside t, c) = ?f (SetEnd t None, ?c4)" by (simp only: four_steps 1 2 3)
  moreover have "sim_redis (world (record_latency sim_env ''set'' t ?c4)) = sim_redis (world c3)"
    using undisturbed_latency [OF sim_steady, of "sample_service None" ?c4] by (simp add: undisturbed_def later_def)
  ultimately show ?thesis using o(2) by simp
qed

lemma overlapping_writes_diverge_witness:
  "\<exists>c'. run_schedule sim_env (sample_service (Some 0)) crossed
       ([Writing (sample_write [1, 1]) zero_set_options SetStart, Writing (sample_write [2, 2]) zero_set_options SetStart], two_tier_ctx) =
       ([Writing (sample_write [1, 1]) zero_set_options (SetDone None), Writing (sample_write [2, 2]) zero_set_options (SetDone None)], c') \<and>
     sim_cache (world c') 0 ''user:profile:7'' = [AnyBytes [2, 2], AnyBytes [1, 1], AnyBytes [1]] \<and>
     value_in sim_redis 0 (world c') ''user:profile:7'' = Some [1, 1]"
proof -
  let ?cs = "sample_service (Some 0)" and ?o = zero_set_options
  have w: "written ?cs ?o (sample_write v) = sample_write v" "entry_Key (sample_write v) = ''user:profile:7''"
    "value_size (sample_write v) = int (length v)" for v
    by (simp_all add: written_def sample_write_def value_size_def)
  have before: "local_at ?cs 0 0 (heap two_tier_ctx)" "all_closed (breakers two_tier_ctx)" "heap two_tier_ctx 1 = RedisBackend master"
    "rb_healthy master"
    using two_tier_local by (simp_all add: two_tier_ctx_def two_tier_heap_def sample_redis_def)
  have tgt: "named_target sim_env ?cs (heap two_tier_ctx) ''user:profile:7'' (so_RoutingHint ?o) = Some 1"
    using two_tier_named by (simp add: two_tier_ctx_def zero_set_options_def)
  have a: "aside_to sim_env ?cs (heap two_tier_ctx) 1 master (sample_write v) ?o" if "length v \<le> 4" for v
    using tgt that by (simp add: aside_to_def w effective_mode_def zero_set_options_def redis_ttl_def)
  have front: "\<exists>t c'. (set_step sim_env ?cs (sample_write v) ?o ^^ 3) (SetStart, c) = (SetRoute Aside t, c') \<and>
      moved sim_cache 0 (hand (sample_write v)) c c' \<and> undisturbed sim_clock sim_redis ?cs c c'"
    if "local_at ?cs 0 0 (heap c)" "length v \<le> 4" for v c
    using aside_front [OF sim_honest sim_steady that(1), of "sample_write v" ?o] that(2) a [of v]
    by (simp add: aside_to_def w sample_write_def)
  obtain t1 c1 where f1: "(set_step sim_env ?cs (sample_write [1, 1]) ?o ^^ 3) (SetStart, two_tier_ctx) = (SetRoute Aside t1, c1)"
      "moved sim_cache 0 (hand (sample_write [1, 1])) two_tier_ctx c1" "undisturbed sim_clock sim_redis ?cs two_tier_ctx c1"
    using front [OF before(1), of "[1, 1]"] by auto
  have l1: "local_at ?cs 0 0 (heap c1)" using local_at_moved [OF f1(2)] before(1) by blast
  obtain t2 c2 where f2: "(set_step sim_env ?cs (sample_write [2, 2]) ?o ^^ 3) (SetStart, c1) = (SetRoute Aside t2, c2)"
      "moved sim_cache 0 (hand (sample_write [2, 2])) c1 c2" "undisturbed sim_clock sim_redis ?cs c1 c2"
    using front [OF l1, of "[2, 2]"] by auto
  note m2 = moved_trans [OF f1(2) f2(2)] and u2 = undisturbed_trans [OF f1(3) f2(3)]
  have h2: "heap c2 1 = RedisBackend master" using u2 before(3) by (simp add: undisturbed_def)
  have "counter (sim_clock (world c2)) (sim_redis (world c2) 0) ''user:profile:7'' = Some 0"
    using u2 by (simp add: undisturbed_def later_def two_tier_ctx_def sim0_def counter_def redis_alive_def)
  moreover have "named_target sim_env ?cs (heap c2) ''user:profile:7'' (so_RoutingHint ?o) = Some 1" "in_int64 (0 + 1)"
    using target_moved [OF m2, of sim_env] tgt by (simp_all add: in_int64_def)
  ultimately obtain c3 d3 where b2: "(set_step sim_env ?cs (sample_write [2, 2]) ?o ^^ 4) (SetRoute Aside t2, c2) = (SetDone None, c3)"
      "sim_redis (world c3) 0 (versionKey ''user:profile:7'') = Some (bytes_of_string (strconv_Itoa (0 + 1)), Some d3)"
    using sim_aside_back [OF h2 closed_moved [OF m2 before(2)] _ _ _ w(1), of 0 "[2, 2]" t2] by blast
  have "kept sim_cache 0 c2 c3 \<and> heap c3 1 = RedisBackend master \<and>
      value_in sim_redis (rb_client master) (world c3) (entry_Key (sample_write [2, 2])) = Some (entry_Value (sample_write [2, 2]))"
    using a [of "[2, 2]"] target_moved [OF m2, of sim_env] local_at_moved [OF m2] before(1)
    by (intro aside_back [OF sim_honest sim_redis_server sim_steady _ closed_moved [OF m2 before(2)] h2 before(4) _ _ b2(1)])
      (simp_all add: aside_to_def w(1))
  then have h3: "heap c3 1 = RedisBackend master" and m3: "moved sim_cache 0
      (\<lambda>m. hand (sample_write [2, 2]) (hand (sample_write [1, 1]) m)) two_tier_ctx c3"
    using then_kept [OF m2] by blast+
  have n3: "named_target sim_env ?cs (heap c3) ''user:profile:7'' (so_RoutingHint ?o) = Some 1"
    using target_moved [OF m3, of sim_env] tgt by simp
  obtain n where "counter (sim_clock (world c3)) (sim_redis (world c3) 0) ''user:profile:7'' = Some n" "in_int64 (n + 1)"
    using b2(2) by (cases "sim_clock (world c3) < d3") (auto simp: counter_def redis_alive_def redis_int_Itoa in_int64_def)
  from sim_aside_back [OF h3 closed_moved [OF m3 before(2)] n3 this w(1), of "[1, 1]" t1]
  obtain c4 where b1: "(set_step sim_env ?cs (sample_write [1, 1]) ?o ^^ 4) (SetRoute Aside t1, c3) = (SetDone None, c4)"
    by blast
  note run = crossed_run [OF f1(1) f2(1) b2(1) b1]
  have "rb_client master = 0" "entry_Value (sample_write v) = v" for v by (simp_all add: sample_redis_def sample_write_def)
  with overlapping_writes_diverge [OF sim_honest sim_redis_server sim_steady before a a _ run] run show ?thesis
    by (simp add: w(2) two_tier_ctx_def)
qed

end
