(* ===== verification/Store_Refinement.thy ===== *)
theory Store_Refinement
  imports End_To_End
begin

text \<open>
  The service over a Redis backend as an abstract object: a map from keys to a value, a
  version and two deadlines. Every run of writes, reads and deletions, with anything in
  between that leaves that server alone, is explained by operations on the map at instants
  within the run.
\<close>

section \<open>Calls that leave the server alone\<close>

text \<open>The rest of the environment: HTTP and gRPC servers, and deletion in the local cache.\<close>

definition apart :: "'w env \<Rightarrow> ('w \<Rightarrow> instant) \<Rightarrow> ('w \<Rightarrow> nat \<Rightarrow> redis_store) \<Rightarrow> bool" where
  "apart E clock store \<longleftrightarrow>
     (\<forall>h k w. later clock store w (env_cache_del E h k w)) \<and>
     (\<forall>h rq d w. later clock store w (snd (env_http E h rq d w))) \<and>
     (\<forall>w. later clock store w (snd (env_ctx_done E w))) \<and>
     (\<forall>h path k w. later clock store w (snd (env_grpc_get E h path k w)))"

lemma sim_apart: "apart sim_env sim_clock sim_redis"
  by (simp add: apart_def later_def) (simp add: sim_env_def)

lemma later_trans: "later clock store w w' \<Longrightarrow> later clock store w' w'' \<Longrightarrow> later clock store w w''"
  by (simp add: later_def)

lemma redis_gets_keep: "snd (redis_exec t [RedisGet k, RedisGet k'] s) = s"
  by (simp add: redis_exec_def Let_def)

lemma redis_get_later:
  assumes "redis_server E clock store" "env_redis E h [RedisGet k, RedisGet k'] w = (x, w')"
  shows "later clock store w w'"
  using assms unfolding redis_server_def
  by (metis (no_types, lifting) later_def fun_upd_triv redis_gets_keep snd_conv)

lemma Backend_Get_bystander:
  assumes "redis_server E clock store" "steady E clock store" "apart E clock store" "Backend_Get E b k w = (r, b', w')"
  shows "b' = b \<and> later clock store w w'"
proof -
  have L: "later clock store w (snd (env_cache_get E h k w))" "later clock store w (snd (env_http E h rq d w))"
    "later clock store w (snd (env_ctx_done E w))" "later clock store w (snd (env_grpc_get E h path k w))" for h k rq d path w
    using assms(2,3) by (simp_all add: steady_def apart_def)
  show ?thesis
  proof (cases b)
    case (MemoryBackend m)
    with assms(4) L(1) [of w "mb_cache m" k] show ?thesis
      by (auto simp: Backend_Get_def on_object_def Memory_Get_def later_def split: if_splits prod.splits option.splits any_value.splits)
  next
    case (RedisBackend x)
    with assms(4) redis_get_later [OF assms(1), of "rb_client x" k "versionKey k" w] show ?thesis
      by (auto simp: Backend_Get_def on_object_def Redis_Get_def later_def split: if_splits prod.splits option.splits sum.splits)
  next
    case (HTTPBackend x)
    obtain y w1 where y: "env_http E (hb_client x) (Http_get_request x k) (hb_timeout x) w = (y, w1)" by fastforce
    with L(2) [of w "hb_client x" "Http_get_request x k" "hb_timeout x"] have "later clock store w w1" by simp
    with HTTPBackend assms(4) y later_trans [OF _ L(3) [of w1]] show ?thesis
      by (auto simp: Backend_Get_def on_object_def Http_Get_def later_def split: if_splits prod.splits option.splits sum.splits)
  next
    case (GRPCBackend x)
    with assms(4) L(4) [of w "gb_conn x" "''/kv.KVService/Get''" k] show ?thesis
      by (auto simp: Backend_Get_def on_object_def Grpc_Get_def kvClient_Get_def later_def split: if_splits prod.splits sum.splits)
  qed
qed

lemma obj_Get_bystander:
  assumes "redis_server E clock store" "steady E clock store" "apart E clock store" "obj_Get E q k c = (r, c')"
  shows "undisturbed clock store cs c c'"
proof -
  obtain b w' where g: "Backend_Get E (heap c q) k (world c) = (r, b, w')" and c': "c' = c\<lparr>world := w', heap := (heap c)(q := b)\<rparr>"
    using assms(4) by (auto simp: obj_Get_def obj_call_def split: prod.splits)
  from Backend_Get_bystander [OF assms(1-3) g] c' have "heap c' = heap c" "later clock store (world c) (world c')" by auto
  with obj_Get_cs [OF assms(4)] show ?thesis by (simp add: undisturbed_def)
qed

lemma get_backends_bystander:
  assumes "redis_server E clock store" "steady E clock store" "apart E clock store"
  shows "all_closed (breakers c) \<Longrightarrow> get_backends E cs key opts ps lastErr c = (r, n, c') \<Longrightarrow> undisturbed clock store cs c c'"
proof (induction ps arbitrary: lastErr c)
  case Nil
  then show ?case using undisturbed_metric by (auto split: option.splits)
next
  case (Cons p ps)
  obtain g c1 where g: "guard E p c = (g, c1)" by fastforce
  have g': "g = None" "undisturbed clock store cs c c1" using undisturbed_guard [OF Cons.prems(1) g] by blast+
  obtain x c2 where o: "obj_Get E p key c1 = (x, c2)" by fastforce
  have u: "undisturbed clock store cs c (record_metric f c2)" for f
    using undisturbed_trans [OF g'(2) undisturbed_trans [OF obj_Get_bystander [OF assms o] undisturbed_metric]] .
  have cl: "all_closed (breakers (record_metric f c2))" for f using u [of f] Cons.prems(1) by (simp add: undisturbed_def quiet_def)
  have rest: "undisturbed clock store cs c c'" if "get_backends E cs key opts ps l (record_metric f c2) = (r, n, c')" for l f
    using undisturbed_trans [OF u Cons.IH [OF cl that]] .
  show ?case
  proof (cases x)
    case (Inl err)
    with Cons.prems(2) g g'(1) o rest show ?thesis by (auto simp: Let_def split: if_splits)
  next
    case (Inr e)
    have "undisturbed clock store cs c (record_metric f1 (record_metric f2 c2))" for f1 f2
      using undisturbed_trans [OF u undisturbed_metric] .
    then have "undisturbed clock store cs c (spawn_local_set e (record_metric f1 (record_metric f2 c2)))"
      "undisturbed clock store cs c (record_metric f1 (record_metric f2 c2))" for f1 f2
      using undisturbed_trans [OF _ undisturbed_spawn] by blast+
    with Cons.prems(2) g g'(1) o Inr show ?thesis by (auto simp: Let_def split: if_splits)
  qed
qed

section \<open>A service over one server\<close>

text \<open>The keys of \<open>K\<close> are sent to the Redis backend \<open>p\<close>, whatever the hint.\<close>

definition serves_store :: "'w env \<Rightarrow> cache_service \<Rightarrow> bref \<Rightarrow> redis_backend \<Rightarrow> string set \<Rightarrow> ('w, 'z) cs_ctx_scheme \<Rightarrow> bool" where
  "serves_store E cs p r K c \<longleftrightarrow>
     all_closed (breakers c) \<and> local_memory cs (heap c) \<and> router_ok (heap c) (cs_router cs) \<and>
     heap c p = RedisBackend r \<and> rb_healthy r \<and> (\<forall>k \<in> K. \<forall>hint. named_target E cs (heap c) k hint = Some p)"

lemma router_ok_quiet: "quiet c c' \<Longrightarrow> router_ok (heap c') ro = router_ok (heap c) ro"
  by (simp add: router_ok_def quiet_def obj_ID_def)

lemma serves_not_local: "serves_store E cs p r K c \<Longrightarrow> cs_localCache cs \<noteq> Some p"
  by (auto simp: serves_store_def local_memory_def)

lemma serves_undisturbed:
  assumes "serves_store E cs p r K c" "undisturbed clock store cs c c'"
  shows "serves_store E cs p r K c'"
  using assms serves_not_local [OF assms(1)] router_ok_quiet [of c c' "cs_router cs"] undisturbed_target [OF assms(2), of E]
  by (auto simp: serves_store_def undisturbed_def quiet_def)

section \<open>The abstract object\<close>

record cell =
  cell_value :: bytes
  cell_until :: instant
  cell_version :: nat
  cell_counts_until :: instant

type_synonym vstore = "string \<Rightarrow> cell option"

text \<open>A cell is found while both deadlines lie ahead; its version is counted on while the second does.\<close>

definition vs_get :: "instant \<Rightarrow> string \<Rightarrow> vstore \<Rightarrow> (bytes \<times> nat) option" where
  "vs_get t k m =
     (case m k of
        Some x \<Rightarrow> if t < cell_until x \<and> t < cell_counts_until x then Some (cell_value x, cell_version x) else None
      | None \<Rightarrow> None)"

definition vs_version :: "instant \<Rightarrow> string \<Rightarrow> vstore \<Rightarrow> nat" where
  "vs_version t k m = (case m k of Some x \<Rightarrow> if t < cell_counts_until x then cell_version x else 0 | None \<Rightarrow> 0)"

definition vs_set :: "instant \<Rightarrow> string \<Rightarrow> bytes \<Rightarrow> duration \<Rightarrow> vstore \<Rightarrow> vstore" where
  "vs_set t k v l m =
     m(k \<mapsto> \<lparr>cell_value = v, cell_until = t + value_life l, cell_version = vs_version t k m + 1,
             cell_counts_until = t + counter_life l\<rparr>)"

definition vs_delete :: "string \<Rightarrow> vstore \<Rightarrow> vstore" where
  "vs_delete k m = m(k := None)"

text \<open>No key of \<open>K\<close> is the counter of another.\<close>

definition apart_keys :: "string set \<Rightarrow> bool" where
  "apart_keys K \<longleftrightarrow> (\<forall>k \<in> K. versionKey k \<notin> K)"

lemma versionKey_inj [simp]: "versionKey k = versionKey k' \<longleftrightarrow> k = k'"
  by (simp add: versionKey_def)

text \<open>The two entries of the server that a cell stands for, for the keys of \<open>K\<close>.\<close>

definition stored_at :: "string \<Rightarrow> redis_store \<Rightarrow> cell option \<Rightarrow> bool" where
  "stored_at k s c \<longleftrightarrow>
     (case c of
        None \<Rightarrow> s k = None \<and> s (versionKey k) = None
      | Some x \<Rightarrow> s k = Some (cell_value x, Some (cell_until x)) \<and>
          s (versionKey k) = Some (bytes_of_string (strconv_Itoa (int (cell_version x))), Some (cell_counts_until x)) \<and>
          cell_version x < 2 ^ 63)"

definition stored :: "string set \<Rightarrow> redis_store \<Rightarrow> vstore \<Rightarrow> bool" where
  "stored K s m \<longleftrightarrow> (\<forall>k \<in> K. stored_at k s (m k))"

lemma stored_at_cong: "s' k = s k \<Longrightarrow> s' (versionKey k) = s (versionKey k) \<Longrightarrow> stored_at k s' c = stored_at k s c"
  by (simp add: stored_at_def split: option.split)

lemma stored_update:
  assumes "stored K s m" "apart_keys K" "k \<in> K" "stored_at k s' c" "\<And>x. x \<noteq> k \<Longrightarrow> x \<noteq> versionKey k \<Longrightarrow> s' x = s x"
  shows "stored K s' (m(k := c))"
  unfolding stored_def
proof
  fix k' assume k': "k' \<in> K"
  show "stored_at k' s' ((m(k := c)) k')"
  proof (cases "k' = k")
    case False
    with assms(2,3) k' have "k' \<noteq> versionKey k" "versionKey k' \<noteq> k" by (auto simp: apart_keys_def)
    with False assms(1,5) k' show ?thesis by (simp add: stored_def stored_at_cong [of s' k' s])
  qed (use assms(4) in simp)
qed



lemma stored_counter:
  assumes "stored K s m" "k \<in> K"
  shows "counter t s k = Some (int (vs_version t k m))"
proof -
  have "in_int64 (int n)" if "n < 2 ^ 63" for n using that by (simp add: in_int64_def)
  then show ?thesis
    using assms by (auto simp: stored_def stored_at_def counter_def vs_version_def redis_alive_def redis_int_Itoa split: option.splits)
qed

lemma stored_set:
  assumes "stored K s m" "apart_keys K" "k \<in> K" "vs_version t k m + 1 < 2 ^ 63"
  shows "stored K (s(k \<mapsto> (v, Some (t + value_life l)),
      versionKey k \<mapsto> (bytes_of_string (strconv_Itoa (int (vs_version t k m) + 1)), Some (t + counter_life l))))
    (vs_set t k v l m)"
  unfolding vs_set_def using assms(4)
  by (intro stored_update [OF assms(1-3)]) (simp_all add: stored_at_def add.commute)

lemma stored_delete:
  "stored K s m \<Longrightarrow> apart_keys K \<Longrightarrow> k \<in> K \<Longrightarrow> stored K (s(k := None, versionKey k := None)) (vs_delete k m)"
  unfolding vs_delete_def by (erule stored_update) (simp_all add: stored_at_def)

text \<open>What the backend does and answers is what the object does and answers.\<close>

lemma Redis_Set_stored:
  assumes "redis_server E clock store" "rb_healthy r" "stored K (store w (rb_client r)) m" "apart_keys K" "entry_Key e \<in> K"
    "0 < redis_ttl r e" "vs_version (clock w) (entry_Key e) m + 1 < 2 ^ 63"
  shows "\<exists>w'. Redis_Set E r e w = (None, r, w') \<and> clock w \<le> clock w' \<and>
    stored K (store w' (rb_client r)) (vs_set (clock w) (entry_Key e) (entry_Value e) (redis_ttl r e) m)"
proof -
  let ?cmds = "[RedisSet (entry_Key e) (entry_Value e) (redis_ttl r e), RedisIncr (versionKey (entry_Key e)),
    RedisExpire (versionKey (entry_Key e)) (redis_ttl r e)]"
  obtain x s' where x: "redis_exec (clock w) ?cmds (store w (rb_client r)) = (x, s')" by fastforce
  obtain w' where w': "env_redis E (rb_client r) ?cmds w = (x, w')" "store w' = (store w)(rb_client r := s')" "clock w \<le> clock w'"
    using redis_serverD [OF assms(1), of "rb_client r" ?cmds w] x by auto
  have n: "counter (clock w) (store w (rb_client r)) (entry_Key e) = Some (int (vs_version (clock w) (entry_Key e) m))"
    "in_int64 (int (vs_version (clock w) (entry_Key e) m) + 1)"
    using stored_counter [OF assms(3,5)] assms(7) by (simp_all add: in_int64_def)
  with set_commands [OF assms(6) x] have "fst x = None" by blast
  then have "Redis_Set E r e w = (None, r, w')"
    using assms(2) w'(1) unfolding Redis_Set_def redis_ttl_def [symmetric] by (cases x) (simp add: Let_def)
  moreover have "stored K (store w' (rb_client r)) (vs_set (clock w) (entry_Key e) (entry_Value e) (redis_ttl r e) m)"
    using stored_set [OF assms(3-5,7)] set_commands [OF assms(6) x] n w'(2) by simp
  ultimately show ?thesis using w'(3) by blast
qed

lemma Redis_Get_stored:
  assumes "redis_server E clock store" "rb_healthy r" "stored K (store w (rb_client r)) m" "k \<in> K"
  shows "fst (Redis_Get E r k w) =
    (case vs_get (clock w) k m of
       Some (v, n) \<Rightarrow> Inr \<lparr>entry_Key = k, entry_Value = v, entry_Version = of_nat n, entry_TTL = 0\<rparr>
     | None \<Rightarrow> Inl ErrKeyNotFound)"
proof -
  have "fst (ParseUint (strconv_Itoa (int n))) = of_nat n" if "n < 2 ^ 63" for n
    using that ParseUint_Itoa [of "int n"] by (simp add: in_int64_def)
  then show ?thesis
    using assms(3,4) Redis_Get_answer [OF assms(1,2), of k w]
    by (auto simp: stored_def stored_at_def vs_get_def redis_alive_def split: option.splits)
qed

lemma Redis_Delete_stored:
  assumes "redis_server E clock store" "rb_healthy r" "Redis_Delete E r k w = (err, r', w')"
  shows "err = None \<and> r' = r \<and> clock w \<le> clock w' \<and>
    store w' = (store w)(rb_client r := (store w (rb_client r))(k := None, versionKey k := None))"
proof -
  let ?cmds = "[RedisDel k, RedisDel (versionKey k)]" and ?s = "store w (rb_client r)"
  have "fst (fst (redis_exec (clock w) ?cmds ?s)) = None"
    "snd (redis_exec (clock w) ?cmds ?s) = ?s(k := None, versionKey k := None)"
    by (simp_all add: redis_exec_def reply_error_def List.map_filter_def Let_def)
  moreover obtain w1 where "env_redis E (rb_client r) ?cmds w = (fst (redis_exec (clock w) ?cmds ?s), w1)"
    "store w1 = (store w)(rb_client r := snd (redis_exec (clock w) ?cmds ?s))" "clock w \<le> clock w1"
    using redis_serverD [OF assms(1)] by blast
  ultimately show ?thesis using assms(2,3) by (auto simp: Redis_Delete_def split: prod.splits)
qed

section \<open>One operation\<close>

text \<open>A service whose server holds the map.\<close>

definition holds_map ::
  "'w env \<Rightarrow> ('w \<Rightarrow> nat \<Rightarrow> redis_store) \<Rightarrow> cache_service \<Rightarrow> bref \<Rightarrow> redis_backend \<Rightarrow> string set \<Rightarrow>
   ('w, 'z) cs_ctx_scheme \<Rightarrow> vstore \<Rightarrow> bool" where
  "holds_map E store cs p r K c m \<longleftrightarrow> serves_store E cs p r K c \<and> stored K (store (world c) (rb_client r)) m"

lemma holds_undisturbed:
  "holds_map E store cs p r K c m \<Longrightarrow> undisturbed clock store cs c c' \<Longrightarrow> holds_map E store cs p r K c' m"
  using serves_undisturbed [of E cs p r K c clock store c'] by (simp add: holds_map_def undisturbed_def later_def)

lemma undisturbed_clock: "undisturbed clock store cs c c' \<Longrightarrow> clock (world c) \<le> clock (world c')"
  by (simp add: undisturbed_def later_def)

text \<open>Only one backend is live: then a key the server does not have is reported as missing.\<close>

definition alone :: "cache_service \<Rightarrow> bref \<Rightarrow> (bref \<Rightarrow> backend) \<Rightarrow> bool" where
  "alone cs p h \<longleftrightarrow> (\<forall>q. live_backend h (cs_router cs) q \<longrightarrow> q = p)"

lemma alone_quiet: "quiet c c' \<Longrightarrow> alone cs p (heap c') = alone cs p (heap c)"
  by (simp add: alone_def live_backend_def quiet_def obj_Healthy_def)

lemma alone_read:
  assumes "router_ok (heap c) (cs_router cs)" "alone cs p (heap c)" "route_read E cs key hint c = (p # qs, c')"
  shows "qs = []"
proof (rule ccontr)
  assume "qs \<noteq> []"
  then obtain q where q: "q \<in> set qs" by (cases qs) auto
  let ?live = "live (heap c) (cs_router cs)"
  obtain is' where l: "p # qs = List.map_filter ?live is'" "distinct is'"
    using assms(1,3) by (auto simp: route_read_def GetBackendsForRead_list split: prod.splits) (metis distinct_firsts)
  have "\<exists>i. ?live i = Some x" if "x \<in> set (List.map_filter ?live is')" for x
    using that by (auto simp: List.map_filter_def)
  with q l(1) have "\<exists>i. ?live i = Some q" by (metis list.set_intros(2))
  with assms(1,2) have "q = p" by (auto simp: alone_def live_backend_iff)
  with q l distinct_live_IDs [OF assms(1) l(2)] show False by (simp flip: l(1))
qed

lemma fetch_effect:
  assumes S: "redis_server E clock store" "steady E clock store" "apart E clock store"
    and P: "holds_map E store cs p r K c m" "key \<in> K"
    and O: "go_SkipCache opts" "go_Version opts = 0"
    and R: "CacheService_Get E cs key (Some opts) c = (res, c')"
  shows "\<exists>t. clock (world c) \<le> t \<and> t \<le> clock (world c') \<and> holds_map E store cs p r K c' m \<and>
    (case vs_get t key m of
       Some (v, n) \<Rightarrow> res = Inr \<lparr>entry_Key = key, entry_Value = v, entry_Version = of_nat n, entry_TTL = 0\<rparr>
     | None \<Rightarrow> alone cs p (heap c) \<longrightarrow> res = Inl ErrKeyNotFound)"
proof -
  obtain t0 c0 where t0: "time_Now E c = (t0, c0)" by fastforce
  have l: "get_local E cs key opts c0 = (None, 0, c0)" using O(1) by (simp add: get_local_def split: option.split)
  let ?c0 = "record_metric (RecordMiss ''local'') c0"
  have u0: "undisturbed clock store cs c ?c0" using undisturbed_trans [OF undisturbed_Now [OF S(2) t0] undisturbed_metric] .
  obtain ps c1 where ps: "route_read E cs key (go_RoutingHint opts) ?c0 = (ps, c1)" by fastforce
  have u1: "undisturbed clock store cs c c1" using undisturbed_trans [OF u0 undisturbed_read [OF S(2) ps]] .
  note p1 = holds_undisturbed [OF P(1) u1]
  have named: "named_target E cs (heap ?c0) key (go_RoutingHint opts) = Some p" "router_ok (heap ?c0) (cs_router cs)"
    using holds_undisturbed [OF P(1) u0] P(2) by (simp_all add: holds_map_def serves_store_def)
  then obtain qs where qs: "ps = p # qs"
    using ps first_live_hd [of "heap ?c0" "cs_router cs" "candidates (env_xxhash E) (cs_router cs) key (go_RoutingHint opts)" p]
    by (auto simp: route_read_def named_target_def GetBackendsForRead_list split: prod.splits)
  obtain r' n c2 where g: "get_backends E cs key opts ps None c1 = (r', n, c2)" by (metis prod_cases3)
  have closed: "all_closed (breakers c1)" using p1 by (simp add: holds_map_def serves_store_def)
  note u2 = get_backends_bystander [OF S closed g]
  from R t0 l ps qs g have res: "res = r'" and c': "c' = record_latency E ''get'' t0 (record_metric (RecordValueSize ''cache'' ''get'' n) c2)"
    by (simp_all add: CacheService_Get_def get_body_def get_or_zero_def)
  have u3: "undisturbed clock store cs c1 c'"
    unfolding c' using undisturbed_trans [OF undisturbed_trans [OF u2 undisturbed_metric] undisturbed_latency [OF S(2)]] .
  let ?t = "clock (world c1)"
  have "clock (world c) \<le> ?t" "?t \<le> clock (world c')" "holds_map E store cs p r K c' m"
    using undisturbed_clock [OF u1] undisturbed_clock [OF u3] holds_undisturbed [OF p1 u3] by blast+
  moreover obtain x b w' where x: "Backend_Get E (heap c1 p) key (world c1) = (x, b, w')" by (metis prod_cases3)
  have "heap c1 p = RedisBackend r" "rb_healthy r" "stored K (store (world c1) (rb_client r)) m"
    using p1 by (simp_all add: holds_map_def serves_store_def)
  with x Redis_Get_stored [OF S(1) _ _ P(2), of r "world c1" m]
  have x': "x = (case vs_get ?t key m of
       Some (v, n) \<Rightarrow> Inr \<lparr>entry_Key = key, entry_Value = v, entry_Version = of_nat n, entry_TTL = 0\<rparr>
     | None \<Rightarrow> Inl ErrKeyNotFound)"
    by (auto simp: Backend_Get_def on_object_def split: prod.splits)
  have "r' = resolve cs opts None (x # answers E key qs ((heap c1)(p := b)) w')"
    using get_backends_resolve [OF closed, of E cs key opts ps None] g qs x by simp
  moreover have "\<not> stale_version cs opts e" for e using O(2) by (simp add: stale_version_def)
  moreover have "qs = []" if "alone cs p (heap c)"
    using alone_read [OF named(2) _ ps [unfolded qs]] that alone_quiet [of c ?c0] u0 by (simp add: undisturbed_def)
  ultimately show ?thesis using res x' by (intro exI [of _ ?t]) (auto split: option.splits)
qed

lemma obj_Set_stored:
  assumes "redis_server E clock store" "holds_map E store cs p r K c m" "apart_keys K" "entry_Key e \<in> K" "0 < redis_ttl r e"
    "vs_version (clock (world c)) (entry_Key e) m + 1 < 2 ^ 63"
  shows "\<exists>c'. obj_Set E p e c = (None, c') \<and> clock (world c) \<le> clock (world c') \<and>
    holds_map E store cs p r K c' (vs_set (clock (world c)) (entry_Key e) (entry_Value e) (redis_ttl r e) m)"
proof -
  have at: "heap c p = RedisBackend r" "rb_healthy r" "stored K (store (world c) (rb_client r)) m"
    using assms(2) by (simp_all add: holds_map_def serves_store_def)
  obtain w' where w': "Redis_Set E r e (world c) = (None, r, w')" "clock (world c) \<le> clock w'"
      "stored K (store w' (rb_client r)) (vs_set (clock (world c)) (entry_Key e) (entry_Value e) (redis_ttl r e) m)"
    using Redis_Set_stored [OF assms(1) at(2,3) assms(3-6)] by blast
  have "obj_Set E p e c = (None, c\<lparr>world := w'\<rparr>)"
    using w'(1) at(1) by (simp add: obj_Set_def obj_call_def Backend_Set_def on_object_def fun_upd_idem)
  with w'(2,3) assms(2) show ?thesis by (simp add: holds_map_def serves_store_def)
qed

lemma obj_Delete_stored:
  assumes "redis_server E clock store" "holds_map E store cs p r K c m" "apart_keys K" "key \<in> K"
  shows "\<exists>c'. obj_Delete E p key c = (None, c') \<and> clock (world c) \<le> clock (world c') \<and>
    holds_map E store cs p r K c' (vs_delete key m)"
proof -
  have at: "heap c p = RedisBackend r" "rb_healthy r" "stored K (store (world c) (rb_client r)) m"
    using assms(2) by (simp_all add: holds_map_def serves_store_def)
  obtain e r' w' where d: "Redis_Delete E r key (world c) = (e, r', w')" by (metis prod_cases3)
  note d' = Redis_Delete_stored [OF assms(1) at(2) d]
  have "obj_Delete E p key c = (None, c\<lparr>world := w'\<rparr>)"
    using d d' at(1) by (simp add: obj_Delete_def obj_call_def Backend_Delete_def on_object_def fun_upd_idem)
  moreover have "stored K (store w' (rb_client r)) (vs_delete key m)" using d' stored_delete [OF at(3) assms(3,4)] by simp
  ultimately show ?thesis using d' assms(2) by (simp add: holds_map_def serves_store_def)
qed

lemma write_backend_asks:
  assumes "steady E clock store" "all_closed (breakers c)" "named_target E cs (heap c) (entry_Key e) (so_RoutingHint opts) = Some p"
  shows "\<exists>c1. undisturbed clock store cs c c1 \<and>
    (\<forall>c2. obj_Set E p e c1 = (None, c2) \<longrightarrow> (\<exists>i. write_backend E cs e opts c = (Inr i, c2)))"
proof -
  obtain c1 where r: "route_write E cs (entry_Key e) (so_RoutingHint opts) c = (Inr p, c1)"
    using route_write_named [OF assms(3)] by blast
  have u1: "undisturbed clock store cs c c1" by (rule undisturbed_write [OF assms(1) r])
  have "all_closed (breakers c1)" using route_write_cs [OF r] assms(2) by simp
  moreover obtain g c2 where g: "guard E p c1 = (g, c2)" by fastforce
  ultimately have g': "g = None" "undisturbed clock store cs c1 c2" using undisturbed_guard by blast+
  have "\<exists>i. write_backend E cs e opts c = (Inr i, c3)" if "obj_Set E p e c2 = (None, c3)" for c3
    using that r g g'(1) by (simp add: write_backend_def Let_def)
  with undisturbed_trans [OF u1 g'(2)] show ?thesis by blast
qed

lemma set_asks:
  assumes S: "steady E clock store" and L: "local_memory cs (heap c)" and C: "all_closed (breakers c)"
    and T: "named_target E cs (heap c) (entry_Key e) (so_RoutingHint opts) = Some p"
    and M: "effective_mode cs opts \<noteq> ReadWriteModeWriteBehind" "value_size e \<le> cs_maxValueSize cs" "\<not> so_CheckVersion opts"
  shows "\<exists>c1. undisturbed clock store cs c c1 \<and> (\<forall>c2. obj_Set E p (written cs opts e) c1 = (None, c2) \<longrightarrow>
    (\<exists>c'. CacheService_Set E cs e (Some opts) c = (None, c') \<and> undisturbed clock store cs c2 c'))"
proof -
  let ?e = "written cs opts e"
  obtain t c0 where t: "time_Now E c = (t, c0)" by fastforce
  let ?c0 = "record_metric (RecordValueSize ''cache'' ''set'' (value_size e)) c0"
  have u0: "undisturbed clock store cs c ?c0" using undisturbed_trans [OF undisturbed_Now [OF S t] undisturbed_metric] .
  let ?through = "effective_mode cs opts = ReadWriteModeWriteThrough"
  let ?c1 = "if ?through then ?c0 else write_local E cs ?e ?c0"
  have "local_memory cs (heap ?c0)" using u0 L by (simp add: undisturbed_def)
  then have u1: "undisturbed clock store cs c ?c1"
    using u0 undisturbed_trans [OF u0 undisturbed_write_local [OF S]] by simp
  then have "all_closed (breakers ?c1)" using C by (auto simp: undisturbed_def quiet_def)
  moreover have "named_target E cs (heap ?c1) (entry_Key ?e) (so_RoutingHint opts) = Some p"
    using T undisturbed_target [OF u1, of E] by (simp add: written_def)
  ultimately obtain c2 where u2: "undisturbed clock store cs ?c1 c2"
    and w: "\<And>c3. obj_Set E p ?e c2 = (None, c3) \<Longrightarrow> \<exists>i. write_backend E cs ?e opts ?c1 = (Inr i, c3)"
    using write_backend_asks [OF S] by blast
  have "\<exists>c'. CacheService_Set E cs e (Some opts) c = (None, c') \<and> undisturbed clock store cs c3 c'"
    if o: "obj_Set E p ?e c2 = (None, c3)" for c3
  proof -
    from w [OF o] obtain i where i: "write_backend E cs ?e opts ?c1 = (Inr i, c3)" by blast
    let ?c4 = "record_metric (RecordRequest i ''set'' ''success'')
      (if ?through \<and> cs_localCache cs \<noteq> None then spawn_local_set ?e c3 else c3)"
    have "set_body E cs e opts ?c0 = (None, ?c4)"
      using i M by (auto simp: set_body_def set_conflict_def setWriteThrough_def setCacheAside_def Let_def
          written_def effective_mode_def split: ReadWriteMode.splits if_splits)
    then have "CacheService_Set E cs e (Some opts) c = (None, record_latency E ''set'' t ?c4)"
      using t by (simp add: CacheService_Set_def set_or_zero_def Let_def)
    moreover have "undisturbed clock store cs c3 ?c4"
      using undisturbed_trans [OF undisturbed_spawn undisturbed_metric] undisturbed_metric by auto
    ultimately show ?thesis using undisturbed_trans [OF _ undisturbed_latency [OF S]] by blast
  qed
  with undisturbed_trans [OF u1 u2] show ?thesis by blast
qed

lemma put_effect:
  assumes S: "redis_server E clock store" "steady E clock store"
    and P: "holds_map E store cs p r K c m" "apart_keys K" "entry_Key e \<in> K"
    and M: "effective_mode cs opts \<noteq> ReadWriteModeWriteBehind" "value_size e \<le> cs_maxValueSize cs" "\<not> so_CheckVersion opts"
    and L: "0 < redis_ttl r (written cs opts e)" "\<And>t. vs_version t (entry_Key e) m + 1 < 2 ^ 63"
    and R: "CacheService_Set E cs e (Some opts) c = (err, c')"
  shows "\<exists>t. clock (world c) \<le> t \<and> t \<le> clock (world c') \<and> err = None \<and>
    holds_map E store cs p r K c' (vs_set t (entry_Key e) (entry_Value e) (redis_ttl r (written cs opts e)) m)"
proof -
  let ?e = "written cs opts e"
  have w: "entry_Key ?e = entry_Key e" "entry_Value ?e = entry_Value e" by (simp_all add: written_def)
  have ready: "serves_store E cs p r K c" using P(1) by (simp add: holds_map_def)
  then obtain c1 where u1: "undisturbed clock store cs c c1"
    and go: "\<And>c2. obj_Set E p ?e c1 = (None, c2) \<Longrightarrow>
      \<exists>c'. CacheService_Set E cs e (Some opts) c = (None, c') \<and> undisturbed clock store cs c2 c'"
    using set_asks [OF S(2) _ _ _ M, of c p] P(3) by (auto simp: serves_store_def)
  note p1 = holds_undisturbed [OF P(1) u1]
  let ?t = "clock (world c1)"
  obtain c2 where o: "obj_Set E p ?e c1 = (None, c2)" "?t \<le> clock (world c2)"
      "holds_map E store cs p r K c2 (vs_set ?t (entry_Key e) (entry_Value e) (redis_ttl r ?e) m)"
    using obj_Set_stored [OF S(1) p1 P(2), of ?e] P(3) L w by auto
  from go [OF o(1)] R have u2: "undisturbed clock store cs c2 c'" and err: "err = None" by auto
  from holds_undisturbed [OF o(3) u2] show ?thesis
    using err undisturbed_clock [OF u1] undisturbed_clock [OF u2] o(2) by (intro exI [of _ ?t]) simp
qed

lemma undisturbed_delete_local:
  assumes "apart E clock store" "local_memory cs (heap c)"
  shows "undisturbed clock store cs c (delete_local E cs key c)"
proof (cases "cs_localCache cs")
  case None
  then show ?thesis by (simp add: delete_local_def undisturbed_refl)
next
  case (Some q)
  obtain e c' where o: "obj_Delete E q key c = (e, c')" by fastforce
  have "undisturbed clock store cs c c'"
  proof (rule undisturbed_local_call [OF o [unfolded obj_Delete_def] Some _ _ assms(2)])
    show "quiet c c'" using obj_Delete_cs [OF o] by blast
    fix m assume m: "heap c q = MemoryBackend m"
    have l: "later clock store (world c) (env_cache_del E (mb_cache m) key (world c))" using assms(1) by (simp add: apart_def)
    show "\<exists>m' w. snd (Backend_Delete E (heap c q) key (world c)) = (MemoryBackend m', w) \<and> later clock store (world c) w"
      using l by (auto simp: m Backend_Delete_def on_object_def Memory_Delete_def later_def Let_def split: prod.splits)
  qed
  with Some o show ?thesis by (simp add: delete_local_def)
qed

lemma remove_effect:
  assumes S: "redis_server E clock store" "steady E clock store" "apart E clock store"
    and P: "holds_map E store cs p r K c m" "apart_keys K" "key \<in> K"
    and R: "CacheService_Delete E cs key (Some \<lparr>do_RoutingHint = hint\<rparr>) c = (err, c')"
  shows "\<exists>t. clock (world c) \<le> t \<and> t \<le> clock (world c') \<and> err = None \<and> holds_map E store cs p r K c' (vs_delete key m)"
proof -
  obtain t0 c0 where t0: "time_Now E c = (t0, c0)" by fastforce
  let ?c0 = "delete_local E cs key c0"
  have u: "undisturbed clock store cs c c0" by (rule undisturbed_Now [OF S(2) t0])
  have "local_memory cs (heap c0)" using holds_undisturbed [OF P(1) u] by (simp add: holds_map_def serves_store_def)
  then have u0: "undisturbed clock store cs c ?c0" by (rule undisturbed_trans [OF u undisturbed_delete_local [OF S(3)]])
  have "named_target E cs (heap ?c0) key hint = Some p"
    using holds_undisturbed [OF P(1) u0] P(3) by (simp add: holds_map_def serves_store_def)
  then obtain c1 where r: "route_write E cs key hint ?c0 = (Inr p, c1)" using route_write_named by blast
  have u1: "undisturbed clock store cs c c1" by (rule undisturbed_trans [OF u0 undisturbed_write [OF S(2) r]])
  obtain g c2 where g: "guard E p c1 = (g, c2)" by fastforce
  have "all_closed (breakers c1)" using holds_undisturbed [OF P(1) u1] by (simp add: holds_map_def serves_store_def)
  from undisturbed_guard [OF this g] have g': "g = None" "undisturbed clock store cs c1 c2" by blast+
  have u2: "undisturbed clock store cs c c2" by (rule undisturbed_trans [OF u1 g'(2)])
  obtain c3 where o: "obj_Delete E p key c2 = (None, c3)" "clock (world c2) \<le> clock (world c3)"
      "holds_map E store cs p r K c3 (vs_delete key m)"
    using obj_Delete_stored [OF S(1) holds_undisturbed [OF P(1) u2] P(2,3)] by blast
  from R t0 r g g'(1) o(1) have err: "err = None" and c': "c' = record_latency E ''delete'' t0 c3"
    by (simp_all add: CacheService_Delete_def delete_body_def Let_def)
  have u3: "undisturbed clock store cs c3 c'" unfolding c' by (rule undisturbed_latency [OF S(2)])
  from holds_undisturbed [OF o(3) u3] show ?thesis
    using err undisturbed_clock [OF u2] undisturbed_clock [OF u3] o(2) by (intro exI [of _ "clock (world c2)"]) simp
qed

section \<open>A run\<close>

text \<open>The requests with what they returned.\<close>

datatype event =
    Put entry set_options "go_error option"
  | Fetch string get_options "go_error + entry"
  | Remove string string "go_error option"

text \<open>
  A run of the service: its operations, one after the other, and between them anything that
  leaves the server alone, such as copies into the local cache and requests for other
  backends.
\<close>

inductive store_run ::
  "'w env \<Rightarrow> ('w \<Rightarrow> instant) \<Rightarrow> ('w \<Rightarrow> nat \<Rightarrow> redis_store) \<Rightarrow> cache_service \<Rightarrow> ('w, 'z) cs_ctx_scheme \<Rightarrow> event list \<Rightarrow>
   ('w, 'z) cs_ctx_scheme \<Rightarrow> bool"
  for E :: "'w env" and clock :: "'w \<Rightarrow> instant" and store :: "'w \<Rightarrow> nat \<Rightarrow> redis_store" and cs :: cache_service
    and c :: "('w, 'z) cs_ctx_scheme"
where
  nothing: "store_run E clock store cs c [] c"
| put: "store_run E clock store cs c hist c1 \<Longrightarrow> CacheService_Set E cs e (Some opts) c1 = (err, c2) \<Longrightarrow>
    store_run E clock store cs c (hist @ [Put e opts err]) c2"
| fetch: "store_run E clock store cs c hist c1 \<Longrightarrow> CacheService_Get E cs key (Some gopts) c1 = (res, c2) \<Longrightarrow>
    store_run E clock store cs c (hist @ [Fetch key gopts res]) c2"
| remove: "store_run E clock store cs c hist c1 \<Longrightarrow>
    CacheService_Delete E cs key (Some \<lparr>do_RoutingHint = hint\<rparr>) c1 = (err, c2) \<Longrightarrow>
    store_run E clock store cs c (hist @ [Remove key hint err]) c2"
| others: "store_run E clock store cs c hist c1 \<Longrightarrow> undisturbed clock store cs c1 c2 \<Longrightarrow> store_run E clock store cs c hist c2"

text \<open>The requests the object speaks of: reads that ask the backends, writes that reach one.\<close>

fun event_ok :: "cache_service \<Rightarrow> redis_backend \<Rightarrow> string set \<Rightarrow> event \<Rightarrow> bool" where
  "event_ok cs r K (Put e opts err) \<longleftrightarrow>
     entry_Key e \<in> K \<and> effective_mode cs opts \<noteq> ReadWriteModeWriteBehind \<and> value_size e \<le> cs_maxValueSize cs \<and>
     \<not> so_CheckVersion opts \<and> 0 < redis_ttl r (written cs opts e)"
| "event_ok cs r K (Fetch key opts res) \<longleftrightarrow> key \<in> K \<and> go_SkipCache opts \<and> go_Version opts = 0"
| "event_ok cs r K (Remove key hint err) \<longleftrightarrow> key \<in> K"

text \<open>What an event does to the object, and whether its result is the object's.\<close>

fun apply_event :: "cache_service \<Rightarrow> redis_backend \<Rightarrow> instant \<times> event \<Rightarrow> vstore \<Rightarrow> vstore" where
  "apply_event cs r (t, Put e opts err) m = vs_set t (entry_Key e) (entry_Value e) (redis_ttl r (written cs opts e)) m"
| "apply_event cs r (t, Fetch key opts res) m = m"
| "apply_event cs r (t, Remove key hint err) m = vs_delete key m"

fun fits :: "bool \<Rightarrow> instant \<times> event \<Rightarrow> vstore \<Rightarrow> bool" where
  "fits only (t, Put e opts err) m \<longleftrightarrow> err = None"
| "fits only (t, Fetch key opts res) m \<longleftrightarrow>
     (case vs_get t key m of
        Some (v, n) \<Rightarrow> res = Inr \<lparr>entry_Key = key, entry_Value = v, entry_Version = of_nat n, entry_TTL = 0\<rparr>
      | None \<Rightarrow> only \<longrightarrow> res = Inl ErrKeyNotFound)"
| "fits only (t, Remove key hint err) m \<longleftrightarrow> err = None"

fun replay :: "cache_service \<Rightarrow> redis_backend \<Rightarrow> (instant \<times> event) list \<Rightarrow> vstore \<Rightarrow> vstore" where
  "replay cs r [] m = m"
| "replay cs r (x # xs) m = replay cs r xs (apply_event cs r x m)"

fun explained :: "cache_service \<Rightarrow> redis_backend \<Rightarrow> bool \<Rightarrow> (instant \<times> event) list \<Rightarrow> vstore \<Rightarrow> bool" where
  "explained cs r only [] m \<longleftrightarrow> True"
| "explained cs r only (x # xs) m \<longleftrightarrow> fits only x m \<and> explained cs r only xs (apply_event cs r x m)"

lemma replay_snoc: "replay cs r (xs @ [x]) m = apply_event cs r x (replay cs r xs m)"
  by (induction xs arbitrary: m) simp_all

lemma explained_snoc: "explained cs r only (xs @ [x]) m \<longleftrightarrow> explained cs r only xs m \<and> fits only x (replay cs r xs m)"
  by (induction xs arbitrary: m) simp_all

definition versions_upto :: "nat \<Rightarrow> vstore \<Rightarrow> bool" where
  "versions_upto b m \<longleftrightarrow> (\<forall>k x. m k = Some x \<longrightarrow> cell_version x \<le> b)"

lemma versions_apply: "versions_upto b m \<Longrightarrow> versions_upto (Suc b) (apply_event cs r x m)"
proof (cases x)
  case (Pair t ev)
  assume "versions_upto b m"
  with Pair show ?thesis
    by (cases ev) (auto simp: versions_upto_def vs_set_def vs_delete_def vs_version_def le_SucI split: option.splits)
qed

lemma versions_replay: "versions_upto b m \<Longrightarrow> versions_upto (b + length xs) (replay cs r xs m)"
  using versions_apply by (induction xs arbitrary: b m) fastforce+

lemma vs_version_upto: "versions_upto b m \<Longrightarrow> vs_version t k m \<le> b"
  by (auto simp: versions_upto_def vs_version_def split: option.split)

text \<open>One more operation, at an instant after those of the others.\<close>

lemma explained_step:
  assumes "length ts = length hist" "sorted (t0 # ts @ [t1])" "explained cs r only (zip ts hist) m"
    "t1 \<le> t" "t \<le> t2" "fits only (t, ev) (replay cs r (zip ts hist) m)"
    "P (apply_event cs r (t, ev) (replay cs r (zip ts hist) m))"
  shows "\<exists>ts. length ts = length (hist @ [ev]) \<and> sorted (t0 # ts @ [t2]) \<and> explained cs r only (zip ts (hist @ [ev])) m \<and>
    P (replay cs r (zip ts (hist @ [ev])) m)"
proof -
  have "sorted (t0 # (ts @ [t]) @ [t2])" using assms(2,4,5) by (auto simp: sorted_append)
  with assms show ?thesis by (intro exI [of _ "ts @ [t]"]) (simp add: replay_snoc explained_snoc)
qed

text \<open>
  C3: the service over a Redis backend is a versioned map with deadlines. Take any run of
  writes, reads that skip the local cache and deletions, of keys that the rules send to one
  healthy Redis backend, with anything in between that leaves that server alone. There are
  instants, one for each request, in order and within the run, such that the map, changed at
  each instant by its request, explains every result: all writes and deletions succeed, a
  read returns the last value written, with the version counted by the writes, exactly until
  the first of its two deadlines. If no other backend is live, it returns not found from then
  on. At the end the server holds what the map holds.
\<close>

theorem service_refines_store:
  assumes server: "redis_server E clock store" "steady E clock store" "apart E clock store"
    and start: "holds_map E store cs p r K c m" "apart_keys K" "versions_upto b m"
    and run: "store_run E clock store cs c hist c'"
    and requests: "\<forall>ev \<in> set hist. event_ok cs r K ev" "b + length hist < 2 ^ 63 - 1"
  shows "\<exists>ts. length ts = length hist \<and> sorted (clock (world c) # ts @ [clock (world c')]) \<and>
    explained cs r (alone cs p (heap c)) (zip ts hist) m \<and> holds_map E store cs p r K c' (replay cs r (zip ts hist) m)"
proof -
  let ?only = "alone cs p (heap c)"
  have "\<exists>ts. length ts = length hist \<and> sorted (clock (world c) # ts @ [clock (world c')]) \<and>
      explained cs r ?only (zip ts hist) m \<and> (holds_map E store cs p r K c' (replay cs r (zip ts hist) m) \<and> quiet c c')"
    using run requests
  proof (induction rule: store_run.induct)
    case nothing
    with start(1) show ?case by (intro exI [of _ "[]"]) simp
  next
    case (put hist c1 e opts err c2)
    then obtain ts where ts: "length ts = length hist" "sorted (clock (world c) # ts @ [clock (world c1)])"
      "explained cs r ?only (zip ts hist) m" "holds_map E store cs p r K c1 (replay cs r (zip ts hist) m)" "quiet c c1" by auto
    have "vs_version t (entry_Key e) (replay cs r (zip ts hist) m) + 1 < 2 ^ 63" for t
      using vs_version_upto [OF versions_replay [OF start(3)], of t "entry_Key e" cs r "zip ts hist"] put.prems(2) ts(1) by simp
    with put_effect [OF server(1,2) ts(4) start(2) _ _ _ _ _ _ put.hyps(2)] put.prems(1) obtain t where
      "clock (world c1) \<le> t" "t \<le> clock (world c2)" "err = None"
      "holds_map E store cs p r K c2 (vs_set t (entry_Key e) (entry_Value e) (redis_ttl r (written cs opts e)) (replay cs r (zip ts hist) m))"
      by auto
    moreover have "quiet c c2"
      using set_calm [OF _ put.hyps(2)] ts(4,5) quiet_trans by (auto simp: holds_map_def serves_store_def)
    ultimately show ?case by (intro explained_step [OF ts(1-3)]) simp_all
  next
    case (fetch hist c1 key gopts res c2)
    then obtain ts where ts: "length ts = length hist" "sorted (clock (world c) # ts @ [clock (world c1)])"
      "explained cs r ?only (zip ts hist) m" "holds_map E store cs p r K c1 (replay cs r (zip ts hist) m)" "quiet c c1" by auto
    from fetch_effect [OF server ts(4) _ _ _ fetch.hyps(2)] fetch.prems(1) obtain t where
      "clock (world c1) \<le> t" "t \<le> clock (world c2)" "holds_map E store cs p r K c2 (replay cs r (zip ts hist) m)"
      "fits ?only (t, Fetch key gopts res) (replay cs r (zip ts hist) m)"
      unfolding fits.simps alone_quiet [OF ts(5), of cs p, symmetric] by auto
    moreover have "quiet c c2"
      using get_quiet [OF _ fetch.hyps(2)] ts(4,5) quiet_trans by (auto simp: holds_map_def serves_store_def)
    ultimately show ?case by (intro explained_step [OF ts(1-3)]) simp_all
  next
    case (remove hist c1 key hint err c2)
    then obtain ts where ts: "length ts = length hist" "sorted (clock (world c) # ts @ [clock (world c1)])"
      "explained cs r ?only (zip ts hist) m" "holds_map E store cs p r K c1 (replay cs r (zip ts hist) m)" "quiet c c1" by auto
    from remove_effect [OF server ts(4) start(2) _ remove.hyps(2)] remove.prems(1) obtain t where
      "clock (world c1) \<le> t" "t \<le> clock (world c2)" "err = None"
      "holds_map E store cs p r K c2 (vs_delete key (replay cs r (zip ts hist) m))" by auto
    moreover have "quiet c c2"
      using delete_calm [OF _ remove.hyps(2)] ts(4,5) quiet_trans by (auto simp: holds_map_def serves_store_def)
    ultimately show ?case by (intro explained_step [OF ts(1-3)]) simp_all
  next
    case (others hist c1 c2)
    then obtain ts where ts: "length ts = length hist" "sorted (clock (world c) # ts @ [clock (world c1)])"
      "explained cs r ?only (zip ts hist) m" "holds_map E store cs p r K c1 (replay cs r (zip ts hist) m)" "quiet c c1" by auto
    have "clock (world c1) \<le> clock (world c2)" by (rule undisturbed_clock [OF others.hyps(2)])
    with ts(2) have "sorted (clock (world c) # ts @ [clock (world c2)])" by (auto simp: sorted_append)
    moreover have "quiet c c2" using quiet_trans [OF ts(5)] others.hyps(2) by (simp add: undisturbed_def)
    ultimately show ?case using ts(1,3) holds_undisturbed [OF ts(4) others.hyps(2)] by blast
  qed
  then show ?thesis by blast
qed

section \<open>A sample\<close>

text \<open>A router that knows only Redis, and sends every profile to it.\<close>

definition lonely_router :: router where
  "lonely_router =
     SetRules insertion_sort [sample_rule RoutingStrategyExact ''user:profile:*'' ''redis-master'' 100]
       (RegisterBackend sample_redis_heap 1 Router_New)"

abbreviation lonely_service :: cache_service where
  "lonely_service \<equiv> (sample_service None)\<lparr>cs_router := lonely_router\<rparr>"

lemma lonely_backends [simp]: "r_backends lonely_router = [(''redis-master'', 1)]" "r_hintRoutes lonely_router = []"
  "r_rules lonely_router = [sample_rule RoutingStrategyExact ''user:profile:*'' ''redis-master'' 100]"
  by (simp_all add: lonely_router_def SetRules_frame RegisterBackend_def Router_New_def insertion_sort_def)

lemma lonely_named: "named_target sim_env lonely_service sample_redis_heap ''user:profile:7'' hint = Some 1"
  by (simp add: named_target_def candidates_def rule_ids_def sample_rule_def matchRule_def HasPrefix_def TrimSuffix_def
      HasSuffix_def live_def list_of_key_def)

lemma lonely_holds:
  "holds_map sim_env sim_redis lonely_service 1 (sample_redis\<lparr>rb_id := ''redis-master'', rb_defaultTTL := Minute\<rparr>)
     {''user:profile:7''} sample_redis_ctx Map.empty"
  using lonely_named
  by (simp add: holds_map_def serves_store_def local_memory_def router_ok_def sample_redis_def stored_def stored_at_def sim0_def)

lemma service_refines_store_witness:
  "\<exists>c1 r c2 c3 c4.
     CacheService_Set sim_env lonely_service \<lparr>entry_Key = ''user:profile:7'', entry_Value = [7], entry_Version = 0, entry_TTL = Minute\<rparr>
       (Some zero_set_options) sample_redis_ctx = (None, c1) \<and>
     CacheService_Get sim_env lonely_service ''user:profile:7'' (Some (zero_get_options\<lparr>go_SkipCache := True\<rparr>)) c1 = (r, c2) \<and>
     r \<in> {Inr \<lparr>entry_Key = ''user:profile:7'', entry_Value = [7], entry_Version = 1, entry_TTL = 0\<rparr>, Inl ErrKeyNotFound} \<and>
     CacheService_Delete sim_env lonely_service ''user:profile:7'' (Some \<lparr>do_RoutingHint = ''''\<rparr>) c2 = (None, c3) \<and>
     CacheService_Get sim_env lonely_service ''user:profile:7'' (Some (zero_get_options\<lparr>go_SkipCache := True\<rparr>)) c3 =
       (Inl ErrKeyNotFound, c4)"
proof -
  let ?cs = lonely_service and ?k = "''user:profile:7''" and ?g = "zero_get_options\<lparr>go_SkipCache := True\<rparr>"
  let ?e = "\<lparr>entry_Key = ?k, entry_Value = [7], entry_Version = 0, entry_TTL = Minute\<rparr>"
  let ?r = "sample_redis\<lparr>rb_id := ''redis-master'', rb_defaultTTL := Minute\<rparr>"
  obtain e1 c1 where 1: "CacheService_Set sim_env ?cs ?e (Some zero_set_options) sample_redis_ctx = (e1, c1)" by fastforce
  obtain r2 c2 where 2: "CacheService_Get sim_env ?cs ?k (Some ?g) c1 = (r2, c2)" by fastforce
  obtain e3 c3 where 3: "CacheService_Delete sim_env ?cs ?k (Some \<lparr>do_RoutingHint = ''''\<rparr>) c2 = (e3, c3)" by fastforce
  obtain r4 c4 where 4: "CacheService_Get sim_env ?cs ?k (Some ?g) c3 = (r4, c4)" by fastforce
  let ?hist = "[Put ?e zero_set_options e1, Fetch ?k ?g r2, Remove ?k '''' e3, Fetch ?k ?g r4]"
  note run = store_run.fetch [OF store_run.remove [OF store_run.fetch [OF store_run.put [OF store_run.nothing 1] 2] 3] 4,
      of sim_clock sim_redis, simplified]
  have apart: "apart_keys {?k}" "versions_upto 0 Map.empty" by (simp_all add: apart_keys_def versions_upto_def)
  have ok: "\<forall>ev \<in> set ?hist. event_ok ?cs ?r {?k} ev" "0 + length ?hist < 2 ^ 63 - 1"
    by (simp_all add: effective_mode_def zero_set_options_def zero_get_options_def value_size_def redis_ttl_def written_def)
  have "alone ?cs 1 (heap sample_redis_ctx)" by (simp add: alone_def live_backend_def)
  moreover obtain ts where "length ts = length ?hist"
    "explained ?cs ?r (alone ?cs 1 (heap sample_redis_ctx)) (zip ts ?hist) Map.empty"
    using service_refines_store [OF sim_redis_server sim_steady sim_apart lonely_holds apart run ok] by blast
  moreover from this(1) obtain t1 t2 t3 t4 where "ts = [t1, t2, t3, t4]"
    by (auto simp: eval_nat_numeral length_Suc_conv)
  ultimately have "e1 = None \<and> e3 = None \<and> r4 = Inl ErrKeyNotFound \<and>
      r2 \<in> {Inr \<lparr>entry_Key = ?k, entry_Value = [7], entry_Version = 1, entry_TTL = 0\<rparr>, Inl ErrKeyNotFound}"
    by (auto simp: vs_get_def vs_set_def vs_delete_def vs_version_def split: if_splits)
  with 1 2 3 4 show ?thesis by blast
qed

end
