(* ===== verification/Linearizable.thy ===== *)
theory Linearizable
  imports Overlap_Properties Store_Refinement
begin

text \<open>
  Requests that overlap, on keys that the rules send to one Redis backend: each takes effect
  at one instant, its call of that backend, and the results are those of the versioned map of
  Store_Refinement at these instants.
\<close>

section \<open>Where a request takes effect\<close>

text \<open>The call of the backend \<open>p\<close>, if that is the next step of a request.\<close>

fun touches :: "'w env \<Rightarrow> cache_service \<Rightarrow> bref \<Rightarrow> request \<times> ('w, 'z) cs_ctx_scheme \<Rightarrow> event option" where
  "touches E cs p (Reading key opts (GetAsk t q i ps l), c) = (if q = p then Some (Fetch key opts (fst (obj_Get E q key c))) else None)"
| "touches E cs p (Writing e opts (SetWrite k t q i), c) =
     (if q = p then Some (Put e opts (fst (obj_Set E q (sent cs e opts k) c))) else None)"
| "touches E cs p (Deleting key hint (DeleteBackend t q i), c) =
     (if q = p then Some (Remove key hint (fst (obj_Delete E q key c))) else None)"
| "touches E cs p (req, c) = None"

text \<open>The requests of \<open>Store_Refinement\<close>.\<close>

fun suitable :: "cache_service \<Rightarrow> redis_backend \<Rightarrow> string set \<Rightarrow> request \<Rightarrow> bool" where
  "suitable cs r K (Reading key opts pc) \<longleftrightarrow> event_ok cs r K (Fetch key opts (Inl ErrKeyNotFound))"
| "suitable cs r K (Writing e opts pc) \<longleftrightarrow> event_ok cs r K (Put e opts None)"
| "suitable cs r K (Deleting key hint pc) \<longleftrightarrow> event_ok cs r K (Remove key hint None)"

text \<open>
  A run with its log: which request took effect, when, and as which event. A request arrives,
  makes a step, or something happens that leaves the server alone.
\<close>

type_synonym effects = "(nat \<times> instant \<times> event) list"

inductive logged_step ::
  "'w env \<Rightarrow> ('w \<Rightarrow> instant) \<Rightarrow> ('w \<Rightarrow> nat \<Rightarrow> redis_store) \<Rightarrow> cache_service \<Rightarrow> bref \<Rightarrow> redis_backend \<Rightarrow> string set \<Rightarrow>
   request list \<times> effects \<times> ('w, 'z) cs_ctx_scheme \<Rightarrow> request list \<times> effects \<times> ('w, 'z) cs_ctx_scheme \<Rightarrow> bool"
  for E :: "'w env" and clock :: "'w \<Rightarrow> instant" and store :: "'w \<Rightarrow> nat \<Rightarrow> redis_store" and cs :: cache_service
    and p :: bref and r :: redis_backend and K :: "string set"
where
  arrives: "starts req \<Longrightarrow> suitable cs r K req \<Longrightarrow> logged_step E clock store cs p r K (reqs, past, c) (reqs @ [req], past, c)"
| moves: "i < length reqs \<Longrightarrow> request_step E cs (reqs ! i, c) = (req, c') \<Longrightarrow>
    logged_step E clock store cs p r K (reqs, past, c)
      (reqs[i := req], past @ (case touches E cs p (reqs ! i, c) of None \<Rightarrow> [] | Some ev \<Rightarrow> [(i, clock (world c), ev)]), c')"
| others: "undisturbed clock store cs c c' \<Longrightarrow> logged_step E clock store cs p r K (reqs, past, c) (reqs, past, c')"

section \<open>A request in progress\<close>

text \<open>Whether the effect of a request is still to come.\<close>

fun due :: "bref \<Rightarrow> request \<Rightarrow> bool" where
  "due p (Reading key opts (GetGuard t ps l)) \<longleftrightarrow> p \<in> set ps"
| "due p (Reading key opts (GetAsk t q i ps l)) \<longleftrightarrow> q = p"
| "due p (Reading key opts (GetEnd t res n)) \<longleftrightarrow> False"
| "due p (Reading key opts (GetDone res)) \<longleftrightarrow> False"
| "due p (Writing e opts (SetEnd t err)) \<longleftrightarrow> False"
| "due p (Writing e opts (SetDone err)) \<longleftrightarrow> False"
| "due p (Deleting key hint (DeleteEnd t err)) \<longleftrightarrow> False"
| "due p (Deleting key hint (DeleteDone err)) \<longleftrightarrow> False"
| "due p req \<longleftrightarrow> True"

text \<open>
  Whether an event is that of a request whose effect is past, with its result: a read that the
  backend did not answer goes on to the other backends.
\<close>

fun accounts :: "event \<Rightarrow> request \<Rightarrow> bool" where
  "accounts (Fetch key opts res) (Reading key' opts' pc) \<longleftrightarrow>
     key' = key \<and> opts' = opts \<and>
     (res = Inl ErrKeyNotFound \<or> (case pc of GetEnd t res' n \<Rightarrow> res' = res | GetDone res' \<Rightarrow> res' = res | _ \<Rightarrow> False))"
| "accounts (Put e opts err) (Writing e' opts' pc) \<longleftrightarrow>
     e' = e \<and> opts' = opts \<and> (case pc of SetEnd t err' \<Rightarrow> err' = err | SetDone err' \<Rightarrow> err' = err | _ \<Rightarrow> False)"
| "accounts (Remove key hint err) (Deleting key' hint' pc) \<longleftrightarrow>
     key' = key \<and> hint' = hint \<and> (case pc of DeleteEnd t err' \<Rightarrow> err' = err | DeleteDone err' \<Rightarrow> err' = err | _ \<Rightarrow> False)"
| "accounts ev req \<longleftrightarrow> False"

text \<open>What its local variables may be: the backend \<open>p\<close> comes first in a list of backends, and once.\<close>

fun on_course :: "bref \<Rightarrow> request \<Rightarrow> bool" where
  "on_course p (Reading key opts (GetGuard t ps l)) \<longleftrightarrow> p \<notin> set (tl ps)"
| "on_course p (Reading key opts (GetAsk t q i ps l)) \<longleftrightarrow> p \<notin> set ps"
| "on_course p (Writing e opts (SetLocal t behind)) \<longleftrightarrow> \<not> behind"
| "on_course p (Writing e opts (SetEnqueue t)) \<longleftrightarrow> False"
| "on_course p (Writing e opts (SetRoute k t)) \<longleftrightarrow> k \<noteq> Pass"
| "on_course p (Writing e opts (SetGuard k t q)) \<longleftrightarrow> k \<noteq> Pass \<and> q = p"
| "on_course p (Writing e opts (SetWrite k t q i)) \<longleftrightarrow> k \<noteq> Pass \<and> q = p"
| "on_course p (Deleting key hint (DeleteGuard t q)) \<longleftrightarrow> q = p"
| "on_course p (Deleting key hint (DeleteBackend t q i)) \<longleftrightarrow> q = p"
| "on_course p req \<longleftrightarrow> True"

text \<open>One step of a request, before which the server holds the map \<open>m\<close>.\<close>

lemma in_set_tlD: "x \<in> set (tl xs) \<Longrightarrow> x \<in> set xs"
  by (cases xs) simp_all

definition goes_on ::
  "'w env \<Rightarrow> ('w \<Rightarrow> instant) \<Rightarrow> ('w \<Rightarrow> nat \<Rightarrow> redis_store) \<Rightarrow> cache_service \<Rightarrow> bref \<Rightarrow> redis_backend \<Rightarrow> string set \<Rightarrow> vstore \<Rightarrow>
   request \<times> ('w, 'z) cs_ctx_scheme \<Rightarrow> request \<times> ('w, 'z) cs_ctx_scheme \<Rightarrow> bool" where
  "goes_on E clock store cs p r K m = (\<lambda>(req, c) (req', c').
     on_course p req' \<and> suitable cs r K req' \<and>
     (case touches E cs p (req, c) of
        None \<Rightarrow> undisturbed clock store cs c c' \<and> due p req' = due p req \<and> (\<forall>ev. \<not> due p req \<and> accounts ev req \<longrightarrow> accounts ev req')
      | Some ev \<Rightarrow> due p req \<and> \<not> due p req' \<and> accounts ev req' \<and> fits True (clock (world c), ev) m \<and>
          clock (world c) \<le> clock (world c') \<and> holds_map E store cs p r K c' (apply_event cs r (clock (world c), ev) m)))"

lemma route_read_once:
  assumes "router_ok (heap c) (cs_router cs)" "named_target E cs (heap c) key hint = Some p" "route_read E cs key hint c = (ps, c')"
  shows "\<exists>qs. ps = p # qs \<and> p \<notin> set qs"
proof -
  let ?live = "live (heap c) (cs_router cs)"
  obtain ids where l: "ps = List.map_filter ?live ids" "distinct ids"
    using assms(1,3) by (auto simp: route_read_def GetBackendsForRead_list split: prod.splits)
  have "\<exists>qs. ps = p # qs"
    using assms first_live_hd [of "heap c" "cs_router cs" "candidates (env_xxhash E) (cs_router cs) key hint" p]
    by (auto simp: route_read_def named_target_def GetBackendsForRead_list split: prod.splits)
  then obtain qs where qs: "ps = p # qs" by blast
  have "distinct (map (obj_ID (heap c)) (p # qs))" using distinct_live_IDs [OF assms(1) l(2)] by (simp only: qs [symmetric] l(1))
  with qs show ?thesis by auto
qed

lemma read_goes_on:
  assumes S: "redis_server E clock store" "steady E clock store" "apart E clock store"
    and H: "holds_map E store cs p r K c m" and A: "event_ok cs r K (Fetch key opts (Inl ErrKeyNotFound))"
    and C: "on_course p (Reading key opts pc)" and R: "get_step E cs key opts (pc, c) = (pc', c')"
  shows "goes_on E clock store cs p r K m (Reading key opts pc, c) (Reading key opts pc', c')"
proof -
  have a: "key \<in> K" "go_SkipCache opts" "go_Version opts = 0" using A by simp_all
  have ready: "all_closed (breakers c)" "router_ok (heap c) (cs_router cs)"
    "named_target E cs (heap c) key (go_RoutingHint opts) = Some p"
    using H a(1) by (simp_all add: holds_map_def serves_store_def)
  show ?thesis
  proof (cases pc)
    case GetStart
    with R A undisturbed_Now [OF S(2)] show ?thesis by (auto simp: goes_on_def split: prod.splits)
  next
    case (GetLocal t)
    have "get_local E cs key opts c = (None, 0, c)" using a(2) by (simp add: get_local_def split: option.split)
    with GetLocal R A undisturbed_metric show ?thesis by (auto simp: goes_on_def)
  next
    case (GetRoute t)
    obtain ps c1 where r: "route_read E cs key (go_RoutingHint opts) c = (ps, c1)" by fastforce
    obtain qs where "ps = p # qs" "p \<notin> set qs" using route_read_once [OF ready(2,3) r] by blast
    with GetRoute R A r undisturbed_read [OF S(2) r] show ?thesis by (auto simp: goes_on_def)
  next
    case (GetGuard t ps l)
    show ?thesis
    proof (cases ps)
      case Nil
      with GetGuard R A undisturbed_metric show ?thesis
        by (auto simp: goes_on_def split: option.splits elim: accounts.elims)
    next
      case (Cons q qs)
      obtain g c1 where g: "guard E q c = (g, c1)" by fastforce
      from undisturbed_guard [OF ready(1) g] GetGuard Cons R A C g show ?thesis
        by (auto simp: goes_on_def Let_def elim!: accounts.elims)
    qed
  next
    case (GetAsk t q i ps l)
    obtain x c1 where o: "obj_Get E q key c = (x, c1)" by fastforce
    note u = obj_Get_bystander [OF S o]
    have n: "\<not> stale_version cs opts e" for e using a(3) by (simp add: stale_version_def)
    have pc': "pc' = (case x of Inr e \<Rightarrow> GetEnd t (Inr e) (value_size e) | Inl err \<Rightarrow> GetGuard t ps (if err = ErrKeyNotFound then l else Some err))"
      and u': "undisturbed clock store cs c c'"
      using GetAsk R o n a(2) undisturbed_trans [OF u undisturbed_metric] undisturbed_trans [OF undisturbed_trans [OF u undisturbed_metric] undisturbed_metric]
      by (auto simp: Let_def split: sum.splits if_splits)
    show ?thesis
    proof (cases "q = p")
      case True
      have at: "heap c p = RedisBackend r" "rb_healthy r" "stored K (store (world c) (rb_client r)) m"
        using H by (simp_all add: holds_map_def serves_store_def)
      have "x = fst (Redis_Get E r key (world c))"
        using o at(1) True by (auto simp: obj_Get_def obj_call_def Backend_Get_def on_object_def split: prod.splits)
      with Redis_Get_stored [OF S(1) at(2,3) a(1)] have "fits True (clock (world c), Fetch key opts x) m"
        "(\<exists>e. x = Inr e) \<or> x = Inl ErrKeyNotFound"
        by (auto split: option.splits)
      with True GetAsk o pc' A C undisturbed_clock [OF u'] holds_undisturbed [OF H u'] show ?thesis
        by (auto simp: goes_on_def simp del: fits.simps split: sum.splits dest: in_set_tlD)
    next
      case False
      with GetAsk pc' A C u' show ?thesis by (auto simp: goes_on_def split: sum.splits elim!: accounts.elims dest: in_set_tlD)
    qed
  next
    case (GetEnd t x n)
    with R A undisturbed_trans [OF undisturbed_metric undisturbed_latency [OF S(2)]] show ?thesis
      by (auto simp: goes_on_def elim!: accounts.elims)
  next
    case (GetDone x)
    with R A undisturbed_refl show ?thesis by (auto simp: goes_on_def)
  qed
qed

lemma write_goes_on:
  assumes S: "redis_server E clock store" "steady E clock store" "apart E clock store"
    and H: "holds_map E store cs p r K c m" "apart_keys K" "\<And>t k. vs_version t k m + 1 < 2 ^ 63"
    and A: "event_ok cs r K (Put e opts None)"
    and C: "on_course p (Writing e opts pc)" and R: "set_step E cs e opts (pc, c) = (pc', c')"
  shows "goes_on E clock store cs p r K m (Writing e opts pc, c) (Writing e opts pc', c')"
proof -
  have a: "entry_Key e \<in> K" "value_size e \<le> cs_maxValueSize cs" "\<not> so_CheckVersion opts" "effective_mode cs opts \<noteq> ReadWriteModeWriteBehind"
    "0 < redis_ttl r (written cs opts e)" using A by simp_all
  have ready: "all_closed (breakers c)" "local_memory cs (heap c)" "named_target E cs (heap c) (entry_Key e) hint = Some p" for hint
    using H(1) a(1) by (simp_all add: holds_map_def serves_store_def)
  show ?thesis
  proof (cases pc)
    case SetStart
    with R A undisturbed_trans [OF undisturbed_Now [OF S(2)] undisturbed_metric] show ?thesis
      by (auto simp: goes_on_def split: prod.splits elim!: accounts.elims)
  next
    case (SetCheck t)
    have "set_conflict E cs e opts c = (False, c)" using a(3) by (simp add: set_conflict_def)
    with SetCheck R A undisturbed_refl show ?thesis
      by (auto simp: goes_on_def split: ReadWriteMode.splits elim!: accounts.elims)
  next
    case (SetLocal t behind)
    with R A C undisturbed_write_local [OF S(2) ready(2)] show ?thesis by (auto simp: goes_on_def)
  next
    case (SetEnqueue t)
    with C show ?thesis by simp
  next
    case (SetRoute k t)
    obtain c1 where r: "route_write E cs (entry_Key e) (so_RoutingHint opts) c = (Inr p, c1)"
      using route_write_named [OF ready(3)] by blast
    with SetRoute R A C undisturbed_write [OF S(2) r] show ?thesis by (auto simp: goes_on_def)
  next
    case (SetGuard k t q)
    obtain g c1 where g: "guard E q c = (g, c1)" by fastforce
    from undisturbed_guard [OF ready(1) g] SetGuard R A C g show ?thesis by (auto simp: goes_on_def Let_def)
  next
    case (SetWrite k t q i)
    let ?e = "written cs opts e"
    have k: "k \<noteq> Pass" "q = p" "sent cs e opts k = ?e" "entry_Key ?e = entry_Key e" "entry_Value ?e = entry_Value e"
      using C SetWrite by (simp_all add: sent_def written_def)
    obtain c1 where o: "obj_Set E p ?e c = (None, c1)" "clock (world c) \<le> clock (world c1)"
      and h1: "holds_map E store cs p r K c1 (vs_set (clock (world c)) (entry_Key e) (entry_Value e) (redis_ttl r ?e) m)"
      using obj_Set_stored [OF S(1) H(1,2), of ?e] a H(3) k by auto
    have pc': "pc' = SetEnd t None" and u: "undisturbed clock store cs c1 c'"
      using SetWrite R k o undisturbed_trans [OF undisturbed_spawn undisturbed_metric] undisturbed_metric
      by (auto split: way.splits if_splits)
    show ?thesis
      using SetWrite pc' k o A undisturbed_clock [OF u] holds_undisturbed [OF h1 u] by (simp add: goes_on_def)
  next
    case (SetEnd t err)
    with R A undisturbed_latency [OF S(2)] show ?thesis by (auto simp: goes_on_def elim!: accounts.elims)
  next
    case (SetDone err)
    with R A undisturbed_refl show ?thesis by (auto simp: goes_on_def)
  qed
qed

lemma delete_goes_on:
  assumes S: "redis_server E clock store" "steady E clock store" "apart E clock store"
    and H: "holds_map E store cs p r K c m" "apart_keys K"
    and A: "event_ok cs r K (Remove key hint None)"
    and C: "on_course p (Deleting key hint pc)" and R: "delete_step E cs key hint (pc, c) = (pc', c')"
  shows "goes_on E clock store cs p r K m (Deleting key hint pc, c) (Deleting key hint pc', c')"
proof -
  have a: "key \<in> K" using A by simp
  have ready: "all_closed (breakers c)" "local_memory cs (heap c)" "named_target E cs (heap c) key hint = Some p"
    using H(1) a by (simp_all add: holds_map_def serves_store_def)
  show ?thesis
  proof (cases pc)
    case DeleteStart
    with R A undisturbed_Now [OF S(2)] show ?thesis by (auto simp: goes_on_def split: prod.splits elim!: accounts.elims)
  next
    case (DeleteLocal t)
    with R A undisturbed_delete_local [OF S(3) ready(2)] show ?thesis by (auto simp: goes_on_def elim!: accounts.elims)
  next
    case (DeleteRoute t)
    obtain c1 where r: "route_write E cs key hint c = (Inr p, c1)" using route_write_named [OF ready(3)] by blast
    with DeleteRoute R A undisturbed_write [OF S(2) r] show ?thesis by (auto simp: goes_on_def)
  next
    case (DeleteGuard t q)
    obtain g c1 where g: "guard E q c = (g, c1)" by fastforce
    from undisturbed_guard [OF ready(1) g] DeleteGuard R A C g show ?thesis by (auto simp: goes_on_def Let_def)
  next
    case (DeleteBackend t q i)
    have q: "q = p" using C DeleteBackend by simp
    obtain c1 where o: "obj_Delete E p key c = (None, c1)" "clock (world c) \<le> clock (world c1)"
      "holds_map E store cs p r K c1 (vs_delete key m)"
      using obj_Delete_stored [OF S(1) H a] by blast
    moreover have "pc' = DeleteEnd t None" "c' = c1" using DeleteBackend R q o by simp_all
    ultimately show ?thesis using DeleteBackend q A by (simp add: goes_on_def)
  next
    case (DeleteEnd t err)
    with R A undisturbed_latency [OF S(2)] show ?thesis by (auto simp: goes_on_def elim!: accounts.elims)
  next
    case (DeleteDone err)
    with R A undisturbed_refl show ?thesis by (auto simp: goes_on_def)
  qed
qed

lemma request_goes_on:
  assumes "redis_server E clock store" "steady E clock store" "apart E clock store"
    and "holds_map E store cs p r K c m" "apart_keys K" "\<And>t k. vs_version t k m + 1 < 2 ^ 63"
    and "suitable cs r K req" "on_course p req" "request_step E cs (req, c) = (req', c')"
  shows "goes_on E clock store cs p r K m (req, c) (req', c')"
proof (cases req)
  case (Reading key opts pc)
  obtain pc' d where s: "get_step E cs key opts (pc, c) = (pc', d)" by fastforce
  from read_goes_on [OF assms(1-4) _ _ s] s Reading assms(7-9) show ?thesis by simp
next
  case (Writing e opts pc)
  obtain pc' d where s: "set_step E cs e opts (pc, c) = (pc', d)" by fastforce
  from write_goes_on [OF assms(1-6) _ _ s] s Writing assms(7-9) show ?thesis by simp
next
  case (Deleting key hint pc)
  obtain pc' d where s: "delete_step E cs key hint (pc, c) = (pc', d)" by fastforce
  from delete_goes_on [OF assms(1-5) _ _ s] s Deleting assms(7-9) show ?thesis by simp
qed

section \<open>Every interleaving\<close>

text \<open>A request whose effect is past is in the log, with its result; one whose effect is due is not.\<close>

definition settled :: "bref \<Rightarrow> effects \<Rightarrow> nat \<Rightarrow> request \<Rightarrow> bool" where
  "settled p past i req \<longleftrightarrow>
     (if due p req then i \<notin> fst ` set past else \<exists>t ev. (i, t, ev) \<in> set past \<and> accounts ev req)"

definition in_order :: "instant \<Rightarrow> effects \<Rightarrow> instant \<Rightarrow> bool" where
  "in_order t0 past t1 \<longleftrightarrow> sorted (t0 # map (\<lambda>x. fst (snd x)) past @ [t1]) \<and> distinct (map fst past)"

definition linear_ok ::
  "'w env \<Rightarrow> ('w \<Rightarrow> instant) \<Rightarrow> ('w \<Rightarrow> nat \<Rightarrow> redis_store) \<Rightarrow> cache_service \<Rightarrow> bref \<Rightarrow> redis_backend \<Rightarrow> string set \<Rightarrow>
   vstore \<Rightarrow> instant \<Rightarrow> request list \<times> effects \<times> ('w, 'z) cs_ctx_scheme \<Rightarrow> bool" where
  "linear_ok E clock store cs p r K m t0 = (\<lambda>(reqs, past, c).
     holds_map E store cs p r K c (replay cs r (map snd past) m) \<and> explained cs r True (map snd past) m \<and>
     in_order t0 past (clock (world c)) \<and> (\<forall>i \<in> fst ` set past. i < length reqs) \<and>
     (\<forall>i < length reqs. on_course p (reqs ! i) \<and> suitable cs r K (reqs ! i) \<and> settled p past i (reqs ! i)))"

lemma in_order_later: "in_order t0 past t \<Longrightarrow> t \<le> t' \<Longrightarrow> in_order t0 past t'"
  by (auto simp: in_order_def sorted_append)

lemma in_order_next: "in_order t0 past t \<Longrightarrow> t \<le> t' \<Longrightarrow> i \<notin> fst ` set past \<Longrightarrow> in_order t0 (past @ [(i, t, ev)]) t'"
  by (auto simp: in_order_def sorted_append)

lemma starts_due: "starts req \<Longrightarrow> due p req \<and> on_course p req"
  by (cases req) simp_all

lemma logged_step_ok:
  assumes S: "redis_server E clock store" "steady E clock store" "apart E clock store" "apart_keys K"
    and step: "logged_step E clock store cs p r K (reqs, past, c) (reqs', past', c')"
    and ok: "linear_ok E clock store cs p r K m t0 (reqs, past, c)"
    and bound: "versions_upto b m" "b + length past < 2 ^ 63 - 1"
  shows "linear_ok E clock store cs p r K m t0 (reqs', past', c')"
  using step
proof (cases rule: logged_step.cases)
  case (arrives req)
  with ok starts_due [of req p] show ?thesis
    by (auto simp: linear_ok_def nth_append settled_def less_Suc_eq)
next
  case others
  with ok holds_undisturbed [OF _ others(3)] undisturbed_clock [OF others(3)] show ?thesis
    by (auto simp: linear_ok_def intro: in_order_later)
next
  case (moves i req)
  let ?m = "replay cs r (map snd past) m" and ?t = "clock (world c)"
  note ok' = ok [unfolded linear_ok_def prod.case]
  have i: "on_course p (reqs ! i)" "suitable cs r K (reqs ! i)" "settled p past i (reqs ! i)" using ok' moves(3) by simp_all
  have "vs_version t k ?m + 1 < 2 ^ 63" for t k
    using vs_version_upto [OF versions_replay [OF bound(1)], of t k cs r "map snd past"] bound(2) by simp
  with request_goes_on [OF S(1-3) _ S(4) _ i(2,1) moves(4)] ok'
  have on: "goes_on E clock store cs p r K ?m (reqs ! i, c) (req, c')" by blast
  show ?thesis
  proof (cases "touches E cs p (reqs ! i, c)")
    case None
    with on have u: "undisturbed clock store cs c c'" and n: "on_course p req" "suitable cs r K req" "due p req = due p (reqs ! i)"
      "\<not> due p (reqs ! i) \<Longrightarrow> accounts ev (reqs ! i) \<Longrightarrow> accounts ev req" for ev
      by (auto simp: goes_on_def)
    have "settled p past i req" using i(3) n(3,4) unfolding settled_def by (auto split: if_splits)
    with moves None ok' n(1,2) holds_undisturbed [OF _ u] undisturbed_clock [OF u] show ?thesis
      by (auto simp: linear_ok_def nth_list_update intro: in_order_later)
  next
    case (Some ev)
    with on have n: "on_course p req" "suitable cs r K req" "due p (reqs ! i)" "\<not> due p req" "accounts ev req"
      "fits True (?t, ev) ?m" "?t \<le> clock (world c')" "holds_map E store cs p r K c' (apply_event cs r (?t, ev) ?m)"
      by (auto simp: goes_on_def)
    have past': "past' = past @ [(i, ?t, ev)]" using moves(2) Some by simp
    have fresh: "i \<notin> fst ` set past" using i(3) n(3) by (simp add: settled_def)
    have "settled p past' j (reqs' ! j)" if "j < length reqs" for j
      using ok' that n(4,5) moves(1,3) past' by (auto simp: settled_def nth_list_update)
    moreover have "in_order t0 past' (clock (world c'))" unfolding past' using ok' n(7) fresh by (intro in_order_next) auto
    ultimately show ?thesis using ok' n moves(1,3) past'
      by (auto simp: linear_ok_def replay_snoc explained_snoc nth_list_update simp del: fits.simps apply_event.simps)
  qed
qed

lemma logged_longer: "logged_step E clock store cs p r K (reqs, past, c) (reqs', past', c') \<Longrightarrow> length past \<le> length past'"
  by (cases rule: logged_step.cases) (auto split: option.splits)

text \<open>
  C1: overlapping requests are linearizable. Requests arrive at any time and their steps
  interleave in any order, with anything in between that leaves the server alone. For keys
  that the rules send to one healthy Redis backend, reads that skip the local cache, writes and
  deletions take effect one at a time, each at one instant between its arrival and its
  answer, the call of that backend: the versioned map changed in this order explains the
  results, and the server holds what the map holds. (A read that the backend did not answer
  may have its answer from another backend.)
\<close>

theorem overlapping_requests_linearize:
  assumes server: "redis_server E clock store" "steady E clock store" "apart E clock store"
    and start: "holds_map E store cs p r K c m" "apart_keys K" "versions_upto b m"
    and run: "(logged_step E clock store cs p r K)\<^sup>*\<^sup>* ([], [], c) (reqs, past, c')" "b + length past < 2 ^ 63 - 1"
  shows "explained cs r True (map snd past) m \<and> holds_map E store cs p r K c' (replay cs r (map snd past) m) \<and>
    in_order (clock (world c)) past (clock (world c')) \<and> (\<forall>i < length reqs. settled p past i (reqs ! i))"
proof -
  have "linear_ok E clock store cs p r K m (clock (world c)) s"
    if "(logged_step E clock store cs p r K)\<^sup>*\<^sup>* ([], [], c) s" "b + length (fst (snd s)) < 2 ^ 63 - 1" for s
    using that
  proof (induction rule: rtranclp_induct)
    case base
    with start(1) show ?case by (simp add: linear_ok_def in_order_def)
  next
    case (step s1 s2)
    obtain reqs1 past1 c1 reqs2 past2 c2 where s: "s1 = (reqs1, past1, c1)" "s2 = (reqs2, past2, c2)" by (metis prod_cases3)
    from step.IH step.prems logged_longer [OF step.hyps(2) [unfolded s]] s
    have "linear_ok E clock store cs p r K m (clock (world c)) s1" "b + length past1 < 2 ^ 63 - 1" by simp_all
    with logged_step_ok [OF server start(2) step.hyps(2) [unfolded s] _ start(3)] s show ?case by blast
  qed
  from this [OF run(1)] run(2) show ?thesis by (simp add: linear_ok_def)
qed

text \<open>A schedule is such a run.\<close>

lemma schedule_logged:
  "set is \<subseteq> {..< length reqs} \<Longrightarrow> run_schedule E cs is (reqs, c) = (reqs', c') \<Longrightarrow>
   \<exists>past'. (logged_step E clock store cs p r K)\<^sup>*\<^sup>* (reqs, past, c) (reqs', past', c') \<and> length past' \<le> length past + length is"
proof (induction "is" arbitrary: reqs past c)
  case Nil
  then show ?case by auto
next
  case (Cons i "is")
  obtain req c1 where s: "request_step E cs (reqs ! i, c) = (req, c1)" by fastforce
  let ?past1 = "past @ (case touches E cs p (reqs ! i, c) of None \<Rightarrow> [] | Some ev \<Rightarrow> [(i, clock (world c), ev)])"
  have 1: "logged_step E clock store cs p r K (reqs, past, c) (reqs[i := req], ?past1, c1)"
    using Cons.prems(1) s by (intro logged_step.moves) auto
  have "set is \<subseteq> {..< length (reqs[i := req])}" "run_schedule E cs is (reqs[i := req], c1) = (reqs', c')"
    using Cons.prems s by auto
  from Cons.IH [OF this, of ?past1] obtain past' where
    "(logged_step E clock store cs p r K)\<^sup>*\<^sup>* (reqs[i := req], ?past1, c1) (reqs', past', c')"
    "length past' \<le> length ?past1 + length is" by blast
  moreover have "length ?past1 \<le> Suc (length past)" by (simp split: option.split)
  ultimately show ?case
    using converse_rtranclp_into_rtranclp [of "logged_step E clock store cs p r K", OF 1] by (intro exI [of _ past']) auto
qed

lemma all_arrive:
  "\<forall>req \<in> set reqs. starts req \<and> suitable cs r K req \<Longrightarrow>
   (logged_step E clock store cs p r K)\<^sup>*\<^sup>* ([], [], c) (reqs, [], c)"
  by (induction reqs rule: rev_induct) (auto intro: rtranclp.rtrancl_into_rtrancl logged_step.arrives)

lemma scheduled_run:
  assumes "\<forall>req \<in> set reqs. starts req \<and> suitable cs r K req" "set is \<subseteq> {..< length reqs}"
    "run_schedule E cs is (reqs, c) = (reqs', c')"
  shows "\<exists>past. (logged_step E clock store cs p r K)\<^sup>*\<^sup>* ([], [], c) (reqs', past, c') \<and> length past \<le> length is"
proof -
  note a = all_arrive [OF assms(1), of E clock store p c]
  from schedule_logged [OF assms(2,3), of clock store p r K "[]"] obtain past where
    "(logged_step E clock store cs p r K)\<^sup>*\<^sup>* (reqs, [], c) (reqs', past, c')" "length past \<le> length is" by auto
  with rtranclp_trans [OF a] show ?thesis by blast
qed

lemma overlapping_requests_linearize_witness:
  "\<exists>reqs c' past.
     run_schedule sim_env lonely_service [0, 1, 2, 0, 1, 2, 0, 1, 2, 1, 2, 0, 1, 2, 0, 1, 2, 0]
       ([Writing (sample_write [7]) zero_set_options SetStart, Deleting ''user:profile:7'' '''' DeleteStart,
         Reading ''user:profile:7'' (zero_get_options\<lparr>go_SkipCache := True\<rparr>) GetStart], sample_redis_ctx) = (reqs, c') \<and>
     explained lonely_service master True (map snd past) Map.empty \<and> (\<forall>i < 3. settled 1 past i (reqs ! i))"
proof -
  let ?cs = lonely_service and ?k = "''user:profile:7''"
  let ?reqs = "[Writing (sample_write [7]) zero_set_options SetStart, Deleting ?k '''' DeleteStart,
    Reading ?k (zero_get_options\<lparr>go_SkipCache := True\<rparr>) GetStart]"
  let ?is = "[0, 1, 2, 0, 1, 2, 0, 1, 2, 1, 2, 0, 1, 2, 0, 1, 2, 0] :: nat list"
  let ?step = "logged_step sim_env sim_clock sim_redis ?cs 1 master {?k}"
  have ok: "\<forall>req \<in> set ?reqs. starts req \<and> suitable ?cs master {?k} req"
    by (simp add: effective_mode_def zero_set_options_def zero_get_options_def sample_write_def value_size_def redis_ttl_def written_def)

  obtain reqs c' where s: "run_schedule sim_env ?cs ?is (?reqs, sample_redis_ctx) = (reqs, c')" by fastforce
  have "set ?is \<subseteq> {..< length ?reqs}" by simp
  from scheduled_run [OF ok this s, of sim_clock sim_redis 1] obtain past where
    run: "?step\<^sup>*\<^sup>* ([], [], sample_redis_ctx) (reqs, past, c')" and l: "length past \<le> 18" by auto
  have keys: "apart_keys {?k}" "versions_upto 0 Map.empty" "0 + length past < 2 ^ 63 - 1"
    using l by (simp_all add: apart_keys_def versions_upto_def)
  have "length reqs = 3"
  proof -
    have "length rs' = length rs" if "run_schedule E cs js (rs, c1) = (rs', c2)"
      for E :: "sim env" and cs js rs rs' and c1 c2 :: "sim cs_ctx"
      using that by (induction js arbitrary: rs c1) (fastforce split: prod.splits)+
    from this [OF s] show ?thesis by simp
  qed
  with overlapping_requests_linearize [OF sim_redis_server sim_steady sim_apart lonely_holds keys(1,2) run keys(3)] s show ?thesis by auto
qed

end
