(* ===== verification/Started_Store.thy ===== *)
theory Started_Store
  imports Linearizable Server_Properties
begin

text \<open>
  From the configuration to the versioned map: a started proxy whose rules send some keys to
  one configured Redis backend is, for these keys, the object of Store_Refinement, and serves
  overlapping requests as Linearizable says.
\<close>

section \<open>A configured backend is registered\<close>

lemma make_backend_ID:
  assumes "make_backend M cfg w = Some (Inr b, w')"
  shows "id_ID (Backend_ident b) = bc_ID cfg"
  using assms
  by (auto simp: make_backend_def Memory_New_def Redis_New_def Http_New_def Grpc_New_def Backend_ident_def Memory_ident_def
      Redis_ident_def Http_ident_def Grpc_ident_def Let_def
      split: BackendType.splits option.splits prod.splits sum.splits if_splits)

lemma make_redis:
  assumes "bc_Type cfg = BackendTypeRedis" "bc_Redis cfg = Some rc"
  shows "\<exists>r w'. make_backend M cfg w = Some (Inr (RedisBackend r), w') \<and> rb_id r = bc_ID cfg \<and> rb_healthy r"
  using assms by (auto simp: make_backend_def Redis_New_def split: prod.splits)

lemma watch_backend_frame:
  fixes s :: "('w, 'z) boot_scheme"
  shows "heap (watch_backend E M cfg p s) = heap s \<and> bo_router (watch_backend E M cfg p s) = bo_router s \<and>
    bo_next (watch_backend E M cfg p s) = bo_next s"
proof -
  obtain cb m s1 where g: "GetOrCreate E (obj_ID (heap s) p) (bc_CircuitBreaker cfg) (breakers s) s = (cb, m, s1)"
    by (metis prod_cases3)
  have 1: "heap s1 = heap s \<and> bo_router s1 = bo_router s \<and> bo_next s1 = bo_next s"
    using g by (auto simp: GetOrCreate_def Let_def time_Now_def split: option.splits if_splits prod.splits)
  obtain err hc s3 where
    h: "Health_RegisterBackend (mk_job M) p (bc_HealthCheck cfg) (bo_hc (s1\<lparr>breakers := m\<rparr>)) (s1\<lparr>breakers := m\<rparr>) = (err, hc, s3)"
    by (metis prod_cases3)
  from Health_Register_cases [OF h] 1 have "heap s3 = heap s \<and> bo_router s3 = bo_router s \<and> bo_next s3 = bo_next s" by auto
  with g h show ?thesis by (simp add: watch_backend_def Let_def)
qed

text \<open>The backend of an ID, a healthy Redis backend.\<close>

definition redis_listed :: "string \<Rightarrow> ('w, 'z) boot_scheme \<Rightarrow> bool" where
  "redis_listed i s \<longleftrightarrow>
     (\<exists>p r. map_of (r_backends (bo_router s)) i = Some p \<and> heap s p = RedisBackend r \<and> rb_id r = i \<and> rb_healthy r \<and> p < bo_next s)"

lemma listed_enlist:
  assumes "redis_listed i s" "id_ID (Backend_ident b) \<noteq> i"
  shows "redis_listed i (enlist b s)"
  using assms by (force simp: redis_listed_def enlist_def RegisterBackend_def obj_ID_def AList.update_conv' Let_def)

lemma enlist_listed:
  assumes "rb_id r = i" "rb_healthy r"
  shows "redis_listed i (enlist (RedisBackend r) s)"
  using assms by (simp add: redis_listed_def enlist_def RegisterBackend_def obj_ID_def AList.update_conv' Let_def Backend_ident_def Redis_ident_def)

lemma listed_frame:
  "heap s' = heap s \<Longrightarrow> bo_router s' = bo_router s \<Longrightarrow> bo_next s' = bo_next s \<Longrightarrow> redis_listed i s' = redis_listed i s"
  by (simp add: redis_listed_def)

text \<open>What is asked of the entries of the configuration with that ID.\<close>

definition redis_entry :: "BackendConfig \<Rightarrow> bool" where
  "redis_entry cfg \<longleftrightarrow> bc_Type cfg = BackendTypeRedis \<and> bc_Redis cfg \<noteq> None"

lemma listed_add_configured:
  fixes s :: "('w, 'z) boot_scheme"
  assumes "bc_ID cfg = i \<longrightarrow> redis_entry cfg" "bc_ID cfg = i \<or> redis_listed i s"
  shows "redis_listed i (add_configured E M n cfg s)"
proof (cases "bc_ID cfg = i")
  case True
  with assms(1) make_redis [of cfg _ M "world s"] obtain r w' where
    m: "make_backend M cfg (world s) = Some (Inr (RedisBackend r), w')" "rb_id r = i" "rb_healthy r" "bc_Type cfg = BackendTypeRedis"
    by (auto simp: redis_entry_def)
  have "redis_listed i (enlist (RedisBackend r) (s\<lparr>world := w'\<rparr>))" using m by (intro enlist_listed)
  with m show ?thesis
    by (simp add: add_configured_def Let_def listed_frame [of "watch_backend E M cfg p x" x for p x] watch_backend_frame)
next
  case False
  with assms(2) have l: "redis_listed i s" by simp
  show ?thesis
  proof (cases "make_backend M cfg (world s)")
    case None
    with l show ?thesis by (simp add: add_configured_def)
  next
    case (Some x)
    obtain y w where x: "x = (y, w)" by fastforce
    have keep: "redis_listed i (s\<lparr>world := w\<rparr>)" "redis_listed i (s\<lparr>world := w, bo_local := l'\<rparr>)" for l'
      using l by (simp_all add: redis_listed_def)
    show ?thesis
    proof (cases y)
      case (Inl err)
      with Some x keep show ?thesis by (simp add: add_configured_def Let_def)
    next
      case (Inr b)
      with Some x False make_backend_ID have "id_ID (Backend_ident b) \<noteq> i" by metis
      from listed_enlist [OF keep(1) this] listed_enlist [OF keep(2) this] Some x Inr show ?thesis
        by (simp add: add_configured_def Let_def listed_frame [of "watch_backend E M cfg p x" x for p x] watch_backend_frame)
    qed
  qed
qed

lemma listed_configured:
  assumes "\<forall>cfg \<in> set cfgs. bc_ID cfg = i \<longrightarrow> redis_entry cfg" "i \<in> bc_ID ` set cfgs \<or> redis_listed i s"
  shows "redis_listed i (fold (add_configured E M n) cfgs s)"
  using assms
proof (induction cfgs arbitrary: s)
  case Nil
  then show ?case by simp
next
  case (Cons cfg cfgs)
  show ?case
  proof (cases "bc_ID cfg = i \<or> redis_listed i s")
    case True
    with Cons.prems(1) listed_add_configured [of cfg i s] Cons.IH [of "add_configured E M n cfg s"] show ?thesis by simp
  next
    case False
    with Cons.prems Cons.IH [of "add_configured E M n cfg s"] show ?thesis by auto
  qed
qed

lemma listed_default:
  assumes "redis_listed i s" "i \<noteq> ''local''" "add_default M s = Inr s'"
  shows "redis_listed i s'"
proof (cases "bo_local s = LocalNil")
  case False
  with assms show ?thesis by (simp add: add_default_def)
next
  case True
  let ?cfg = "\<lparr>mbc_MaxCost = 2 ^ 30, mbc_NumCounters = 10000000, mbc_BufferItems = 64, mbc_DefaultTTL = ''5m''\<rparr>"
  obtain y w where n: "Memory_New (mk_cache M) ''local'' ''Local Cache'' 1 (Some ?cfg) (world s) = (y, w)" by fastforce
  with True assms(3) obtain m where y: "y = Inr m"
    "s' = enlist (MemoryBackend m) (s\<lparr>world := w, bo_local := LocalAt (bo_next s)\<rparr>)"
    by (auto simp: add_default_def split: sum.splits)
  have "mb_id m = ''local''" using n y(1) by (auto simp: Memory_New_def Let_def split: prod.splits sum.splits)
  moreover have "redis_listed i (s\<lparr>world := w, bo_local := LocalAt (bo_next s)\<rparr>)" using assms(1) by (simp add: redis_listed_def)
  ultimately show ?thesis using listed_enlist [of i _ "MemoryBackend m"] assms(2) y(2) by (simp add: Backend_ident_def Memory_ident_def)
qed

section \<open>The rules\<close>

text \<open>Every rule that matches a key names the backend, and one does.\<close>

definition sent_to :: "(string \<Rightarrow> u64) \<Rightarrow> RoutingRule list \<Rightarrow> string \<Rightarrow> string \<Rightarrow> bool" where
  "sent_to xx rules i k \<longleftrightarrow>
     (let ids = map rr_BackendID (filter (\<lambda>rule. matchRule xx rule k \<and> rr_Strategy rule \<noteq> RoutingStrategyBlacklist) rules)
      in ids \<noteq> [] \<and> set ids \<subseteq> {i})"

lemma first_live_only:
  "is \<noteq> [] \<Longrightarrow> set is \<subseteq> {i} \<Longrightarrow> live h r i = Some p \<Longrightarrow> first_live h r is = Some p"
  by (cases "is") simp_all

lemma sent_named:
  assumes "slice_sorter sorter" "sent_to (env_xxhash E) rules i k" "live h (SetRules sorter rules ro) i = Some p"
    "cs_router cs = SetRules sorter rules ro"
  shows "named_target E cs h k hint = Some p"
proof -
  have s: "set (sorter higher_priority rules) = set rules"
    by (rule slice_sorter.sorter_set [OF assms(1)])
  have "rule_ids (env_xxhash E) (cs_router cs) k \<noteq> []" "set (rule_ids (env_xxhash E) (cs_router cs) k) \<subseteq> {i}"
    using assms(2) by (auto simp: rule_ids_def assms(4) SetRules_frame sent_to_def Let_def filter_empty_conv s)
  from first_live_only [OF this] assms(3,4) show ?thesis
    by (simp add: named_target_def candidates_def SetRules_frame list_of_key_def)
qed

section \<open>The started proxy\<close>

lemma boot_listed:
  assumes "boot E M sorter ns app h w = Inr (s, cs)" "i \<noteq> ''local''" "i \<in> bc_ID ` set (ac_Backends app)"
    "\<forall>cfg \<in> set (ac_Backends app). bc_ID cfg = i \<longrightarrow> redis_entry cfg"
  shows "redis_listed i s"
proof -
  from assms(1) obtain hc s1 where
    "add_default M (fold (add_configured E M (length (ac_Backends app))) (ac_Backends app) (boot_start hc initMetrics h w)) = Inr s1"
    "s = s1\<lparr>bo_router := SetRules sorter (ac_Routing app) (bo_router s1)\<rparr>"
    by (auto simp: boot_def Let_def split: sum.splits)
  with listed_default [OF listed_configured [OF assms(4)] assms(2)] assms(3) show ?thesis
    by (auto simp: redis_listed_def SetRules_frame)
qed

lemma boot_serves:
  assumes boot: "boot E M sorter ns app h w = Inr (s, Some cs)" "slice_sorter sorter"
      "\<forall>cfg \<in> set (ac_Backends app). \<forall>cb. bc_CircuitBreaker cfg = Some cb \<longrightarrow> config_in_range cb"
    and configured: "i \<noteq> ''local''" "i \<in> bc_ID ` set (ac_Backends app)"
      "\<forall>cfg \<in> set (ac_Backends app). bc_ID cfg = i \<longrightarrow> redis_entry cfg"
    and rules: "\<forall>k \<in> K. sent_to (env_xxhash E) (ac_Routing app) i k"
  shows "\<exists>p r. heap s p = RedisBackend r \<and> rb_id r = i \<and> serves_store E cs p r K s"
proof -
  obtain p r where p: "map_of (r_backends (bo_router s)) i = Some p" "heap s p = RedisBackend r" "rb_id r = i" "rb_healthy r"
    using boot_listed [OF boot(1) configured] unfolding redis_listed_def by blast
  note b = boot_establishes [OF boot(1,3)]
  then have ro: "cs_router cs = bo_router s" and "local_memory cs (heap s)" by (auto simp: local_memory_def)
  obtain ro0 where r0: "bo_router s = SetRules sorter (ac_Routing app) ro0" using boot_cases [OF boot(1,3)] by blast
  have l: "live (heap s) (bo_router s) i = Some p" using p by (simp add: live_Some obj_Healthy_def Backend_Healthy_def)
  have "named_target E cs (heap s) k hint = Some p" if "k \<in> K" for k hint
    using sent_named [OF boot(2) _ l [unfolded r0] ro [unfolded r0]] rules that by blast
  with b p ro \<open>local_memory cs (heap s)\<close> show ?thesis by (auto simp: serves_store_def)
qed

text \<open>
  C2: a started proxy serves a versioned map. If the configuration has a Redis backend with
  an ID of its own, and every rule that matches a key of some set names that ID and at least
  one does, and Redis is empty for these keys, then after every successful start, until
  something else changes a health flag or the server, any overlapping reads that skip the
  local cache, writes and deletions of these keys are explained by the versioned map that is
  empty at the start, each taking effect at one instant of its own.
\<close>

theorem started_proxy_linearizes:
  assumes server: "redis_server E clock store" "steady E clock store" "apart E clock store"
    and boot: "boot E M sorter ns app h w = Inr (s, Some cs)" "slice_sorter sorter"
      "\<forall>cfg \<in> set (ac_Backends app). \<forall>cb. bc_CircuitBreaker cfg = Some cb \<longrightarrow> config_in_range cb"
    and configured: "i \<noteq> ''local''" "i \<in> bc_ID ` set (ac_Backends app)"
      "\<forall>cfg \<in> set (ac_Backends app). bc_ID cfg = i \<longrightarrow> redis_entry cfg"
    and keys: "\<forall>k \<in> K. sent_to (env_xxhash E) (ac_Routing app) i k" "apart_keys K"
      "\<forall>x. \<forall>k \<in> K. store (world s) x k = None \<and> store (world s) x (versionKey k) = None"
  shows "\<exists>p r. heap s p = RedisBackend r \<and> rb_id r = i \<and>
    (\<forall>reqs past c'. (logged_step E clock store cs p r K)\<^sup>*\<^sup>* ([], [], s) (reqs, past, c') \<and> length past < 2 ^ 63 - 1 \<longrightarrow>
       explained cs r True (map snd past) Map.empty \<and> holds_map E store cs p r K c' (replay cs r (map snd past) Map.empty) \<and>
       in_order (clock (world s)) past (clock (world c')) \<and> (\<forall>i < length reqs. settled p past i (reqs ! i)))"
proof -
  obtain p r where p: "heap s p = RedisBackend r" "rb_id r = i" "serves_store E cs p r K s"
    using boot_serves [OF boot configured keys(1)] by blast
  have h: "holds_map E store cs p r K s Map.empty" using p(3) keys(3) by (simp add: holds_map_def stored_def stored_at_def)
  have v: "versions_upto 0 Map.empty" by (simp add: versions_upto_def)
  show ?thesis
  proof (intro exI conjI allI impI)
    fix reqs past c' i
    assume r: "(logged_step E clock store cs p r K)\<^sup>*\<^sup>* ([], [], s) (reqs, past, c') \<and> length past < 2 ^ 63 - 1"
    note lin = overlapping_requests_linearize [OF server h keys(2) v, of reqs past c']
    from r lin show "explained cs r True (map snd past) Map.empty" by simp
    from r lin show "holds_map E store cs p r K c' (replay cs r (map snd past) Map.empty)" by simp
    from r lin show "in_order (clock (world s)) past (clock (world c'))" by simp
    assume "i < length reqs"
    with r lin show "settled p past i (reqs ! i)" by simp
  qed (rule p(1,2))+
qed

section \<open>A sample\<close>

definition sample_store_config :: AppConfig where
  "sample_store_config = sample_app_config
     \<lparr>ac_Backends := [\<lparr>bc_ID = ''redis-master'', bc_Type = BackendTypeRedis, bc_Name = ''redis'', bc_Weight = 5, bc_Group = '''',
        bc_Memory = None,
        bc_Redis = Some \<lparr>rbc_Addr = '''', rbc_Password = '''', rbc_DB = 0, rbc_PoolSize = 0, rbc_MinIdleConns = 0,
          rbc_DialTimeout = '''', rbc_ReadTimeout = '''', rbc_WriteTimeout = ''''\<rparr>,
        bc_HTTP = None, bc_GRPC = None, bc_HealthCheck = None, bc_CircuitBreaker = None\<rparr>]\<rparr>"

lemma sample_store_boot:
  "\<exists>s svc. boot sim_env sample_makers insertion_sort None sample_store_config sample_heap sim0 = Inr (s, Some svc) \<and>
     sim_redis (world s) = (\<lambda>_ _. None)"
  by (simp add: boot_def HealthChecker_New_def sample_store_config_def sample_app_config_def boot_start_def add_default_def
      Memory_New_def sample_makers_def enlist_def boot_service_def add_configured_def make_backend_def Redis_New_def
      watch_backend_def GetOrCreate_def Health_RegisterBackend_def NewCircuitBreakerManager_def Let_def sim0_def)

lemma started_proxy_linearizes_witness:
  "\<exists>s svc reqs c' r (past :: effects).
     boot sim_env sample_makers insertion_sort None sample_store_config sample_heap sim0 = Inr (s, Some svc) \<and>
     run_schedule sim_env svc [0, 1, 0, 1, 0, 1, 0, 1, 0, 1, 0, 1]
       ([Deleting ''user:profile:7'' '''' DeleteStart,
         Reading ''user:profile:7'' (zero_get_options\<lparr>go_SkipCache := True\<rparr>) GetStart], s) = (reqs, c') \<and>
     explained svc r True (map snd past) Map.empty"
proof -
  let ?k = "''user:profile:7''"
  let ?reqs = "[Deleting ?k '''' DeleteStart, Reading ?k (zero_get_options\<lparr>go_SkipCache := True\<rparr>) GetStart]"
  let ?is = "[0, 1, 0, 1, 0, 1, 0, 1, 0, 1, 0, 1] :: nat list"
  obtain s svc where b: "boot sim_env sample_makers insertion_sort None sample_store_config sample_heap sim0 = Inr (s, Some svc)"
      "sim_redis (world s) = (\<lambda>_ _. None)"
    using sample_store_boot by blast
  have c: "\<forall>cfg \<in> set (ac_Backends sample_store_config). \<forall>cb. bc_CircuitBreaker cfg = Some cb \<longrightarrow> config_in_range cb"
    "''redis-master'' \<noteq> ''local''" "''redis-master'' \<in> bc_ID ` set (ac_Backends sample_store_config)"
    "\<forall>cfg \<in> set (ac_Backends sample_store_config). bc_ID cfg = ''redis-master'' \<longrightarrow> redis_entry cfg"
    by (simp_all add: sample_store_config_def redis_entry_def)
  have k: "\<forall>k \<in> {?k}. sent_to (env_xxhash sim_env) (ac_Routing sample_store_config) ''redis-master'' k" "apart_keys {?k}"
    "\<forall>x. \<forall>k \<in> {?k}. sim_redis (world s) x k = None \<and> sim_redis (world s) x (versionKey k) = None"
    using b(2)
    by (simp_all add: sample_store_config_def sample_app_config_def sent_to_def sample_rules_def sample_rule_def matchRule_def
        HasPrefix_def TrimSuffix_def HasSuffix_def apart_keys_def Let_def)
  obtain reqs c' where sched: "run_schedule sim_env svc ?is (?reqs, s) = (reqs, c')" by fastforce
  obtain p r where lin: "\<And>reqs past c'. (logged_step sim_env sim_clock sim_redis svc p r {?k})\<^sup>*\<^sup>* ([], [], s) (reqs, past, c') \<Longrightarrow>
      length past < 2 ^ 63 - 1 \<Longrightarrow> explained svc r True (map snd past) Map.empty"
    using started_proxy_linearizes [OF sim_redis_server sim_steady sim_apart b(1) insertion_sorter.slice_sorter_axioms c k] by blast
  have "set ?is \<subseteq> {..< length ?reqs}" "\<forall>req \<in> set ?reqs. starts req \<and> suitable svc r {?k} req"
    by (simp_all add: zero_get_options_def)
  from scheduled_run [OF this(2,1) sched, of sim_clock sim_redis p] obtain past where
    run: "(logged_step sim_env sim_clock sim_redis svc p r {?k})\<^sup>*\<^sup>* ([], [], s) (reqs, past, c')" and l: "length past \<le> 12" by auto
  from lin [OF run] l have "explained svc r True (map snd past) Map.empty" by simp
  with b(1) sched show ?thesis by (intro exI conjI)
qed

end
