(* ===== verification/Spec2Isabelle.thy ===== *)
theory Spec2Isabelle
  imports Routing_Properties Circuit_Properties Health_Properties Worker_Properties Server_Properties
    Invalidation_Properties Proxy_Runs End_To_End Start_Properties Coherence Write_Behind
    Overlap_Properties Started_Store
begin

text \<open>
  A model of go-cache-proxy, a caching proxy in front of several storage backends: a client
  reads, writes and deletes keys over HTTP; the proxy looks in a local cache, routes the key
  by rules to backends (in memory, Redis, HTTP, gRPC), watches their health, has a circuit
  breaker for each, can write behind a queue, and tells other nodes over Redis Pub/Sub or
  gossip that a key is stale.

  \<^bold>\<open>How the model is built.\<close> A Go struct is a record, a constant type a datatype, an \<open>int\<close> an
  \<open>int\<close> in the range of 64 bits with \<open>wrap64\<close> where the code can overflow, a \<open>uint64\<close> a word, a
  string the list of its bytes, an \<open>error\<close> the datatype \<open>go_error\<close>, a function that can fail a
  sum or an option. Every operation is a function from the state it gets to the state it
  leaves. The state has three layers: the \<open>world\<close>, which is whatever the third-party clients,
  the clock and the random source depend on, as a type variable; \<open>ctx\<close>, which adds the metrics
  (\<open>mtr\<close>); \<open>heap_ctx\<close>, which adds the objects behind the interface \<open>storage.Backend\<close>, because
  router, health checker and cache service share them by pointer; \<open>cs_ctx\<close>, which adds the
  breakers, the queue and the work of other goroutines. Third-party code is the record \<open>env\<close> of
  functions on the world (Externals) and a few explicit arguments; a property that needs
  something of it says so in a hypothesis, and its witness runs on \<open>sim_env\<close>
  (Reference_World), where the hypotheses hold. The order in which \<open>range\<close> meets the keys of a
  map is an argument or drawn from the environment.

  \<^bold>\<open>Shared theories.\<close> Go_Prelude (64-bit integers, strings, \<open>ParseUint\<close>, association lists, the
  rule collections), Go_Sort (\<open>sort.Slice\<close>; locale \<open>slice_sorter\<close>, interpreted on the insertion
  sort Go uses up to twelve elements), Go_Glob (\<open>filepath.Match\<close>), Go_Time (\<open>time.ParseDuration\<close>),
  Go_Base64 (\<open>encoding/base64\<close>, with its round trip), Externals, Reference_World, Samples.

  \<^bold>\<open>Components\<close>, with their sources under \<open>src/internal\<close>:
    \<^item> Storage (\<open>storage/storage.go\<close>): errors, entries, and the locale \<open>kv_backend\<close>, the contract of a
      backend. Memory_Backend, Redis_Backend, Http_Backend, Grpc_Backend model the four
      implementations and interpret it; Backends is the dispatch of an interface value and
      interprets it again.
    \<^item> Config (\<open>config/config.go\<close>: what \<open>loadConfig\<close> sets up for viper, the once and the hot
      reload), Metrics (\<open>metrics/metrics.go\<close>), Logger (\<open>logger/logger.go\<close>).
    \<^item> Router and Load_Balancer (\<open>router/\<close>): rules, hints, the target of a write and the list of a
      read; locale \<open>routing\<close>. Routing_Properties: a write goes where reads look first, a
      read covers the live backends once each, priorities decide, what patterns match, what
      the load balancer picks and how often.
    \<^item> Circuit (\<open>circuit/circuitbreaker.go\<close>): the breaker and its manager; locale \<open>call_gate\<close> with
      the manager as its instance. Circuit_Properties: the invariant of a breaker's life,
      when it opens, when it recovers.
    \<^item> Health (\<open>health/healthchecker.go\<close>). Health_Properties: the checks refine the automaton
      \<open>watch\<close>, eviction and readmission at the thresholds, ping checks bypass them.
    \<^item> Cache_Service (\<open>cache/cache.go\<close>): reads, the four ways to write, deletion, and the
      write-behind worker as the steps of its \<open>select\<close>; \<open>service_step\<close> is one operation or one step
      of another goroutine. Cache_Properties: a read refines a reference on the answers of
      the backends. Worker_Properties: what every interleaving keeps, the bounds of what
      waits, and that the attempts of an item are finite.
    \<^item> Invalidation (\<open>pubsub/pubsub.go\<close>, \<open>gossip/gossip.go\<close>): the two buses; locale
      \<open>invalidation_bus\<close> with both as instances. Invalidation_Properties: who is reached, and
      from one node's announcement to another node's cache.
    \<^item> Api (\<open>api/handler.go\<close>): handlers, routes, middleware. Api_Properties: statuses and bodies,
      what a rejected request leaves alone, TTLs, health reports.
    \<^item> Server (\<open>cmd/server/main.go\<close>): construction, wiring and shutdown; \<open>main_start\<close> is \<open>main\<close> up
      to the point where it serves. Server_Properties: a start establishes the invariants the
      other properties assume; hints have no effect; a shutdown loses the queued writes,
      those to HTTP backends apart, whose client has nothing to close.
      Start_Properties: what a start survives, and which configuration is in force after
      changes of the file.
    \<^item> Proxy_Runs: the whole proxy as a step relation, \<open>proxy_step\<close>, over requests through the
      engine, health checks, announcements and goroutines, and the invariant of every run from
      the state \<open>main\<close> builds.
    \<^item> Redis_Properties and End_To_End: what the Redis backend makes of a server that executes
      the documented commands (\<open>redis_exec\<close>, with the whole seconds and milliseconds in which
      the client sends a lifetime), and a value on its whole way from a write request to the
      answer of a read request.
    \<^item> Coherence: what each operation does to the local copy of a key, on a cache that may
      drop what it is handed, take it later and forget it, and answers nothing or a value it
      was handed since the last deletion (\<open>honest_cache\<close>), and which value a node serves after
      its own write, a failed write, an oversized write and a deletion.
    \<^item> Write_Behind: a batch leaves in Redis the last value queued for each key; a write that
      comes back from a retry overwrites what was written since.
    \<^item> Overlap: the three operations of the service as programs whose steps are the calls that
      touch shared state, so that requests can overlap (\<open>overlap_step\<close>, \<open>run_schedule\<close>).
      Overlap_Properties: a request that runs alone does what the operation does; every
      interleaving keeps the invariants; of two overlapping writes one can be the last to reach
      the local cache and the other the last to reach the backend.
    \<^item> Store_Refinement: the abstract specification of the service over a Redis backend, a
      versioned map with deadlines (\<open>vs_get\<close>, \<open>vs_set\<close>, \<open>vs_delete\<close>), the relation between map and
      server (\<open>stored\<close>, \<open>holds_map\<close>), a simulation for each operation, and the refinement of every
      run. Linearizable: the same for requests that overlap, each with one instant of effect.
      Started_Store: from the configuration, through \<open>main\<close>'s construction, to that map.

  \<^bold>\<open>Bounds and fuel.\<close> No definition needs fuel: every loop of the code runs over a list or a
  string and is a structural recursion or has its measure. The bounds are those of the
  code: 64 bits, a queue of 10000, batches of 100, three retries.

  \<^bold>\<open>Concurrency.\<close> In \<open>service_step\<close> and \<open>proxy_step\<close> an operation of the service is one step,
  between two steps of the worker, of a sleeping retry or of a started local write, and the
  health checks and the announcements of other nodes run between operations in the same
  sense. In \<open>overlap_step\<close> the steps of several requests interleave; what is atomic there is
  one call of the clock, the router, a breaker, a backend or the queue, which the locks of the
  code and of the clients make so for each shared map.

  \<^bold>\<open>Not modelled.\<close> How viper reads and decodes the file, how gin decodes a body and matches a
  path, JSON in both directions, the Prometheus registry and its page, serving HTTP and the
  signals of the process, the scheduler that runs the health checks, and the writing of
  log events: they are calls of libraries whose source is not in the repository. The
  calendar is not modelled either: an instant is a number of nanoseconds since 1970, and what
  a message carries through JSON is assumed to be read back for the years 2000 to 9999 only
  (\<open>json_time\<close>). The deadline of a
  request's context is a matter of the environment, whose operations may return an error at
  any time; a panic is modelled where the code can reach one (closing a bus twice, a local
  cache that is a nil pointer).
\<close>

end
